(* ===== verification/Prelude.thy ===== *)
theory Prelude imports Complex_Main "HOL-Library.AList" begin

text \<open>
  Shared vocabulary of the development: the Python values that cross the program's interfaces
  (JSON values, dictionaries, FIFO queues), the generic lemmas about them, and the collections of
  simplification rules the component theories extend.

  \<^item> A Python \<open>dict\<close> keeps its insertion order, and the code iterates over dictionaries
    (\<open>list(tasks)\<close>, \<open>guards.items()\<close>), so it is an association list with
    \<open>dict_set\<close> replacing in place or appending at the end.
  \<^item> A \<open>queue.Queue\<close> is a list with \<open>q_put\<close> at its end and \<open>q_get\<close> at its front.
  \<^item> JSON values are \<open>'s json\<close> over the type \<open>'s\<close> of strings. Components that only look at
    ASCII keys and method names take \<open>string\<close>; the wire format takes lists of code points.
\<close>

section \<open>Collections of rules\<close>

named_theorems dict_simps \<open>laws of the dictionary operations\<close>
named_theorems queue_simps \<open>laws of the FIFO operations\<close>
named_theorems frame_simps \<open>fields an operation leaves alone\<close>

section \<open>JSON values\<close>

datatype 's json =
    JNull
  | JBool bool
  | JInt int
  | JReal real
  | JStr 's
  | JArr "'s json list"
  | JObj "('s \<times> 's json) list"

type_synonym "value" = "string json"

section \<open>Dictionaries\<close>

type_synonym ('k, 'v) dict = "('k \<times> 'v) list"

fun dict_get :: "('k, 'v) dict \<Rightarrow> 'k \<Rightarrow> 'v option" where
  "dict_get [] k = None"
| "dict_get ((k', v) # d) k = (if k' = k then Some v else dict_get d k)"

fun dict_set :: "'k \<Rightarrow> 'v \<Rightarrow> ('k, 'v) dict \<Rightarrow> ('k, 'v) dict" where
  "dict_set k v [] = [(k, v)]"
| "dict_set k v ((k', w) # d) = (if k' = k then (k', v) # d else (k', w) # dict_set k v d)"

fun dict_pop :: "'k \<Rightarrow> ('k, 'v) dict \<Rightarrow> ('k, 'v) dict" where
  "dict_pop k [] = []"
| "dict_pop k ((k', v) # d) = (if k' = k then dict_pop k d else (k', v) # dict_pop k d)"

definition dict_keys :: "('k, 'v) dict \<Rightarrow> 'k list" where
  "dict_keys d = map fst d"

definition dict_setdefault :: "'k \<Rightarrow> 'v \<Rightarrow> ('k, 'v) dict \<Rightarrow> ('k, 'v) dict" where
  "dict_setdefault k v d = (if dict_get d k = None then dict_set k v d else d)"

text \<open>\<open>{**a, **b}\<close>: the entries of the second dictionary override those of the first.\<close>

fun dict_merge :: "('k, 'v) dict \<Rightarrow> ('k, 'v) dict \<Rightarrow> ('k, 'v) dict" where
  "dict_merge a [] = a"
| "dict_merge a ((k, v) # b) = dict_merge (dict_set k v a) b"

definition dict_ok :: "('k, 'v) dict \<Rightarrow> bool" where
  "dict_ok d \<longleftrightarrow> distinct (dict_keys d)"

lemma dict_get_map_of: "dict_get d = map_of d"
  by (rule ext, induction d) (auto split: if_splits)

lemma dict_keys_simps [simp]:
  "dict_keys [] = []" "dict_keys ((k, v) # d) = k # dict_keys d"
  by (simp_all add: dict_keys_def)

lemma dict_get_set [dict_simps]: "dict_get (dict_set k v d) = (dict_get d)(k := Some v)"
  by (rule ext, induction d) (auto split: if_splits)

lemma dict_get_pop [dict_simps]: "dict_get (dict_pop k d) = (dict_get d)(k := None)"
  by (rule ext, induction d) (auto split: if_splits)

lemma set_keys_dict_set [dict_simps]: "set (dict_keys (dict_set k v d)) = insert k (set (dict_keys d))"
  by (induction k v d rule: dict_set.induct) auto

lemma set_keys_dict_pop [dict_simps]: "set (dict_keys (dict_pop k d)) = set (dict_keys d) - {k}"
  by (induction k d rule: dict_pop.induct) auto

lemma set_dict_set_subset: "set (dict_set k v d) \<subseteq> insert (k, v) (set d)"
  by (induction d) (auto split: if_splits)

lemma set_dict_pop_subset: "set (dict_pop k d) \<subseteq> set d"
  by (induction d) (auto split: if_splits)

lemma dict_ok_empty [simp]: "dict_ok []"
  by (simp add: dict_ok_def)

lemma dict_ok_set [intro, dict_simps]: "dict_ok d \<Longrightarrow> dict_ok (dict_set k v d)"
  unfolding dict_ok_def by (induction k v d rule: dict_set.induct) (auto simp: dict_simps)

lemma dict_ok_pop [intro, dict_simps]: "dict_ok d \<Longrightarrow> dict_ok (dict_pop k d)"
  unfolding dict_ok_def by (induction k d rule: dict_pop.induct) (auto simp: dict_simps)

lemma dict_get_None: "dict_get d k = None \<longleftrightarrow> k \<notin> set (dict_keys d)"
  by (induction d) (auto split: if_splits)

lemma dict_get_in: "dict_get d k = Some v \<Longrightarrow> (k, v) \<in> set d"
  by (induction d) (auto split: if_splits)

lemma dict_in_get: "dict_ok d \<Longrightarrow> (k, v) \<in> set d \<Longrightarrow> dict_get d k = Some v"
  unfolding dict_ok_def dict_keys_def by (simp add: dict_get_map_of)

lemma dict_pop_unset: "k \<notin> set (dict_keys d) \<Longrightarrow> dict_pop k d = d"
  by (induction d) auto

text \<open>What the clients of a dictionary use: a lookup after each update, and the set of keys.\<close>

locale py_dict =
  fixes lookup :: "'d \<Rightarrow> 'k \<Rightarrow> 'v option"
    and upd :: "'k \<Rightarrow> 'v \<Rightarrow> 'd \<Rightarrow> 'd"
    and del :: "'k \<Rightarrow> 'd \<Rightarrow> 'd"
  assumes lookup_upd: "lookup (upd k v d) = (lookup d)(k := Some v)"
    and lookup_del: "lookup (del k d) = (lookup d)(k := None)"
begin

lemma read_your_write: "lookup (upd k v d) k = Some v"
  by (simp add: lookup_upd)

lemma write_other: "k \<noteq> k' \<Longrightarrow> lookup (upd k v d) k' = lookup d k'"
  by (simp add: lookup_upd)

lemma last_write_wins: "lookup (upd k v (upd k w d)) = lookup (upd k v d)"
  by (simp add: lookup_upd)

lemma del_after_fresh_upd: "lookup d k = None \<Longrightarrow> lookup (del k (upd k v d)) = lookup d"
  by (rule ext) (simp add: lookup_upd lookup_del)

lemma dom_upd: "dom (lookup (upd k v d)) = insert k (dom (lookup d))"
  by (auto simp: lookup_upd)

lemma fold_upd_other:
  "k \<notin> fst ` set kvs \<Longrightarrow> lookup (fold (\<lambda>(k, v). upd k v) kvs d) k = lookup d k"
  by (induction kvs arbitrary: d) (auto simp: lookup_upd)

end

interpretation pd: py_dict dict_get dict_set dict_pop
  by unfold_locales (simp_all add: dict_simps)

lemma dict_merge_fold: "dict_merge a b = fold (\<lambda>(k, v). dict_set k v) b a"
  by (induction a b rule: dict_merge.induct) simp_all

lemma dict_ok_merge: "dict_ok a \<Longrightarrow> dict_ok (dict_merge a b)"
  by (induction a b rule: dict_merge.induct) auto

lemma dict_get_merge [dict_simps]:
  "dict_ok b \<Longrightarrow> dict_get (dict_merge a b) k = (case dict_get b k of Some v \<Rightarrow> Some v | None \<Rightarrow> dict_get a k)"
proof (induction a b rule: dict_merge.induct)
  case (2 a k' v b)
  then have "dict_ok b" and fresh: "k' \<notin> set (dict_keys b)"
    by (auto simp: dict_ok_def)
  with 2 have "dict_get (dict_merge (dict_set k' v a) b) k
      = (case dict_get b k of Some v \<Rightarrow> Some v | None \<Rightarrow> dict_get (dict_set k' v a) k)"
    by simp
  moreover from fresh have "dict_get b k' = None" by (simp add: dict_get_None)
  ultimately show ?case
    by (auto simp: dict_get_set split: option.splits)
qed simp

lemma dict_get_setdefault [dict_simps]:
  "dict_get (dict_setdefault k v d) k' = (if k' = k \<and> dict_get d k = None then Some v else dict_get d k')"
  by (auto simp: dict_setdefault_def dict_simps)

section \<open>FIFO queues\<close>

type_synonym 'a fifo = "'a list"

definition q_put :: "'a \<Rightarrow> 'a fifo \<Rightarrow> 'a fifo" where
  "q_put x q = q @ [x]"

text \<open>\<open>get_nowait\<close>: \<open>None\<close> is \<open>queue.Empty\<close>.\<close>

definition q_get :: "'a fifo \<Rightarrow> ('a \<times> 'a fifo) option" where
  "q_get q = (case q of [] \<Rightarrow> None | x # q' \<Rightarrow> Some (x, q'))"

lemma q_put_not_Nil [simp]: "q_put x q \<noteq> []"
  by (simp add: q_put_def)

lemma q_get_simps [simp]: "q_get [] = None" "q_get (x # q) = Some (x, q)"
  by (simp_all add: q_get_def)

lemma q_get_None [queue_simps]: "q_get q = None \<longleftrightarrow> q = []"
  by (cases q) simp_all

lemma q_get_Some [queue_simps]: "q_get q = Some (x, q') \<longleftrightarrow> q = x # q'"
  by (cases q) auto

text \<open>
  The interface the threads rely on: what was put comes out once, in the order it was put. The
  clients' lemmas are about the whole traffic through a queue.
\<close>

locale fifo_queue =
  fixes put :: "'a \<Rightarrow> 'q \<Rightarrow> 'q"
    and get :: "'q \<Rightarrow> ('a \<times> 'q) option"
    and contents :: "'q \<Rightarrow> 'a list"
  assumes contents_put: "contents (put x q) = contents q @ [x]"
    and get_None: "get q = None \<longleftrightarrow> contents q = []"
    and get_Some: "get q = Some (x, q') \<Longrightarrow> contents q = x # contents q'"
begin

lemma contents_fold_put: "contents (fold put xs q) = contents q @ xs"
  by (induction xs arbitrary: q) (simp_all add: contents_put)

lemma put_get_empty: "contents q = [] \<Longrightarrow> \<exists>q'. get (put x q) = Some (x, q') \<and> contents q' = []"
proof -
  assume e: "contents q = []"
  then have c: "contents (put x q) = [x]" by (simp add: contents_put)
  then have "get (put x q) \<noteq> None" by (simp add: get_None)
  then obtain y q' where g: "get (put x q) = Some (y, q')" by auto
  with c show ?thesis using get_Some [OF g] by auto
qed

lemma get_conserves: "get q = Some (x, q') \<Longrightarrow> length (contents q) = Suc (length (contents q'))"
  by (drule get_Some) simp

end

interpretation fq: fifo_queue q_put q_get "\<lambda>q. q"
  by unfold_locales (auto simp: q_put_def queue_simps)

section \<open>Small Python helpers\<close>

definition prefix_of :: "'a list \<Rightarrow> 'a list \<Rightarrow> bool" where
  "prefix_of p s \<longleftrightarrow> take (length p) s = p"

text \<open>\<open>p in s\<close> on strings.\<close>

fun substring :: "'a list \<Rightarrow> 'a list \<Rightarrow> bool" where
  "substring p [] = (p = [])"
| "substring p (c # s) = (prefix_of p (c # s) \<or> substring p s)"

lemma substring_iff: "substring p s \<longleftrightarrow> (\<exists>a b. s = a @ p @ b)"
proof (induction s)
  case (Cons c s)
  have "prefix_of p (c # s) \<longleftrightarrow> (\<exists>b. c # s = p @ b)"
    unfolding prefix_of_def by (metis append_eq_conv_conj append_take_drop_id)
  moreover have "(\<exists>a b. c # s = a @ p @ b) \<longleftrightarrow> (\<exists>b. c # s = p @ b) \<or> (\<exists>a b. s = a @ p @ b)"
    by (metis append_Cons append_Nil neq_Nil_conv list.inject)
  ultimately show ?case using Cons.IH by simp
qed simp

text \<open>\<open>round(x, 3)\<close>: three decimals, halves to even.\<close>

definition round_half_even :: "real \<Rightarrow> int" where
  "round_half_even y =
     (let f = \<lfloor>y\<rfloor>; d = y - of_int f
      in if d < 1 / 2 then f else if d > 1 / 2 then f + 1 else if even f then f else f + 1)"

definition round3 :: "real \<Rightarrow> real" where
  "round3 x = of_int (round_half_even (x * 1000)) / 1000"

lemma round3_nonneg: "0 \<le> x \<Longrightarrow> 0 \<le> round3 x"
proof -
  assume "0 \<le> x"
  then have "0 \<le> \<lfloor>x * 1000\<rfloor>" by simp
  then have "0 \<le> round_half_even (x * 1000)"
    by (simp add: round_half_even_def Let_def)
  then show ?thesis by (simp add: round3_def)
qed

section \<open>Decimal numerals\<close>

definition digit_char :: "nat \<Rightarrow> char" where
  "digit_char n = char_of (48 + n)"

definition char_digit :: "char \<Rightarrow> nat option" where
  "char_digit c = (let n = of_char c in if 48 \<le> n \<and> n \<le> 57 then Some (n - 48) else None)"

fun show_nat :: "nat \<Rightarrow> string" where
  "show_nat n = (if n < 10 then [digit_char n] else show_nat (n div 10) @ [digit_char (n mod 10)])"

declare show_nat.simps [simp del]

definition show_int :: "int \<Rightarrow> string" where
  "show_int i = (if i < 0 then CHR ''-'' # show_nat (nat (- i)) else show_nat (nat i))"

text \<open>
  The digits part of Python's \<open>int(text)\<close>: at least one digit, single underscores between
  digits; \<open>prev\<close> says whether the last character was a digit.
\<close>

fun read_digits :: "nat \<Rightarrow> bool \<Rightarrow> string \<Rightarrow> nat option" where
  "read_digits acc prev [] = (if prev then Some acc else None)"
| "read_digits acc prev (c # cs) =
     (case char_digit c of
        Some d \<Rightarrow> read_digits (10 * acc + d) True cs
      | None \<Rightarrow> if c = CHR ''_'' \<and> prev then read_digits acc False cs else None)"

lemma char_digit_digit_char [simp]: "n < 10 \<Longrightarrow> char_digit (digit_char n) = Some n"
  by (simp add: char_digit_def digit_char_def of_char_of)

lemma read_digits_snoc_digit:
  "d < 10 \<Longrightarrow> read_digits acc prev xs = Some a \<Longrightarrow>
     read_digits acc prev (xs @ [digit_char d]) = Some (10 * a + d)"
  by (induction acc prev xs rule: read_digits.induct) (auto split: option.splits if_splits)

lemma show_nat_not_Nil [simp]: "show_nat n \<noteq> []"
  by (subst show_nat.simps) simp

lemma read_digits_show_nat: "read_digits 0 False (show_nat n) = Some n"
proof (induction n rule: show_nat.induct)
  case (1 n)
  show ?case
  proof (cases "n < 10")
    case True
    then show ?thesis by (subst show_nat.simps) simp
  next
    case False
    with 1 have IH: "read_digits 0 False (show_nat (n div 10)) = Some (n div 10)" by simp
    have "read_digits 0 False (show_nat n) = read_digits 0 False (show_nat (n div 10) @ [digit_char (n mod 10)])"
      using False by (subst show_nat.simps) simp
    also have "\<dots> = Some (10 * (n div 10) + n mod 10)"
      by (rule read_digits_snoc_digit [OF _ IH]) simp
    finally show ?thesis by simp
  qed
qed

lemma digit_char_range: "n < 10 \<Longrightarrow> 48 \<le> (of_char (digit_char n) :: nat) \<and> (of_char (digit_char n) :: nat) \<le> 57"
  by (simp add: digit_char_def of_char_of)

lemma show_nat_chars: "c \<in> set (show_nat n) \<Longrightarrow> 48 \<le> (of_char c :: nat) \<and> (of_char c :: nat) \<le> 57"
proof (induction n rule: show_nat.induct)
  case (1 n)
  then show ?case
    using digit_char_range [of n] digit_char_range [of "n mod 10"]
    by (subst (asm) (2) show_nat.simps) (auto split: if_splits)
qed

end
