(* ===== verification/Errors.thy ===== *)
theory Errors imports Prelude begin

text \<open>
  The exceptions that travel through the program (\<open>pyleaner/errors.py\<close> and the RPC errors of
  \<open>pyleaner/rpc_session.py\<close>), one constructor per class, and the classification of a JSON-RPC
  error object. A raising computation returns \<open>exn + 'a\<close>, with \<open>Inl\<close> for the exception.
\<close>

section \<open>Exception classes\<close>

datatype exn =
    ServiceUnavailable
  | ToxicTaskError string string string \<comment> \<open>task type, reason, input text\<close>
  | LeanTaskTimeout string
  | LeanTimeoutExhausted string
  | RpcError "value"
  | RpcNeedsReconnectError "value"
  | WorkerRestartedError "value"
  | RpcContentModifiedError "value"
  | RpcRequestCancelledError "value"
  | RpcTimeoutError string real \<comment> \<open>method, timeout\<close>
  | TimeoutError string
  | RuntimeError string
  | ValueError string
  | KeyError string
  | TypeError string
  | AttributeError string
  | BrokenPipeError string
  | ConnectionResetError string
  | OSError int string \<comment> \<open>errno, text\<close>
  | EOFError string
  | QueueEmpty \<comment> \<open>\<open>queue.Empty\<close>: a \<open>get\<close> that timed out\<close>
  | RequestError "value" \<comment> \<open>\<open>Exception(f"Request error: {...}")\<close>\<close>

text \<open>
  \<open>LeanTaskTimeout\<close> and \<open>LeanTimeoutExhausted\<close> derive from \<open>BaseException\<close>: they cross every
  \<open>except Exception\<close> handler. All other classes derive from \<open>Exception\<close>.
\<close>

fun is_Exception :: "exn \<Rightarrow> bool" where
  "is_Exception (LeanTaskTimeout m) = False"
| "is_Exception (LeanTimeoutExhausted m) = False"
| "is_Exception e = True"

section \<open>Python operations on JSON values\<close>

text \<open>\<open>v.get(k, default)\<close>: only dictionaries have the method.\<close>

definition py_get :: "value \<Rightarrow> string \<Rightarrow> value \<Rightarrow> exn + value" where
  "py_get v k dflt =
     (case v of
        JObj d \<Rightarrow> Inr (case dict_get d k of Some x \<Rightarrow> x | None \<Rightarrow> dflt)
      | _ \<Rightarrow> Inl (AttributeError ''get''))"

text \<open>\<open>p in v\<close> for a string \<open>p\<close>.\<close>

definition py_in :: "string \<Rightarrow> value \<Rightarrow> exn + bool" where
  "py_in p v =
     (case v of
        JStr s \<Rightarrow> Inr (substring p s)
      | JArr xs \<Rightarrow> Inr (JStr p \<in> set xs)
      | JObj d \<Rightarrow> Inr (p \<in> set (dict_keys d))
      | _ \<Rightarrow> Inl (TypeError ''argument is not iterable''))"

text \<open>\<open>v == n\<close> for an integer \<open>n\<close>: booleans and floats compare by value.\<close>

definition py_eq_int :: "value \<Rightarrow> int \<Rightarrow> bool" where
  "py_eq_int v n =
     (case v of
        JInt m \<Rightarrow> m = n
      | JReal r \<Rightarrow> r = of_int n
      | JBool b \<Rightarrow> (if b then 1 else 0) = n
      | _ \<Rightarrow> False)"

lemma py_get_JObj [simp]:
  "py_get (JObj d) k x = Inr (case dict_get d k of Some y \<Rightarrow> y | None \<Rightarrow> x)"
  by (simp add: py_get_def)

lemma py_get_other [simp]:
  "py_get JNull k x = Inl (AttributeError ''get'')"
  "py_get (JBool b) k x = Inl (AttributeError ''get'')"
  "py_get (JInt i) k x = Inl (AttributeError ''get'')"
  "py_get (JReal r) k x = Inl (AttributeError ''get'')"
  "py_get (JStr s) k x = Inl (AttributeError ''get'')"
  "py_get (JArr xs) k x = Inl (AttributeError ''get'')"
  by (simp_all add: py_get_def)

lemma py_eq_int_simps [simp]:
  "py_eq_int JNull n = False" "py_eq_int (JInt m) n = (m = n)"
  "py_eq_int (JStr s) n = False" "py_eq_int (JArr xs) n = False" "py_eq_int (JObj d) n = False"
  by (simp_all add: py_eq_int_def)

lemma py_in_JStr [simp]: "py_in p (JStr s) = Inr (substring p s)"
  by (simp add: py_in_def)

section \<open>Classification of JSON-RPC errors\<close>

definition classify_rpc_error :: "value \<Rightarrow> exn + exn" where
  "classify_rpc_error error =
     (case py_get error ''code'' JNull of Inl e \<Rightarrow> Inl e
      | Inr code \<Rightarrow>
     (case py_get error ''message'' (JStr '''') of Inl e \<Rightarrow> Inl e
      | Inr message \<Rightarrow>
        if py_eq_int code (- 32900) then Inr (RpcNeedsReconnectError error)
        else (case py_in ''Outdated RPC session'' message of Inl e \<Rightarrow> Inl e
          | Inr outdated \<Rightarrow>
            if outdated then Inr (RpcNeedsReconnectError error)
            else if py_eq_int code (- 32901) \<or> py_eq_int code (- 32902)
              then Inr (WorkerRestartedError error)
            else if py_eq_int code (- 32801) then Inr (RpcContentModifiedError error)
            else if py_eq_int code (- 32800) then Inr (RpcRequestCancelledError error)
            else Inr (RpcError error))))"

text \<open>The exception that \<open>raise classify_rpc_error(...)\<close> leaves behind in either case.\<close>

definition raised_by_rpc_error :: "value \<Rightarrow> exn" where
  "raised_by_rpc_error error = (case classify_rpc_error error of Inl e \<Rightarrow> e | Inr e \<Rightarrow> e)"

text \<open>The session-lifecycle errors: those \<open>RpcSession.call\<close> answers with a reconnect.\<close>

fun is_session_error :: "exn \<Rightarrow> bool" where
  "is_session_error (RpcNeedsReconnectError v) = True"
| "is_session_error (WorkerRestartedError v) = True"
| "is_session_error e = False"

definition rpc_error_obj :: "int \<Rightarrow> string \<Rightarrow> value" where
  "rpc_error_obj c m = JObj [(''code'', JInt c), (''message'', JStr m)]"

lemma classify_obj:
  "classify_rpc_error (rpc_error_obj c m) =
     Inr ((if c = - 32900 \<or> substring ''Outdated RPC session'' m then RpcNeedsReconnectError
           else if c = - 32901 \<or> c = - 32902 then WorkerRestartedError
           else if c = - 32801 then RpcContentModifiedError
           else if c = - 32800 then RpcRequestCancelledError
           else RpcError) (rpc_error_obj c m))"
  by (simp add: classify_rpc_error_def rpc_error_obj_def)

text \<open>Reconnection is triggered by exactly the documented conditions.\<close>

theorem session_errors_exact:
  "is_session_error (raised_by_rpc_error (rpc_error_obj c m)) \<longleftrightarrow>
     c \<in> {- 32900, - 32901, - 32902} \<or> substring ''Outdated RPC session'' m"
  by (auto simp: raised_by_rpc_error_def classify_obj)

lemma raised_by_rpc_error_Exception: "is_Exception (raised_by_rpc_error v)"
  unfolding raised_by_rpc_error_def classify_rpc_error_def py_get_def py_in_def
  by (simp split: json.splits option.splits if_splits)

end
