(* ===== verification/Events.thy ===== *)
theory Events imports Errors begin

text \<open>
  What the threads of the program share: task envelopes and their answers, the lifecycle events of
  \<open>pyleaner/observability.py\<close>, and the command queue through which the owning process informs the
  watchdog's monitor (\<open>task_started\<close>, \<open>task_finished\<close>, \<open>flag_fatal\<close> of \<open>pyleaner/watchdog.py\<close>).
  Queues other than a worker's own are identified by numbers; what is put on them is logged in order.
\<close>

section \<open>Tasks and answers\<close>

type_synonym kwargs = "(string, value) dict"

record task =
  t_type :: string
  t_result_q :: "nat option"
  t_kwargs :: kwargs
  t_request_id :: "string option"
  t_task_id :: "string option"
  t_context :: "(string, value) dict"
  t_culprit :: bool
  t_culprit_reason :: "string option"

datatype response =
    Ok "value"
  | Failed exn bool "string option" \<comment> \<open>error, \<open>toxic\<close>, \<open>toxic_reason\<close>\<close>

section \<open>Events\<close>

record event =
  ev_kind :: string
  ev_request_id :: "string option"
  ev_task_id :: "string option"
  ev_task_type :: "string option"
  ev_worker_id :: "int option"
  ev_document_uri :: "string option"
  ev_source_fp :: "string option"
  ev_environment_fp :: "string option"
  ev_runtime_fp :: "string option"
  ev_outcome :: "string option"
  ev_details :: "(string, value) dict"

text \<open>The event with all optional fields at their defaults.\<close>

definition new_event :: "string \<Rightarrow> (string, value) dict \<Rightarrow> event" where
  "new_event kind details =
     \<lparr>ev_kind = kind, ev_request_id = None, ev_task_id = None, ev_task_type = None, ev_worker_id = None,
      ev_document_uri = None, ev_source_fp = None, ev_environment_fp = None, ev_runtime_fp = None,
      ev_outcome = None, ev_details = details\<rparr>"

text \<open>
  \<open>emit_safely\<close> for a sink that may change the state \<open>'s\<close> it closes over and may raise. Only what
  derives from \<open>Exception\<close> is contained.
\<close>

type_synonym 's sink = "event \<Rightarrow> 's \<Rightarrow> 's \<times> (exn + unit)"

definition emit_safely :: "'s sink option \<Rightarrow> event \<Rightarrow> 's \<Rightarrow> 's \<times> (exn + event option)" where
  "emit_safely snk ev s =
     (case snk of
        None \<Rightarrow> (s, Inr None)
      | Some f \<Rightarrow>
          (case f ev s of
             (s', Inr _) \<Rightarrow> (s', Inr (Some ev))
           | (s', Inl e) \<Rightarrow> if is_Exception e then (s', Inr (Some ev)) else (s', Inl e)))"

text \<open>What the client computes for the fields of an event, and \<open>str(e)\<close>: hashes and texts.\<close>

record observer =
  fp_text :: "string \<Rightarrow> string"
  fp_value :: "value \<Rightarrow> string"
  env_fp :: "kwargs \<Rightarrow> string option"
  runtime_fp :: "string option"
  str_of :: "exn \<Rightarrow> string"

definition source_fingerprint :: "observer \<Rightarrow> kwargs \<Rightarrow> string option" where
  "source_fingerprint obs kw =
     (case dict_get kw ''text'' of Some (JStr t) \<Rightarrow> Some (fp_text obs t) | _ \<Rightarrow> None)"

definition json_opt :: "string option \<Rightarrow> value" where
  "json_opt s = (case s of None \<Rightarrow> JNull | Some t \<Rightarrow> JStr t)"

fun exn_name :: "exn \<Rightarrow> string" where
  "exn_name ServiceUnavailable = ''ServiceUnavailable''"
| "exn_name (ToxicTaskError a b c) = ''ToxicTaskError''"
| "exn_name (LeanTaskTimeout m) = ''LeanTaskTimeout''"
| "exn_name (LeanTimeoutExhausted m) = ''LeanTimeoutExhausted''"
| "exn_name (RpcError v) = ''RpcError''"
| "exn_name (RpcNeedsReconnectError v) = ''RpcNeedsReconnectError''"
| "exn_name (WorkerRestartedError v) = ''WorkerRestartedError''"
| "exn_name (RpcContentModifiedError v) = ''RpcContentModifiedError''"
| "exn_name (RpcRequestCancelledError v) = ''RpcRequestCancelledError''"
| "exn_name (RpcTimeoutError m t) = ''RpcTimeoutError''"
| "exn_name (TimeoutError m) = ''TimeoutError''"
| "exn_name (RuntimeError m) = ''RuntimeError''"
| "exn_name (ValueError m) = ''ValueError''"
| "exn_name (KeyError m) = ''KeyError''"
| "exn_name (TypeError m) = ''TypeError''"
| "exn_name (AttributeError m) = ''AttributeError''"
| "exn_name (BrokenPipeError m) = ''BrokenPipeError''"
| "exn_name (ConnectionResetError m) = ''ConnectionResetError''"
| "exn_name (OSError n m) = ''OSError''"
| "exn_name (EOFError m) = ''EOFError''"
| "exn_name QueueEmpty = ''Empty''"
| "exn_name (RequestError v) = ''Exception''"

section \<open>The shared environment\<close>

text \<open>What guards one worker: the process, its transient scope and cgroup, and the OOM kills seen so far.\<close>

record guard =
  g_pid :: int
  g_unit :: string
  g_cgroup :: string
  g_oom :: int

datatype command =
    CStop
  | CPause
  | CRoot int nat \<comment> \<open>pid, generation\<close>
  | CGuards nat "(int, guard) dict"
  | CTaskStarted nat int real
  | CTaskFinished nat int
  | CFatal nat string

record io =
  sink_on :: bool
  events :: "event list" \<comment> \<open>delivered to the sink\<close>
  answers :: "(nat \<times> response) list" \<comment> \<open>put on result queues\<close>
  generation :: nat
  monitor_up :: bool \<comment> \<open>the command queue and the monitor process are there\<close>
  commands :: "command list" \<comment> \<open>put on the command queue\<close>

definition record_event :: "io sink" where
  "record_event ev w = (w\<lparr>events := events w @ [ev]\<rparr>, Inr ())"

definition emit :: "event \<Rightarrow> io \<Rightarrow> io" where
  "emit ev w = fst (emit_safely (if sink_on w then Some record_event else None) ev w)"

text \<open>\<open>rq.put\<close>, guarded by \<open>rq is not None\<close> as everywhere but in one place.\<close>

definition answer :: "nat option \<Rightarrow> response \<Rightarrow> io \<Rightarrow> io" where
  "answer rq r w = (case rq of None \<Rightarrow> w | Some q \<Rightarrow> w\<lparr>answers := answers w @ [(q, r)]\<rparr>)"

definition send_command :: "command \<Rightarrow> io \<Rightarrow> io" where
  "send_command c w = (if monitor_up w then w\<lparr>commands := commands w @ [c]\<rparr> else w)"

definition task_started :: "int \<Rightarrow> real \<Rightarrow> io \<Rightarrow> io \<times> nat" where
  "task_started wid t w = (send_command (CTaskStarted (generation w) wid t) w, generation w)"

definition task_finished :: "int \<Rightarrow> nat \<Rightarrow> io \<Rightarrow> io" where
  "task_finished wid gen w = send_command (CTaskFinished gen wid) w"

definition flag_fatal :: "string \<Rightarrow> io \<Rightarrow> io" where
  "flag_fatal reason w = send_command (CFatal (generation w) reason) w"

lemma emit_eq: "emit ev w = (if sink_on w then w\<lparr>events := events w @ [ev]\<rparr> else w)"
  by (simp add: emit_def emit_safely_def record_event_def)

lemma emit_frame [frame_simps]:
  "answers (emit ev w) = answers w" "generation (emit ev w) = generation w" "monitor_up (emit ev w) = monitor_up w"
  "commands (emit ev w) = commands w" "sink_on (emit ev w) = sink_on w"
  by (simp_all add: emit_eq)

lemma answer_frame [frame_simps]:
  "events (answer rq r w) = events w" "generation (answer rq r w) = generation w"
  "monitor_up (answer rq r w) = monitor_up w" "commands (answer rq r w) = commands w"
  "sink_on (answer rq r w) = sink_on w"
  "answers (answer rq r w) = answers w @ (case rq of None \<Rightarrow> [] | Some q \<Rightarrow> [(q, r)])"
  by (simp_all add: answer_def split: option.split)

lemma send_command_frame [frame_simps]:
  "answers (send_command c w) = answers w" "events (send_command c w) = events w"
  "generation (send_command c w) = generation w" "monitor_up (send_command c w) = monitor_up w"
  "sink_on (send_command c w) = sink_on w"
  "commands (send_command c w) = commands w @ (if monitor_up w then [c] else [])"
  by (simp_all add: send_command_def)

text \<open>
  An observer cannot interfere: whatever a sink does, emitting returns normally unless the sink itself
  raises one of the two \<open>BaseException\<close>s.
\<close>

lemma emit_safely_returns:
  assumes "\<forall>f s' e. snk = Some f \<longrightarrow> f ev s = (s', Inl e) \<longrightarrow> is_Exception e"
  shows "\<exists>s' r. emit_safely snk ev s = (s', Inr r)"
  using assms by (auto simp: emit_safely_def split: option.split prod.split sum.split)

section \<open>Counting answers\<close>

text \<open>The answers on one result queue.\<close>

definition answers_to :: "nat \<Rightarrow> io \<Rightarrow> response list" where
  "answers_to q w = map snd (filter (\<lambda>(p, r). p = q) (answers w))"

definition rq_answers :: "(nat option \<times> response) list \<Rightarrow> (nat \<times> response) list" where
  "rq_answers rs = List.map_filter (\<lambda>(rq, r). map_option (\<lambda>q. (q, r)) rq) rs"

lemma rq_answers_simps [simp]:
  "rq_answers [] = []"
  "rq_answers ((rq, r) # rs) = (case rq of None \<Rightarrow> [] | Some q \<Rightarrow> [(q, r)]) @ rq_answers rs"
  by (simp_all add: rq_answers_def List.map_filter_simps split: option.split)

end
