(* ===== verification/PyText.thy ===== *)
theory PyText imports Prelude begin

text \<open>
  The string methods the program uses on process tables, headers and sources: whitespace, \<open>split\<close>,
  \<open>splitlines\<close>, \<open>strip\<close>, \<open>int(text)\<close>, \<open>os.path.basename\<close>, \<open>lower\<close>. Characters are
  code points below 256.
\<close>

section \<open>Whitespace\<close>

text \<open>The code points below 256 for which \<open>str.isspace\<close> holds.\<close>

definition is_space :: "char \<Rightarrow> bool" where
  "is_space c = (let n = (of_char c :: nat) in
     (9 \<le> n \<and> n \<le> 13) \<or> (28 \<le> n \<and> n \<le> 32) \<or> n = 133 \<or> n = 160)"

definition py_strip :: "string \<Rightarrow> string" where
  "py_strip s = rev (dropWhile is_space (rev (dropWhile is_space s)))"

text \<open>\<open>s.split()\<close>: the maximal runs of characters that are not whitespace.\<close>

fun split_acc :: "string \<Rightarrow> string \<Rightarrow> string list" where
  "split_acc w [] = (if w = [] then [] else [rev w])"
| "split_acc w (c # cs) =
     (if is_space c then (if w = [] then split_acc [] cs else rev w # split_acc [] cs)
      else split_acc (c # w) cs)"

definition py_split :: "string \<Rightarrow> string list" where
  "py_split s = split_acc [] s"

text \<open>\<open>s.split(c)\<close> for one separator character: every piece, empty ones included.\<close>

fun split_on :: "char \<Rightarrow> string \<Rightarrow> string list" where
  "split_on c [] = [[]]"
| "split_on c (x # xs) =
     (if x = c then [] # split_on c xs
      else (case split_on c xs of [] \<Rightarrow> [[x]] | p # ps \<Rightarrow> (x # p) # ps))"

lemma split_on_not_Nil [simp]: "split_on c s \<noteq> []"
  by (cases s) (auto split: list.splits)

text \<open>\<open>splitlines\<close>: a carriage return followed by a line feed is one boundary.\<close>

definition is_line_break :: "char \<Rightarrow> bool" where
  "is_line_break c = (let n = (of_char c :: nat) in
     (10 \<le> n \<and> n \<le> 13) \<or> (28 \<le> n \<and> n \<le> 30) \<or> n = 133)"

fun lines_acc :: "string \<Rightarrow> string \<Rightarrow> string list" where
  "lines_acc w [] = (if w = [] then [] else [rev w])"
| "lines_acc w (c # cs) =
     (if of_char c = (13 :: nat) \<and> cs \<noteq> [] \<and> of_char (hd cs) = (10 :: nat) then rev w # lines_acc [] (tl cs)
      else if is_line_break c then rev w # lines_acc [] cs
      else lines_acc (c # w) cs)"

definition py_splitlines :: "string \<Rightarrow> string list" where
  "py_splitlines s = lines_acc [] s"

lemma split_acc_word:
  "\<forall>c \<in> set w. \<not> is_space c \<Longrightarrow> split_acc a (w @ s) = split_acc (rev w @ a) s"
  by (induction w arbitrary: a) auto

lemma py_split_word: "w \<noteq> [] \<Longrightarrow> \<forall>c \<in> set w. \<not> is_space c \<Longrightarrow> py_split w = [w]"
  using split_acc_word [of w "[]" "[]"] by (simp add: py_split_def)

lemma py_split_word_space:
  "w \<noteq> [] \<Longrightarrow> \<forall>c \<in> set w. \<not> is_space c \<Longrightarrow> is_space c \<Longrightarrow> py_split (w @ c # s) = w # py_split s"
  using split_acc_word [of w "[]" "c # s"] by (simp add: py_split_def)

definition is_word :: "string \<Rightarrow> bool" where
  "is_word w \<longleftrightarrow> w \<noteq> [] \<and> list_all (\<lambda>c. \<not> is_space c) w"

lemma split_acc_no_space:
  "list_all (\<lambda>c. \<not> is_space c) a \<Longrightarrow> list_all is_word (split_acc a s)"
proof (induction s arbitrary: a)
  case Nil
  then show ?case by (simp add: is_word_def list_all_rev)
next
  case (Cons c cs)
  then show ?case by (cases "is_space c"; cases "a = []") (simp_all add: is_word_def list_all_rev)
qed

lemma py_split_words: "w \<in> set (py_split s) \<Longrightarrow> w \<noteq> [] \<and> (\<forall>c \<in> set w. \<not> is_space c)"
  using split_acc_no_space [of "[]" s] by (auto simp: py_split_def is_word_def list_all_iff)

section \<open>Integers in text\<close>

text \<open>\<open>int(text)\<close>: \<open>None\<close> is \<open>ValueError\<close>.\<close>

definition py_int :: "string \<Rightarrow> int option" where
  "py_int text =
     (case py_strip text of
        [] \<Rightarrow> None
      | c # cs \<Rightarrow>
          if c = CHR ''-'' then map_option (\<lambda>n. - int n) (read_digits 0 False cs)
          else if c = CHR ''+'' then map_option int (read_digits 0 False cs)
          else map_option int (read_digits 0 False (c # cs)))"

lemma show_nat_no_space: "c \<in> set (show_nat n) \<Longrightarrow> \<not> is_space c"
  using show_nat_chars [of c n] by (auto simp: is_space_def Let_def)

lemma py_strip_id: "\<forall>c \<in> set s. \<not> is_space c \<Longrightarrow> py_strip s = s"
proof -
  assume a: "\<forall>c \<in> set s. \<not> is_space c"
  then have "dropWhile is_space s = s" by (cases s) auto
  moreover from a have "dropWhile is_space (rev s) = rev s" by (cases "rev s") (auto simp: rev_eq_Cons_iff)
  ultimately show ?thesis by (simp add: py_strip_def)
qed

lemma show_nat_head: "show_nat n = c # cs \<Longrightarrow> c \<noteq> CHR ''-'' \<and> c \<noteq> CHR ''+''"
  using show_nat_chars [of c n] by auto

lemma py_int_show_nat: "py_int (show_nat n) = Some (int n)"
proof -
  have "py_strip (show_nat n) = show_nat n"
    by (rule py_strip_id) (simp add: show_nat_no_space)
  moreover obtain c cs where s: "show_nat n = c # cs" by (cases "show_nat n") auto
  ultimately show ?thesis
    using show_nat_head [OF s] read_digits_show_nat [of n] by (simp add: py_int_def)
qed

lemma py_int_show_int: "py_int (show_int i) = Some i"
proof (cases "i < 0")
  case True
  have "py_strip (CHR ''-'' # show_nat (nat (- i))) = CHR ''-'' # show_nat (nat (- i))"
    by (rule py_strip_id) (simp add: show_nat_no_space, simp add: is_space_def)
  with True show ?thesis
    by (simp add: show_int_def py_int_def read_digits_show_nat)
next
  case False
  then show ?thesis by (simp add: show_int_def py_int_show_nat)
qed

section \<open>Case and paths\<close>

definition lower_char :: "char \<Rightarrow> char" where
  "lower_char c = (let n = (of_char c :: nat) in
     if (65 \<le> n \<and> n \<le> 90) \<or> (192 \<le> n \<and> n \<le> 222 \<and> n \<noteq> 215) then char_of (n + 32) else c)"

definition py_lower :: "string \<Rightarrow> string" where
  "py_lower s = map lower_char s"

definition basename :: "string \<Rightarrow> string" where
  "basename p = rev (takeWhile (\<lambda>c. c \<noteq> CHR ''/'') (rev p))"

definition is_ascii_digits :: "string \<Rightarrow> bool" where
  "is_ascii_digits s \<longleftrightarrow> s \<noteq> [] \<and> (\<forall>c \<in> set s. char_digit c \<noteq> None)"

end
