(* ===== verification/Client.thy ===== *)
theory Client imports Errors PyText begin

text \<open>
  The request layer of \<open>LspClient\<close> (\<open>pyleaner/client.py\<close>): message identifiers, the table of
  pending requests, \<open>request\<close>, \<open>notify\<close>, and the dispatch of incoming messages to response
  queues.

  The server is the environment. \<open>waits\<close> says how each blocking wait for a response ends
  (\<open>None\<close>: the timeout expires), \<open>faults\<close> whether each write to the server's stdin raises; an
  exhausted list means a wait that times out and a write that succeeds. Theorems quantify over both,
  that is, over every behaviour of the server.
\<close>

section \<open>State\<close>

datatype reply =
    Response "value"
  | Poisoned \<comment> \<open>a \<open>ServiceUnavailable\<close> put by the watchdog's teardown\<close>

text \<open>The messages the client writes, before they are rendered as JSON.\<close>

datatype message =
    Request int string "value"
  | RpcCall int string "value" "value" string "value" \<comment> \<open>id, uri, position, session id, method, params\<close>
  | Notification string "value"
  | KeepAlive string "value" \<comment> \<open>uri, session id\<close>

record client =
  process_up :: bool \<comment> \<open>the process and its stdin are there\<close>
  message_id :: int
  pending_requests :: "(int, nat) dict" \<comment> \<open>message id to response queue\<close>
  next_queue :: nat
  response_queues :: "nat \<Rightarrow> reply fifo"
  sent :: "message list"
  waits :: "reply option list"
  faults :: "exn option list"

definition fresh_queue :: "client \<Rightarrow> client \<times> nat" where
  "fresh_queue c =
     (c\<lparr>next_queue := Suc (next_queue c), response_queues := (response_queues c)(next_queue c := [])\<rparr>,
      next_queue c)"

definition next_id :: "client \<Rightarrow> client \<times> int" where
  "next_id c = (c\<lparr>message_id := message_id c + 1\<rparr>, message_id c + 1)"

definition register_pending :: "int \<Rightarrow> nat \<Rightarrow> client \<Rightarrow> client" where
  "register_pending i q c = c\<lparr>pending_requests := dict_set i q (pending_requests c)\<rparr>"

definition drop_pending :: "int \<Rightarrow> client \<Rightarrow> client" where
  "drop_pending i c = c\<lparr>pending_requests := dict_pop i (pending_requests c)\<rparr>"

definition send_message :: "message \<Rightarrow> client \<Rightarrow> client \<times> (exn + unit)" where
  "send_message m c =
     (if \<not> process_up c then (c, Inl (RuntimeError ''Process or stdin is not available''))
      else (case faults c of
              Some e # fs \<Rightarrow> (c\<lparr>faults := fs\<rparr>, Inl e)
            | None # fs \<Rightarrow> (c\<lparr>faults := fs, sent := sent c @ [m]\<rparr>, Inr ())
            | [] \<Rightarrow> (c\<lparr>sent := sent c @ [m]\<rparr>, Inr ())))"

text \<open>A wait on a response queue: how it ends is the environment's choice.\<close>

definition await_reply :: "client \<Rightarrow> client \<times> reply option" where
  "await_reply c = (case waits c of [] \<Rightarrow> (c, None) | r # rs \<Rightarrow> (c\<lparr>waits := rs\<rparr>, r))"

section \<open>Requests and notifications\<close>

text \<open>\<open>response["error"]\<close>, \<open>response.get("result")\<close> on a response dictionary.\<close>

definition response_error :: "value \<Rightarrow> value option" where
  "response_error r = (case r of JObj d \<Rightarrow> dict_get d ''error'' | _ \<Rightarrow> None)"

definition response_result :: "value \<Rightarrow> value" where
  "response_result r = (case r of JObj d \<Rightarrow> (case dict_get d ''result'' of Some v \<Rightarrow> v | None \<Rightarrow> JNull) | _ \<Rightarrow> JNull)"

text \<open>
  \<open>request\<close>: the write happens before the \<open>try\<close>, so a write that raises leaves the entry in the
  table of pending requests.
\<close>

definition request :: "string \<Rightarrow> value \<Rightarrow> int \<Rightarrow> client \<Rightarrow> client \<times> (exn + value)" where
  "request meth params msg_id c =
     (let (c1, q) = fresh_queue c;
          (c2, r) = send_message (Request msg_id meth params) (register_pending msg_id q c1)
      in case r of
           Inl e \<Rightarrow> (c2, Inl e)
         | Inr _ \<Rightarrow>
             (let (c3, w) = await_reply c2
              in (drop_pending msg_id c3,
                  case w of
                    None \<Rightarrow> Inl (TimeoutError meth)
                  | Some Poisoned \<Rightarrow> Inl ServiceUnavailable
                  | Some (Response v) \<Rightarrow>
                      (case response_error v of
                         Some e \<Rightarrow> Inl (RequestError e)
                       | None \<Rightarrow> Inr (response_result v)))))"

definition notify :: "string \<Rightarrow> value \<Rightarrow> client \<Rightarrow> client \<times> (exn + unit)" where
  "notify meth params c = send_message (Notification meth params) c"

definition initialize_client :: "string \<Rightarrow> client \<Rightarrow> client \<times> (exn + value)" where
  "initialize_client root_uri c =
     request ''initialize''
       (JObj [(''processId'', JNull), (''rootUri'', JStr root_uri), (''capabilities'', JObj []),
              (''initializationOptions'', JObj [(''editDelay'', JInt 200), (''hasWidgets'', JBool True)])])
       0 c"

definition initialized_client :: "client \<Rightarrow> client \<times> (exn + unit)" where
  "initialized_client c = notify ''initialized'' (JObj []) c"

definition shutdown_client :: "client \<Rightarrow> client \<times> (exn + value)" where
  "shutdown_client c = request ''shutdown'' (JObj []) 0 c"

section \<open>Incoming messages\<close>

text \<open>The dictionary key a JSON value is looked up as: numbers are equal across their types.\<close>

definition int_key :: "value \<Rightarrow> exn + int option" where
  "int_key v =
     (case v of
        JInt i \<Rightarrow> Inr (Some i)
      | JBool b \<Rightarrow> Inr (Some (if b then 1 else 0))
      | JReal r \<Rightarrow> Inr (if of_int \<lfloor>r\<rfloor> = r then Some \<lfloor>r\<rfloor> else None)
      | JNull \<Rightarrow> Inr None
      | JStr s \<Rightarrow> Inr None
      | JArr xs \<Rightarrow> Inl (TypeError ''unhashable type'')
      | JObj d \<Rightarrow> Inl (TypeError ''unhashable type''))"

definition deliver_response :: "value \<Rightarrow> value \<Rightarrow> client \<Rightarrow> client \<times> (exn + unit)" where
  "deliver_response msg_id data c =
     (case int_key msg_id of
        Inl e \<Rightarrow> (c, Inl e)
      | Inr k \<Rightarrow>
          (case Option.bind k (dict_get (pending_requests c)) of
             None \<Rightarrow> (c, Inr ())
           | Some q \<Rightarrow>
               (c\<lparr>response_queues := (response_queues c)(q := q_put (Response data) (response_queues c q))\<rparr>,
                Inr ())))"

text \<open>
  \<open>_handle_message\<close> on a parsed message. The second component says what else is to be done: a
  notification for a registered handler, with its parameters.
\<close>

definition handled_methods :: "string list" where
  "handled_methods = [''$/lean/fileProgress'', ''textDocument/publishDiagnostics'']"

definition handle_message :: "value \<Rightarrow> client \<Rightarrow> client \<times> (exn + (string \<times> value) option)" where
  "handle_message data c =
     (case py_in ''id'' data of Inl e \<Rightarrow> (c, Inl e)
      | Inr has_id \<Rightarrow>
     (case py_in ''method'' data of Inl e \<Rightarrow> (c, Inl e)
      | Inr has_method \<Rightarrow>
     (case data of
        JObj d \<Rightarrow>
          if has_id \<and> \<not> has_method
          then (case deliver_response (the (dict_get d ''id'')) data c of
                  (c', Inl e) \<Rightarrow> (c', Inl e)
                | (c', Inr _) \<Rightarrow> (c', Inr None))
          else if has_id then (c, Inr None)
          else if has_method
          then (case dict_get d ''method'' of
                  Some (JStr m) \<Rightarrow>
                    if m \<in> set handled_methods
                    then (c, Inr (Some (m, case dict_get d ''params'' of Some p \<Rightarrow> p | None \<Rightarrow> JObj [])))
                    else (c, Inr None)
                | Some (JArr xs) \<Rightarrow> (c, Inl (TypeError ''unhashable type''))
                | Some (JObj x) \<Rightarrow> (c, Inl (TypeError ''unhashable type''))
                | _ \<Rightarrow> (c, Inr None))
          else (c, Inr None)
      | _ \<Rightarrow> if has_id \<or> has_method then (c, Inl (TypeError ''indices must be integers'')) else (c, Inr None))))"

section \<open>Frames\<close>

lemma send_message_frame [frame_simps]:
  "pending_requests (fst (send_message m c)) = pending_requests c"
  "message_id (fst (send_message m c)) = message_id c"
  "next_queue (fst (send_message m c)) = next_queue c"
  "response_queues (fst (send_message m c)) = response_queues c"
  "process_up (fst (send_message m c)) = process_up c"
  by (simp_all add: send_message_def split: list.splits option.splits)

lemma await_reply_frame [frame_simps]:
  "pending_requests (fst (await_reply c)) = pending_requests c"
  "message_id (fst (await_reply c)) = message_id c"
  "sent (fst (await_reply c)) = sent c"
  "process_up (fst (await_reply c)) = process_up c"
  "faults (fst (await_reply c)) = faults c"
  by (simp_all add: await_reply_def split: list.splits)

lemma fresh_queue_frame [frame_simps]:
  "pending_requests (fst (fresh_queue c)) = pending_requests c"
  "message_id (fst (fresh_queue c)) = message_id c"
  "sent (fst (fresh_queue c)) = sent c" "faults (fst (fresh_queue c)) = faults c"
  "waits (fst (fresh_queue c)) = waits c" "process_up (fst (fresh_queue c)) = process_up c"
  "snd (fresh_queue c) = next_queue c"
  by (simp_all add: fresh_queue_def)

lemma pending_frame [frame_simps]:
  "pending_requests (register_pending i q c) = dict_set i q (pending_requests c)"
  "pending_requests (drop_pending i c) = dict_pop i (pending_requests c)"
  "sent (register_pending i q c) = sent c" "sent (drop_pending i c) = sent c"
  "message_id (register_pending i q c) = message_id c" "message_id (drop_pending i c) = message_id c"
  "process_up (register_pending i q c) = process_up c" "process_up (drop_pending i c) = process_up c"
  "faults (register_pending i q c) = faults c" "faults (drop_pending i c) = faults c"
  by (simp_all add: register_pending_def drop_pending_def)

lemma send_message_sent:
  "sent (fst (send_message m c)) = sent c @ (if snd (send_message m c) = Inr () then [m] else [])"
  by (simp add: send_message_def split: list.splits option.splits)

text \<open>\<open>request\<close> in one equation: what is pending, what was written, and the identifier counter.\<close>

lemma request_effect:
  assumes "request meth params i c = (c', r)"
  defines "ok \<equiv> snd (send_message (Request i meth params)
                    (register_pending i (next_queue c) (fst (fresh_queue c)))) = Inr ()"
  shows "pending_requests c' = (if ok then dict_pop i (dict_set i (next_queue c) (pending_requests c))
                                else dict_set i (next_queue c) (pending_requests c))"
    and "sent c' = sent c @ (if ok then [Request i meth params] else [])"
    and "message_id c' = message_id c"
    and "process_up c' = process_up c"
proof -
  let ?c1 = "register_pending i (next_queue c) (fst (fresh_queue c))"
  obtain c2 s where s: "send_message (Request i meth params) ?c1 = (c2, s)" by fastforce
  then have c2: "pending_requests c2 = dict_set i (next_queue c) (pending_requests c)"
    "sent c2 = sent c @ (if s = Inr () then [Request i meth params] else [])"
    "message_id c2 = message_id c" "process_up c2 = process_up c"
    using send_message_frame [of "Request i meth params" ?c1] send_message_sent [of "Request i meth params" ?c1]
    by (simp_all add: frame_simps)
  obtain c3 w where w: "await_reply c2 = (c3, w)" by fastforce
  then have c3: "pending_requests c3 = pending_requests c2" "sent c3 = sent c2"
    "message_id c3 = message_id c2" "process_up c3 = process_up c2"
    using await_reply_frame [of c2] by simp_all
  have f: "fresh_queue c = (fst (fresh_queue c), next_queue c)" by (simp add: fresh_queue_def)
  have c': "c' = (if ok then drop_pending i c3 else c2)"
  proof (cases s)
    case (Inl e)
    then have "\<not> ok" using s by (simp add: ok_def)
    moreover have "c' = c2" using assms(1) s Inl f
      by (simp add: request_def Let_def split: prod.splits)
    ultimately show ?thesis by simp
  next
    case (Inr u)
    then have "ok" using s by (simp add: ok_def)
    moreover have "c' = drop_pending i c3" using assms(1) s w Inr f
      by (simp add: request_def Let_def split: prod.splits)
    ultimately show ?thesis by simp
  qed
  have "ok \<longleftrightarrow> s = Inr ()" using s by (simp add: ok_def)
  with c' c2 c3 show
    "pending_requests c' = (if ok then dict_pop i (dict_set i (next_queue c) (pending_requests c))
                                else dict_set i (next_queue c) (pending_requests c))"
    "sent c' = sent c @ (if ok then [Request i meth params] else [])"
    "message_id c' = message_id c" "process_up c' = process_up c"
    by (simp_all add: frame_simps)
qed

end
