(* ===== verification/Tunables.thy ===== *)
theory Tunables imports Complex_Main begin

text \<open>
  The time constants of \<open>pyleaner/watchdog.py\<close>, in seconds. Python floats are idealised as
  real numbers. Every timing argument of the other theories refers to these names.
\<close>

definition WEDGE_DEADLINE :: real where "WEDGE_DEADLINE = 120"

definition WATCHDOG_POLL_INTERVAL :: real where "WATCHDOG_POLL_INTERVAL = 20"

definition MEMORY_POLL_INTERVAL :: real where "MEMORY_POLL_INTERVAL = 1"

definition WORKER_REPLACEMENT_GRACE :: real where "WORKER_REPLACEMENT_GRACE = 3"

definition RPC_RESPONSE_TIMEOUT :: real where
  "RPC_RESPONSE_TIMEOUT = WEDGE_DEADLINE + WATCHDOG_POLL_INTERVAL + 20"

definition RESILIENT_RESPONSE_TIMEOUT :: real where
  "RESILIENT_RESPONSE_TIMEOUT = RPC_RESPONSE_TIMEOUT + 40"

definition POISON_METHOD :: string where
  "POISON_METHOD = ''$/internal/service-unavailable''"

lemmas tunables =
  WEDGE_DEADLINE_def WATCHDOG_POLL_INTERVAL_def MEMORY_POLL_INTERVAL_def
  WORKER_REPLACEMENT_GRACE_def RPC_RESPONSE_TIMEOUT_def RESILIENT_RESPONSE_TIMEOUT_def

lemma timeout_order:
  "WEDGE_DEADLINE + WATCHDOG_POLL_INTERVAL < RPC_RESPONSE_TIMEOUT"
  "RPC_RESPONSE_TIMEOUT < RESILIENT_RESPONSE_TIMEOUT"
  by (simp_all add: tunables)

end
