(* ===== verification/RpcSession.thy ===== *)
theory RpcSession imports Client Tunables begin

text \<open>
  \<open>pyleaner/rpc_session.py\<close>: one Lean RPC session per worker, with reconnection and one retry,
  and the rounds of the keep-alive manager. A session works on the client's request layer, so its
  operations take and return both. \<open>json_loads\<close> is the parser applied to a textual result
  (\<open>None\<close> when it raises \<open>JSONDecodeError\<close>).
\<close>

section \<open>State\<close>

record session =
  s_uri :: string
  session_id :: "value option"
  connected :: bool
  has_manager :: bool
  registered :: bool \<comment> \<open>member of the keep-alive manager's set\<close>
  last_activity :: real

definition new_session :: "string \<Rightarrow> bool \<Rightarrow> real \<Rightarrow> session" where
  "new_session u mgr now =
     \<lparr>s_uri = u, session_id = None, connected = False, has_manager = mgr, registered = False,
      last_activity = now\<rparr>"

definition ka_register :: "session \<Rightarrow> session" where
  "ka_register s = (if has_manager s then s\<lparr>registered := True\<rparr> else s)"

definition ka_unregister :: "session \<Rightarrow> session" where
  "ka_unregister s = s\<lparr>registered := False\<rparr>"

definition invalidate :: "session \<Rightarrow> session" where
  "invalidate s = s\<lparr>session_id := None, connected := False\<rparr>"

section \<open>Connecting\<close>

text \<open>\<open>connect\<close>: a textual session id is converted with \<open>int\<close>, any other is taken as it is.\<close>

definition connect_session :: "session \<Rightarrow> client \<Rightarrow> client \<times> (exn + value)" where
  "connect_session s c =
     (let (c1, i) = next_id c;
          (c2, r) = request ''$/lean/rpc/connect'' (JObj [(''uri'', JStr (s_uri s))]) i c1
      in (c2,
          case r of
            Inl e \<Rightarrow> Inl e
          | Inr result \<Rightarrow>
              (case py_get result ''sessionId'' JNull of
                 Inl e \<Rightarrow> Inl e
               | Inr JNull \<Rightarrow> Inl (RuntimeError ''Failed to connect RPC'')
               | Inr (JStr t) \<Rightarrow> (case py_int t of Some n \<Rightarrow> Inr (JInt n) | None \<Rightarrow> Inl (ValueError t))
               | Inr v \<Rightarrow> Inr v)))"

definition establish :: "session \<Rightarrow> client \<Rightarrow> session \<times> client \<times> (exn + unit)" where
  "establish s c =
     (case connect_session s c of
        (c', Inl e) \<Rightarrow> (s, c', Inl e)
      | (c', Inr v) \<Rightarrow> (ka_register (s\<lparr>session_id := Some v, connected := True\<rparr>), c', Inr ()))"

definition ensure_connected :: "session \<Rightarrow> client \<Rightarrow> session \<times> client \<times> (exn + unit)" where
  "ensure_connected s c =
     (if connected s \<and> session_id s \<noteq> None then (s, c, Inr ()) else establish s c)"

definition reconnect :: "session \<Rightarrow> client \<Rightarrow> session \<times> client \<times> (exn + unit)" where
  "reconnect s c = establish (invalidate s) c"

section \<open>Calls\<close>

definition decode_result :: "(string \<Rightarrow> value option) \<Rightarrow> value \<Rightarrow> value" where
  "decode_result json_loads v =
     (case v of JStr t \<Rightarrow> (case json_loads t of Some x \<Rightarrow> x | None \<Rightarrow> v) | _ \<Rightarrow> v)"

text \<open>
  One RPC call on the current session id. Everything after the registration is inside \<open>try ... finally\<close>,
  so the pending entry goes away on every path.
\<close>

definition rpc_call_once ::
  "(string \<Rightarrow> value option) \<Rightarrow> string \<Rightarrow> value \<Rightarrow> value \<Rightarrow> real \<Rightarrow> real \<Rightarrow> session \<Rightarrow> client
     \<Rightarrow> session \<times> client \<times> (exn + value)" where
  "rpc_call_once json_loads meth params position timeout now s c =
     (case session_id s of
        None \<Rightarrow> (s, c, Inl (RuntimeError ''Session ID is not set''))
      | Some sid \<Rightarrow>
          (let (c1, i) = next_id c;
               (c2, q) = fresh_queue c1;
               (c3, w) = send_message (RpcCall i (s_uri s) position sid meth params) (register_pending i q c2);
               (c4, res) = (case w of
                   Inl e \<Rightarrow> (c3, Inl e)
                 | Inr _ \<Rightarrow>
                     (let (c5, r) = await_reply c3
                      in (c5,
                          case r of
                            None \<Rightarrow> Inl (RpcTimeoutError meth timeout)
                          | Some Poisoned \<Rightarrow> Inl ServiceUnavailable
                          | Some (Response v) \<Rightarrow>
                              (case response_error v of
                                 Some e \<Rightarrow> Inl (raised_by_rpc_error e)
                               | None \<Rightarrow> Inr (decode_result json_loads (response_result v))))))
           in (s\<lparr>last_activity := now\<rparr>, drop_pending i c4, res)))"

text \<open>\<open>call\<close>: a session-lifecycle error is answered by one reconnect and one retry.\<close>

definition rpc_call ::
  "(string \<Rightarrow> value option) \<Rightarrow> string \<Rightarrow> value \<Rightarrow> value option \<Rightarrow> real \<Rightarrow> bool \<Rightarrow> real \<Rightarrow> session \<Rightarrow> client
     \<Rightarrow> session \<times> client \<times> (exn + value)" where
  "rpc_call json_loads meth params position timeout retry_on_reconnect now s c =
     (case position of
        None \<Rightarrow> (s, c, Inl (ValueError ''position is required for RPC calls''))
      | Some pos \<Rightarrow>
     (case ensure_connected s c of
        (s1, c1, Inl e) \<Rightarrow> (s1, c1, Inl e)
      | (s1, c1, Inr _) \<Rightarrow>
     (case rpc_call_once json_loads meth params pos timeout now s1 c1 of
        (s2, c2, Inr v) \<Rightarrow> (s2, c2, Inr v)
      | (s2, c2, Inl e) \<Rightarrow>
          if is_session_error e
          then (if \<not> retry_on_reconnect then (invalidate s2, c2, Inl e)
                else (case reconnect (invalidate s2) c2 of
                        (s3, c3, Inl e') \<Rightarrow> (s3, c3, Inl e')
                      | (s3, c3, Inr _) \<Rightarrow> rpc_call_once json_loads meth params pos timeout now s3 c3))
          else (s2, c2, Inl e))))"

section \<open>Keep-alive\<close>

definition send_keep_alive :: "real \<Rightarrow> session \<Rightarrow> client \<Rightarrow> session \<times> client \<times> (exn + bool)" where
  "send_keep_alive now s c =
     (if \<not> connected s then (s, c, Inr False)
      else (case session_id s of
        None \<Rightarrow> (s, c, Inr False)
      | Some sid \<Rightarrow>
          (case send_message (KeepAlive (s_uri s) sid) c of
             (c', Inr _) \<Rightarrow> (s\<lparr>last_activity := now\<rparr>, c', Inr True)
           | (c', Inl e) \<Rightarrow>
               if is_Exception e then (invalidate s, c', Inr False) else (s, c', Inl e))))"

text \<open>One round of the manager over the sessions it has registered; others are skipped.\<close>

fun keep_alive_round :: "real \<Rightarrow> session list \<Rightarrow> client \<Rightarrow> session list \<times> client" where
  "keep_alive_round now [] c = ([], c)"
| "keep_alive_round now (s # ss) c =
     (let (s', c') =
        (if \<not> registered s then (s, c)
         else (case send_keep_alive now s c of
                 (s1, c1, Inr True) \<Rightarrow> (s1, c1)
               | (s1, c1, _) \<Rightarrow> (ka_unregister (invalidate s1), c1)))
      in (let (ss', c'') = keep_alive_round now ss c' in (s' # ss', c'')))"

section \<open>Properties\<close>

text \<open>The RPC calls a client has written, in order.\<close>

fun is_rpc_call :: "message \<Rightarrow> bool" where
  "is_rpc_call (RpcCall i u p sid m x) = True"
| "is_rpc_call m = False"

abbreviation rpc_calls :: "client \<Rightarrow> message list" where
  "rpc_calls c \<equiv> filter is_rpc_call (sent c)"

text \<open>What an operation may do to the request layer; reflexive and transitive.\<close>

definition only_adds :: "nat \<Rightarrow> client \<Rightarrow> client \<Rightarrow> bool" where
  "only_adds n c c' \<longleftrightarrow>
     (\<exists>ms. sent c' = sent c @ ms \<and> length (filter is_rpc_call ms) \<le> n) \<and> message_id c \<le> message_id c'"

lemma only_adds_refl [intro, simp]: "only_adds n c c"
  by (simp add: only_adds_def)

lemma only_adds_trans: "only_adds m c1 c2 \<Longrightarrow> only_adds n c2 c3 \<Longrightarrow> only_adds (m + n) c1 c3"
  unfolding only_adds_def by fastforce

lemma only_adds_mono: "only_adds m c c' \<Longrightarrow> m \<le> n \<Longrightarrow> only_adds n c c'"
  unfolding only_adds_def by fastforce

lemma request_only_adds: "only_adds 0 c (fst (request meth params i c))"
proof -
  obtain c' r where r: "request meth params i c = (c', r)" by fastforce
  from request_effect(2,3) [OF r] show ?thesis by (auto simp: only_adds_def r)
qed

lemma connect_only_adds: "only_adds 0 c (fst (connect_session s c))"
proof -
  let ?c1 = "c\<lparr>message_id := message_id c + 1\<rparr>"
  have "only_adds 0 c ?c1" by (simp add: only_adds_def)
  moreover have "only_adds 0 ?c1 (fst (connect_session s c))"
    using request_only_adds [of ?c1 "''$/lean/rpc/connect''" "JObj [(''uri'', JStr (s_uri s))]" "message_id c + 1"]
    by (auto simp: connect_session_def next_id_def split: prod.splits)
  ultimately show ?thesis using only_adds_trans by fastforce
qed

lemma establish_only_adds: "establish s c = (s', c', r) \<Longrightarrow> only_adds 0 c c'"
  using connect_only_adds [of c s] by (auto simp: establish_def split: prod.splits sum.splits)

lemma ensure_connected_only_adds: "ensure_connected s c = (s', c', r) \<Longrightarrow> only_adds 0 c c'"
  by (auto simp: ensure_connected_def dest: establish_only_adds split: if_splits)

lemma ensure_connected_id:
  "ensure_connected s c = (s', c', Inr u) \<Longrightarrow> session_id s' \<noteq> None \<and> connected s'"
  by (auto simp: ensure_connected_def establish_def ka_register_def split: if_splits prod.splits sum.splits)

lemma rpc_call_once_effect:
  assumes "rpc_call_once jl meth params pos timeout now s c = (s', c', r)"
  shows "\<exists>ms. sent c' = sent c @ ms \<and> length ms \<le> 1
           \<and> (\<forall>m \<in> set ms. \<exists>sid. session_id s = Some sid
                \<and> m = RpcCall (message_id c + 1) (s_uri s) pos sid meth params)"
    and "message_id c \<le> message_id c'"
    and "session_id s' = session_id s" and "s_uri s' = s_uri s"
    and "k \<noteq> message_id c + 1 \<Longrightarrow> dict_get (pending_requests c') k = dict_get (pending_requests c) k"
    and "session_id s \<noteq> None \<Longrightarrow> dict_get (pending_requests c') (message_id c + 1) = None"
proof -
  show "\<exists>ms. sent c' = sent c @ ms \<and> length ms \<le> 1
           \<and> (\<forall>m \<in> set ms. \<exists>sid. session_id s = Some sid
                \<and> m = RpcCall (message_id c + 1) (s_uri s) pos sid meth params)"
    and "message_id c \<le> message_id c'"
    and "session_id s' = session_id s" and "s_uri s' = s_uri s"
    and "k \<noteq> message_id c + 1 \<Longrightarrow> dict_get (pending_requests c') k = dict_get (pending_requests c) k"
    and "session_id s \<noteq> None \<Longrightarrow> dict_get (pending_requests c') (message_id c + 1) = None"
    using assms
    by (auto simp: rpc_call_once_def next_id_def fresh_queue_def register_pending_def drop_pending_def
        send_message_def await_reply_def dict_simps split: option.splits list.splits reply.splits if_splits)
qed

lemma filter_le_length: "length ms \<le> n \<Longrightarrow> length (filter P ms) \<le> n"
  by (rule le_trans [OF length_filter_le])

lemma rpc_call_once_only_adds:
  "rpc_call_once jl meth params pos timeout now s c = (s', c', r) \<Longrightarrow> only_adds 1 c c'"
  using rpc_call_once_effect(1,2) [of jl meth params pos timeout now s c s' c' r]
  by (auto simp: only_adds_def intro: filter_le_length)

text \<open>
  C32: Recovery is bounded: whatever the server answers, one \<open>call\<close> transmits its request at most
  twice, and at most once when the caller has forbidden the retry (its parameters hold references
  of the old session).
\<close>

theorem rpc_call_transmits_at_most_twice:
  assumes "rpc_call jl meth params position timeout retry now s c = (s', c', r)"
  shows "\<exists>ms. sent c' = sent c @ ms \<and> length (filter is_rpc_call ms) \<le> (if retry then 2 else 1)"
proof -
  have "only_adds (if retry then 2 else 1) c c'"
  proof (cases position)
    case None
    with assms show ?thesis by (simp add: rpc_call_def)
  next
    case (Some pos)
    obtain s1 c1 e1 where e: "ensure_connected s c = (s1, c1, e1)" by (metis prod_cases3)
    note a1 = ensure_connected_only_adds [OF e]
    obtain s2 c2 r2 where o: "rpc_call_once jl meth params pos timeout now s1 c1 = (s2, c2, r2)"
      by (metis prod_cases3)
    note a2 = only_adds_trans [OF a1 rpc_call_once_only_adds [OF o]]
    obtain s3 c3 r3 where rc: "reconnect (invalidate s2) c2 = (s3, c3, r3)" by (metis prod_cases3)
    then have "only_adds 0 c2 c3" by (simp add: reconnect_def establish_only_adds)
    note a3 = only_adds_trans [OF a2 this]
    obtain s4 c4 r4 where o2: "rpc_call_once jl meth params pos timeout now s3 c3 = (s4, c4, r4)"
      by (metis prod_cases3)
    note a4 = only_adds_trans [OF a3 rpc_call_once_only_adds [OF o2]]
    have "c' \<in> {c1, c2} \<or> (retry \<and> c' \<in> {c3, c4})"
      using assms Some e o rc o2 by (auto simp: rpc_call_def split: sum.splits if_splits)
    with a1 a2 a3 a4 show ?thesis by (auto intro: only_adds_mono)
  qed
  then show ?thesis by (auto simp: only_adds_def)
qed

definition demo_client :: client where
  "demo_client = \<lparr>process_up = True, message_id = 4, pending_requests = [], next_queue = 0,
     response_queues = (\<lambda>_. []), sent = [],
     waits = [Some (Response (JObj [(''error'', rpc_error_obj (- 32900) ''expired'')])),
              Some (Response (JObj [(''result'', JObj [(''sessionId'', JStr ''77'')])])),
              Some (Response (JObj [(''result'', JInt 5)]))], faults = []\<rparr>"

definition demo_session :: session where
  "demo_session = \<lparr>s_uri = ''u'', session_id = Some (JInt 76), connected = True, has_manager = True,
     registered = True, last_activity = 0\<rparr>"

definition demo_call :: "session \<times> client \<times> (exn + value)" where
  "demo_call = rpc_call (\<lambda>_. None) ''ping'' (JObj []) (Some JNull) RPC_RESPONSE_TIMEOUT True 1 demo_session demo_client"

lemma demo_call_eq:
  "snd (snd demo_call) = Inr (JInt 5)"
  "sent (fst (snd demo_call)) =
     [RpcCall 5 ''u'' JNull (JInt 76) ''ping'' (JObj []),
      Request 6 ''$/lean/rpc/connect'' (JObj [(''uri'', JStr ''u'')]),
      RpcCall 7 ''u'' JNull (JInt 77) ''ping'' (JObj [])]"
proof -
  have "py_int ''77'' = Some 77" by code_simp
  then show "snd (snd demo_call) = Inr (JInt 5)"
    and "sent (fst (snd demo_call)) =
     [RpcCall 5 ''u'' JNull (JInt 76) ''ping'' (JObj []),
      Request 6 ''$/lean/rpc/connect'' (JObj [(''uri'', JStr ''u'')]),
      RpcCall 7 ''u'' JNull (JInt 77) ''ping'' (JObj [])]"
    by (simp_all add: demo_call_def demo_session_def demo_client_def rpc_call_def ensure_connected_def
        rpc_call_once_def next_id_def fresh_queue_def register_pending_def drop_pending_def send_message_def
        await_reply_def response_error_def raised_by_rpc_error_def classify_obj invalidate_def reconnect_def
        establish_def connect_session_def request_def response_result_def decode_result_def ka_register_def)
qed

theorem rpc_call_transmits_at_most_twice_witness:
  "\<exists>ms. sent (fst (snd demo_call)) = sent demo_client @ ms \<and> length (filter is_rpc_call ms) \<le> 2
     \<and> length (filter is_rpc_call ms) = 2"
proof -
  have "rpc_call (\<lambda>_. None) ''ping'' (JObj []) (Some JNull) RPC_RESPONSE_TIMEOUT True 1 demo_session demo_client
      = (fst demo_call, fst (snd demo_call), snd (snd demo_call))"
    by (simp add: demo_call_def)
  from rpc_call_transmits_at_most_twice [OF this] obtain ms where
    ms: "sent (fst (snd demo_call)) = sent demo_client @ ms" "length (filter is_rpc_call ms) \<le> 2"
    by auto
  moreover have "length (filter is_rpc_call ms) = 2"
    using ms(1) demo_call_eq(2) by (auto simp: demo_client_def)
  ultimately show ?thesis by blast
qed

text \<open>When no write fails, every identifier the call allocated is released again.\<close>

definition writable :: "client \<Rightarrow> bool" where
  "writable c \<longleftrightarrow> process_up c \<and> faults c = []"

definition released :: "client \<Rightarrow> client \<Rightarrow> bool" where
  "released c c' \<longleftrightarrow> writable c' \<and> message_id c \<le> message_id c' \<and>
     (\<forall>k. dict_get (pending_requests c') k =
        (if message_id c < k \<and> k \<le> message_id c' then None else dict_get (pending_requests c) k))"

lemma released_trans: "released c1 c2 \<Longrightarrow> released c2 c3 \<Longrightarrow> released c1 c3"
  by (auto simp: released_def)

lemma released_refl: "writable c \<Longrightarrow> released c c"
  by (auto simp: released_def)

lemma connect_released: "writable c \<Longrightarrow> released c (fst (connect_session s c))"
  unfolding writable_def released_def connect_session_def request_def next_id_def fresh_queue_def
    register_pending_def drop_pending_def send_message_def await_reply_def Let_def
  by (auto simp: dict_simps split: list.splits)

lemma establish_released: "writable c \<Longrightarrow> establish s c = (s', c', r) \<Longrightarrow> released c c'"
  using connect_released [of c s] by (auto simp: establish_def split: prod.splits sum.splits)

lemma ensure_connected_released: "writable c \<Longrightarrow> ensure_connected s c = (s', c', r) \<Longrightarrow> released c c'"
  by (auto simp: ensure_connected_def intro: released_refl establish_released split: if_splits)

lemma rpc_call_once_released:
  "writable c \<Longrightarrow> rpc_call_once jl meth params pos timeout now s c = (s', c', r) \<Longrightarrow> released c c'"
  unfolding writable_def released_def rpc_call_once_def next_id_def fresh_queue_def
    register_pending_def drop_pending_def send_message_def await_reply_def Let_def
  by (auto simp: dict_simps split: list.splits option.splits)

text \<open>
  C33: No call leaks: when the writes to the server succeed, every outcome of a call (a result, an
  error, an expired wait, an abort by the watchdog, a reconnect in between) leaves nothing pending under the
  identifiers that it drew, and every other entry as it was. The entry of another caller under one of these
  identifiers does not survive: the fixed identifier of \<open>_submit_lsp\<close> may be among them.
\<close>

theorem rpc_call_releases_pending:
  assumes "process_up c" and "faults c = []" and "rpc_call jl meth params position timeout retry now s c = (s', c', r)"
  shows "dict_get (pending_requests c') k =
    (if message_id c < k \<and> k \<le> message_id c' then None else dict_get (pending_requests c) k)"
proof -
  have w: "writable c" using assms(1,2) by (simp add: writable_def)
  have "released c c'"
  proof (cases position)
    case None
    with assms(3) w show ?thesis by (simp add: rpc_call_def released_refl)
  next
    case (Some pos)
    obtain s1 c1 e1 where e: "ensure_connected s c = (s1, c1, e1)" by (metis prod_cases3)
    note a1 = ensure_connected_released [OF w e]
    obtain s2 c2 r2 where o: "rpc_call_once jl meth params pos timeout now s1 c1 = (s2, c2, r2)"
      by (metis prod_cases3)
    from a1 have "writable c1" by (simp add: released_def)
    note a2 = released_trans [OF a1 rpc_call_once_released [OF this o]]
    obtain s3 c3 r3 where rc: "reconnect (invalidate s2) c2 = (s3, c3, r3)" by (metis prod_cases3)
    from a2 have "writable c2" by (simp add: released_def)
    from establish_released [OF this rc [unfolded reconnect_def]] have a3: "released c c3"
      by (rule released_trans [OF a2])
    obtain s4 c4 r4 where o2: "rpc_call_once jl meth params pos timeout now s3 c3 = (s4, c4, r4)"
      by (metis prod_cases3)
    from a3 have "writable c3" by (simp add: released_def)
    note a4 = released_trans [OF a3 rpc_call_once_released [OF this o2]]
    have "c' \<in> {c1, c2, c3, c4}"
      using assms(3) Some e o rc o2 by (auto simp: rpc_call_def split: sum.splits if_splits)
    with a1 a2 a3 a4 show ?thesis by auto
  qed
  then show ?thesis by (simp add: released_def)
qed

text \<open>
  The call draws 5, 6 and 7. Entry 3 stays; entry 6, of a caller of \<open>_submit_lsp\<close>, is gone although nobody has
  answered it.
\<close>

theorem rpc_call_releases_pending_witness:
  "\<exists>s' c' r. rpc_call (\<lambda>_. None) ''ping'' (JObj []) (Some JNull) RPC_RESPONSE_TIMEOUT True 1 demo_session
       (demo_client\<lparr>pending_requests := [(3, 8), (6, 9)]\<rparr>) = (s', c', r)
     \<and> dict_get (pending_requests c') 3 = Some 8 \<and> dict_get (pending_requests c') 6 = None"
proof -
  let ?c = "demo_client\<lparr>pending_requests := [(3, 8), (6, 9)]\<rparr>"
  obtain s' c' r where r: "rpc_call (\<lambda>_. None) ''ping'' (JObj []) (Some JNull) RPC_RESPONSE_TIMEOUT True 1 demo_session ?c
      = (s', c', r)" by (metis prod_cases3)
  have c: "process_up ?c" "faults ?c = []" "message_id ?c = 4" by (simp_all add: demo_client_def)
  have "py_int ''77'' = Some 77" by code_simp
  with r have "message_id c' = 7"
    by (auto simp: demo_session_def demo_client_def rpc_call_def ensure_connected_def
        rpc_call_once_def next_id_def fresh_queue_def register_pending_def drop_pending_def send_message_def
        await_reply_def response_error_def raised_by_rpc_error_def classify_obj invalidate_def reconnect_def
        establish_def connect_session_def request_def response_result_def decode_result_def ka_register_def)
  from rpc_call_releases_pending [OF c(1,2) r, of 3] rpc_call_releases_pending [OF c(1,2) r, of 6] r c(3)
  show ?thesis using \<open>message_id c' = 7\<close> by simp
qed

text \<open>
  The request layer does leak where the write itself raises: \<open>request\<close> registers its response
  queue first and writes outside the \<open>try\<close>, so a broken pipe leaves the entry behind.
\<close>

theorem request_leaks_on_write_error:
  assumes "process_up c" and "faults c = Some (BrokenPipeError ''Broken pipe'') # fs"
  shows "\<exists>c'. request meth params i c = (c', Inl (BrokenPipeError ''Broken pipe''))
           \<and> dict_get (pending_requests c') i = Some (next_queue c)"
  using assms
  by (simp add: request_def fresh_queue_def send_message_def register_pending_def dict_simps)

theorem request_leaks_on_write_error_witness:
  "\<exists>c'. request ''shutdown'' (JObj []) 0 (demo_client\<lparr>faults := [Some (BrokenPipeError ''Broken pipe'')]\<rparr>)
       = (c', Inl (BrokenPipeError ''Broken pipe''))
     \<and> dict_get (pending_requests c') 0 = Some 0"
  using request_leaks_on_write_error [of "demo_client\<lparr>faults := [Some (BrokenPipeError ''Broken pipe'')]\<rparr>" "[]"]
  by (simp add: demo_client_def)

end
