(* ===== verification/Document.thy ===== *)
theory Document imports Errors Tunables begin

text \<open>
  The document protocol of one worker (\<open>_didopen\<close>, \<open>_didchange\<close> in \<open>pyleaner/worker.py\<close>): send a
  change, then read notifications until Lean has finished with exactly this version.

  The notification queue is read together with the clock: \<open>inbox\<close> lists the messages with the times
  at which they reach the queue, in that order, and a \<open>get\<close> with a timeout returns the first one if
  it is there by then. Time advances by waiting and by the two-second sleep only.
\<close>

section \<open>State\<close>

record doc =
  doc_uri :: string
  version :: int
  inbox :: "(real \<times> value) list"
  clock :: real
  outbox :: "(string \<times> value) list"
  write_faults :: "exn option list"

definition doc_notify :: "string \<Rightarrow> value \<Rightarrow> doc \<Rightarrow> doc \<times> (exn + unit)" where
  "doc_notify meth params d =
     (case write_faults d of
        Some e # fs \<Rightarrow> (d\<lparr>write_faults := fs\<rparr>, Inl e)
      | None # fs \<Rightarrow> (d\<lparr>write_faults := fs, outbox := outbox d @ [(meth, params)]\<rparr>, Inr ())
      | [] \<Rightarrow> (d\<lparr>outbox := outbox d @ [(meth, params)]\<rparr>, Inr ()))"

definition get_next_version :: "doc \<Rightarrow> doc \<times> int" where
  "get_next_version d = (d\<lparr>version := version d + 1\<rparr>, version d + 1)"

definition reset_version :: "doc \<Rightarrow> doc" where
  "reset_version d = d\<lparr>version := 0\<rparr>"

definition full_range :: "value" where
  "full_range = JObj [(''start'', JObj [(''line'', JInt 0), (''character'', JInt 0)]),
                      (''end'', JObj [(''line'', JInt 999), (''character'', JInt 0)])]"

definition change_params :: "string \<Rightarrow> int \<Rightarrow> value \<Rightarrow> value \<Rightarrow> value" where
  "change_params u v rng text =
     JObj [(''textDocument'', JObj [(''uri'', JStr u), (''version'', JInt v)]),
           (''contentChanges'', JArr [JObj [(''range'', rng), (''text'', text)]])]"

section \<open>Reading notifications\<close>

text \<open>Chained lookups \<open>msg.get(a, {}).get(b, default)\<close> raise when a value on the way is no dictionary.\<close>

definition get2 :: "value \<Rightarrow> string \<Rightarrow> string \<Rightarrow> value \<Rightarrow> exn + value" where
  "get2 m a b dflt = (case py_get m a (JObj []) of Inl e \<Rightarrow> Inl e | Inr x \<Rightarrow> py_get x b dflt)"

definition get3 :: "value \<Rightarrow> string \<Rightarrow> string \<Rightarrow> string \<Rightarrow> value \<Rightarrow> exn + value" where
  "get3 m a b c dflt = (case get2 m a b (JObj []) of Inl e \<Rightarrow> Inl e | Inr x \<Rightarrow> py_get x c dflt)"

text \<open>\<open>diagnostics\<close> is \<open>None\<close> both before the first report and when the report holds a null.\<close>

definition as_diagnostics :: "value \<Rightarrow> value option" where
  "as_diagnostics v = (if v = JNull then None else Some v)"

text \<open>The two tests of the loop body, in the order of their conjuncts.\<close>

definition read_diagnostics :: "int \<Rightarrow> value \<Rightarrow> value option \<Rightarrow> exn + value option" where
  "read_diagnostics v msg diags =
     (case py_get msg ''method'' JNull of Inl e \<Rightarrow> Inl e
      | Inr meth \<Rightarrow>
        if meth \<noteq> JStr ''textDocument/publishDiagnostics'' then Inr diags
        else (case get2 msg ''params'' ''version'' JNull of Inl e \<Rightarrow> Inl e
          | Inr ver \<Rightarrow>
            if py_eq_int ver v
            then (case get2 msg ''params'' ''diagnostics'' (JArr []) of Inl e \<Rightarrow> Inl e
                  | Inr ds \<Rightarrow> Inr (as_diagnostics ds))
            else Inr diags))"

definition is_done_progress :: "int \<Rightarrow> value \<Rightarrow> exn + bool" where
  "is_done_progress v msg =
     (case py_get msg ''method'' JNull of Inl e \<Rightarrow> Inl e
      | Inr meth \<Rightarrow>
        if meth \<noteq> JStr ''$/lean/fileProgress'' then Inr False
        else (case get2 msg ''params'' ''processing'' (JArr []) of Inl e \<Rightarrow> Inl e
          | Inr p \<Rightarrow>
            if p \<noteq> JArr [] then Inr False
            else (case get3 msg ''params'' ''textDocument'' ''version'' JNull of Inl e \<Rightarrow> Inl e
              | Inr ver \<Rightarrow> Inr (py_eq_int ver v))))"

text \<open>\<open>severity is None or severity <= 3\<close>; \<open>None\<close> here is the exception the comparison may raise.\<close>

definition severity_kept :: "value \<Rightarrow> bool option" where
  "severity_kept diag =
     (case py_get diag ''severity'' JNull of
        Inl e \<Rightarrow> None
      | Inr JNull \<Rightarrow> Some True
      | Inr (JInt n) \<Rightarrow> Some (n \<le> 3)
      | Inr (JReal r) \<Rightarrow> Some (r \<le> 3)
      | Inr (JBool b) \<Rightarrow> Some True
      | Inr v \<Rightarrow> None)"

fun keep_diags :: "value list \<Rightarrow> value list" where
  "keep_diags [] = []"
| "keep_diags (d # ds) =
     (case severity_kept d of
        None \<Rightarrow> []
      | Some True \<Rightarrow> d # keep_diags ds
      | Some False \<Rightarrow> keep_diags ds)"

text \<open>Iterating over anything but a list fails at its first element, with nothing collected.\<close>

definition valid_diagnostics :: "value \<Rightarrow> value list" where
  "valid_diagnostics v = (case v of JArr ds \<Rightarrow> keep_diags ds | _ \<Rightarrow> [])"

section \<open>The change loop\<close>

text \<open>
  How the loop ends: with the diagnostics, with an exception, or with \<open>queue.Empty\<close> (the deadline).
  The clock and the rest of the inbox come with it. \<open>time.sleep(2)\<close> separates a finished elaboration
  from its acceptance: a message that arrives meanwhile is read first.
\<close>

datatype change_end = Finished "value list" | Raised exn | Expired

definition queue_empty_at :: "real \<Rightarrow> (real \<times> value) list \<Rightarrow> bool" where
  "queue_empty_at t msgs = (case msgs of [] \<Rightarrow> True | (a, m) # _ \<Rightarrow> t < a)"

fun change_loop ::
  "real \<Rightarrow> int \<Rightarrow> int \<Rightarrow> value option \<Rightarrow> real \<Rightarrow> (real \<times> value) list
     \<Rightarrow> change_end \<times> real \<times> (real \<times> value) list" where
  "change_loop deadline v counter diags t [] = (Expired, max t deadline, [])"
| "change_loop deadline v counter diags t ((a, msg) # msgs) =
     (if deadline - t \<le> 0 then (Expired, t, (a, msg) # msgs)
      else if deadline < a then (Expired, deadline, (a, msg) # msgs)
      else
        (let t1 = max t a
         in case py_get msg ''method'' JNull of Inl e \<Rightarrow> (Raised e, t1, msgs)
          | Inr meth \<Rightarrow>
            if meth = JStr POISON_METHOD then (Raised ServiceUnavailable, t1, msgs)
            else (case read_diagnostics v msg diags of Inl e \<Rightarrow> (Raised e, t1, msgs)
              | Inr diags' \<Rightarrow>
            (case is_done_progress v msg of Inl e \<Rightarrow> (Raised e, t1, msgs)
              | Inr fin \<Rightarrow>
                (let counter' = (if fin then counter + 1 else counter)
                 in case diags' of
                      Some ds \<Rightarrow>
                        if 2 \<le> counter'
                        then (if \<not> queue_empty_at (t1 + 2) msgs
                              then change_loop deadline v counter' diags' (t1 + 2) msgs
                              else (Finished (valid_diagnostics ds), t1 + 2, msgs))
                        else change_loop deadline v counter' diags' t1 msgs
                    | None \<Rightarrow> change_loop deadline v counter' diags' t1 msgs)))))"

text \<open>\<open>{timeout:g}\<close> for a whole number of seconds, the only ones the source uses.\<close>

definition seconds_text :: "real \<Rightarrow> string" where
  "seconds_text timeout = show_int \<lfloor>timeout\<rfloor>"

definition elaboration_timeout :: "real \<Rightarrow> exn" where
  "elaboration_timeout timeout =
     LeanTaskTimeout (''Lean elaboration exceeded '' @ seconds_text timeout
       @ ''s; simplify the proof and avoid enumerating huge ranges.'')"

text \<open>
  At the deadline the source is replaced by an empty text under a new version, which cancels its
  elaboration; a failure to send that (any \<open>Exception\<close>) is swallowed.
\<close>

definition cancel_change :: "value \<Rightarrow> real \<Rightarrow> doc \<Rightarrow> doc \<times> (exn + value list)" where
  "cancel_change rng timeout d =
     (let (d1, v) = get_next_version d
      in case doc_notify ''textDocument/didChange'' (change_params (doc_uri d1) v rng (JStr '''')) d1 of
           (d2, Inl e) \<Rightarrow> if is_Exception e then (d2, Inl (elaboration_timeout timeout)) else (d2, Inl e)
         | (d2, Inr _) \<Rightarrow> (d2, Inl (elaboration_timeout timeout)))"

definition didchange :: "value \<Rightarrow> value \<Rightarrow> real \<Rightarrow> doc \<Rightarrow> doc \<times> (exn + value list)" where
  "didchange text content_range timeout d =
     (let rng = (if content_range = JObj [] then full_range else content_range);
          (d1, v) = get_next_version d
      in case doc_notify ''textDocument/didChange'' (change_params (doc_uri d1) v rng text) d1 of
           (d2, Inl e) \<Rightarrow> (d2, Inl e)
         | (d2, Inr _) \<Rightarrow>
             (case change_loop (clock d2 + timeout) v 0 None (clock d2) (inbox d2) of
                (Finished ds, t, rest) \<Rightarrow> (d2\<lparr>clock := t, inbox := rest\<rparr>, Inr ds)
              | (Raised e, t, rest) \<Rightarrow> (d2\<lparr>clock := t, inbox := rest\<rparr>, Inl e)
              | (Expired, t, rest) \<Rightarrow> cancel_change rng timeout (d2\<lparr>clock := t, inbox := rest\<rparr>)))"

section \<open>Opening the document\<close>

text \<open>Every read has the whole timeout. Any exception, the expired wait included, is a failure.\<close>

fun open_loop :: "real \<Rightarrow> real \<Rightarrow> (real \<times> value) list \<Rightarrow> bool \<times> real \<times> (real \<times> value) list" where
  "open_loop timeout t [] = (False, t + timeout, [])"
| "open_loop timeout t ((a, msg) # msgs) =
     (if t + timeout < a then (False, t + timeout, (a, msg) # msgs)
      else (case is_done_progress 0 msg of
              Inl e \<Rightarrow> (False, max t a, msgs)
            | Inr True \<Rightarrow> (True, max t a, msgs)
            | Inr False \<Rightarrow> open_loop timeout (max t a) msgs))"

text \<open>The messages buffered before the pool existed are appended to what is already queued.\<close>

definition insert_drained :: "real \<Rightarrow> value list \<Rightarrow> (real \<times> value) list \<Rightarrow> (real \<times> value) list" where
  "insert_drained now buffered msgs =
     takeWhile (\<lambda>(a, m). a \<le> now) msgs @ map (\<lambda>m. (now, m)) buffered @ dropWhile (\<lambda>(a, m). a \<le> now) msgs"

definition didopen :: "string \<Rightarrow> string \<Rightarrow> string \<Rightarrow> real \<Rightarrow> value list \<Rightarrow> doc \<Rightarrow> doc \<times> (exn + bool)" where
  "didopen u text language_id timeout buffered d =
     (case doc_notify ''textDocument/didOpen''
            (JObj [(''textDocument'', JObj [(''uri'', JStr u), (''languageId'', JStr language_id),
                                            (''version'', JInt 0), (''text'', JStr text)])])
            (reset_version d) of
        (d1, Inl e) \<Rightarrow> (d1, Inl e)
      | (d1, Inr _) \<Rightarrow>
          (case open_loop timeout (clock d1) (insert_drained (clock d1) buffered (inbox d1)) of
             (ok, t, rest) \<Rightarrow> (d1\<lparr>clock := t, inbox := rest\<rparr>, Inr ok)))"

section \<open>What a finished change means\<close>

definition is_poison :: "value \<Rightarrow> bool" where
  "is_poison m \<longleftrightarrow> py_get m ''method'' JNull = Inr (JStr POISON_METHOD)"

text \<open>What the protocol says, apart from the loop: a report of version \<open>v\<close>, and the end of its processing.\<close>

definition is_report :: "int \<Rightarrow> value \<Rightarrow> bool" where
  "is_report v m \<longleftrightarrow> py_get m ''method'' JNull = Inr (JStr ''textDocument/publishDiagnostics'')
     \<and> (case get2 m ''params'' ''version'' JNull of Inr ver \<Rightarrow> py_eq_int ver v | Inl e \<Rightarrow> False)"

definition says_done :: "int \<Rightarrow> value \<Rightarrow> bool" where
  "says_done v m \<longleftrightarrow> py_get m ''method'' JNull = Inr (JStr ''$/lean/fileProgress'')
     \<and> get2 m ''params'' ''processing'' (JArr []) = Inr (JArr [])
     \<and> (case get3 m ''params'' ''textDocument'' ''version'' JNull of Inr ver \<Rightarrow> py_eq_int ver v | Inl e \<Rightarrow> False)"

definition finished_count :: "int \<Rightarrow> value list \<Rightarrow> int" where
  "finished_count v ms = int (length (filter (says_done v) ms))"

text \<open>The diagnostics of the last report of version \<open>v\<close> among some messages.\<close>

definition latest_report :: "int \<Rightarrow> value list \<Rightarrow> value option" where
  "latest_report v ms =
     (case filter (is_report v) (rev ms) of
        [] \<Rightarrow> None
      | m # _ \<Rightarrow> (case get2 m ''params'' ''diagnostics'' (JArr []) of Inr d \<Rightarrow> Some d | Inl e \<Rightarrow> None))"

lemma latest_report_Nil [simp]: "latest_report v [] = None"
  by (simp add: latest_report_def)

lemma latest_report_Cons:
  "latest_report v (m # ms) =
     (if \<exists>x \<in> set ms. is_report v x then latest_report v ms
      else if is_report v m
      then (case get2 m ''params'' ''diagnostics'' (JArr []) of Inr d \<Rightarrow> Some d | Inl e \<Rightarrow> None)
      else None)"
proof (cases "filter (is_report v) (rev ms)")
  case Nil
  then have "\<not> (\<exists>x \<in> set ms. is_report v x)" by (auto simp: filter_empty_conv)
  with Nil show ?thesis by (auto simp: latest_report_def)
next
  case (Cons y ys)
  have "set (filter (is_report v) (rev ms)) = set (y # ys)" by (simp only: Cons)
  then have "y \<in> set ms \<and> is_report v y" by auto
  with Cons show ?thesis by (auto simp: latest_report_def)
qed

text \<open>What one message does to the report the loop holds.\<close>

lemma read_diagnostics_step:
  assumes "read_diagnostics v m diags = Inr x"
  shows "if is_report v m then \<exists>d. get2 m ''params'' ''diagnostics'' (JArr []) = Inr d \<and> x = as_diagnostics d else x = diags"
  using assms by (auto simp: read_diagnostics_def is_report_def split: sum.splits if_splits)

lemma is_done_progress_step: "is_done_progress v m = Inr k \<Longrightarrow> k = says_done v m"
  by (auto simp: is_done_progress_def says_done_def split: sum.splits if_splits)

lemma as_diagnostics_Some: "as_diagnostics d = Some r \<longleftrightarrow> d = r \<and> r \<noteq> JNull"
  by (auto simp: as_diagnostics_def)

lemma finished_count_simps [simp]:
  "finished_count v [] = 0"
  "finished_count v (m # ms) = (if says_done v m then 1 else 0) + finished_count v ms"
  by (simp_all add: finished_count_def)

lemma read_errors:
  "py_get v k x = Inl e \<Longrightarrow> is_Exception e" "get2 v a b x = Inl e \<Longrightarrow> is_Exception e"
  "get3 v a b k x = Inl e \<Longrightarrow> is_Exception e"
  by (auto simp: py_get_def get2_def get3_def split: json.splits sum.splits)

lemma read_diagnostics_errors: "read_diagnostics v m ds = Inl e \<Longrightarrow> is_Exception e"
  by (auto simp: read_diagnostics_def read_errors split: sum.splits if_splits)

lemma is_done_progress_errors: "is_done_progress v m = Inl e \<Longrightarrow> is_Exception e"
  by (auto simp: is_done_progress_def read_errors split: sum.splits if_splits)

text \<open>
  One round of the loop: it goes on with a new counter, report and time, or ends. All facts about the
  loop are proved by induction on the inbox over this case distinction.
\<close>

lemma change_loop_cases:
  assumes "change_loop deadline v n diags t ((a, msg) # msgs) = (r, t', rest)"
  obtains
    (late) "deadline \<le> t" "r = Expired" "t' = t" "rest = (a, msg) # msgs"
  | (expired) "t < deadline" "deadline < a" "r = Expired" "t' = deadline" "rest = (a, msg) # msgs"
  | (raised) e where "is_Exception e" "t < deadline" "a \<le> deadline" "r = Raised e" "t' = max t a" "rest = msgs"
  | (finished) ds k where "t < deadline" "a \<le> deadline" "\<not> is_poison msg" "read_diagnostics v msg diags = Inr (Some ds)"
      "is_done_progress v msg = Inr k" "2 \<le> n + (if k then 1 else 0)" "queue_empty_at (max t a + 2) msgs"
      "r = Finished (valid_diagnostics ds)" "t' = max t a + 2" "rest = msgs"
  | (go) diags' k u where "t < deadline" "a \<le> deadline" "\<not> is_poison msg" "read_diagnostics v msg diags = Inr diags'"
      "is_done_progress v msg = Inr k" "u \<in> {max t a, max t a + 2}"
      "change_loop deadline v (n + (if k then 1 else 0)) diags' u msgs = (r, t', rest)"
proof -
  consider "deadline \<le> t" | "t < deadline" "deadline < a" | "t < deadline" "a \<le> deadline" by linarith
  then show thesis
  proof cases
    case 1
    then show thesis using assms by (intro late) auto
  next
    case 2
    then show thesis using assms by (intro expired) auto
  next
    case 3
    note ta = 3
    show thesis
    proof (cases "py_get msg ''method'' JNull")
      case (Inl e)
      then show thesis using assms ta by (intro raised [of e]) (auto simp: Let_def read_errors read_diagnostics_errors is_done_progress_errors)
    next
      case (Inr meth)
      note meth = Inr
      show thesis
      proof (cases "meth = JStr POISON_METHOD")
        case True
        then show thesis using assms ta meth by (intro raised [of ServiceUnavailable]) (auto simp: Let_def)
      next
        case False
        then have np: "\<not> is_poison msg" using meth by (simp add: is_poison_def)
        show thesis
        proof (cases "read_diagnostics v msg diags")
          case (Inl e)
          then show thesis using assms ta meth False by (intro raised [of e]) (auto simp: Let_def read_errors read_diagnostics_errors is_done_progress_errors)
        next
          case (Inr diags')
          note rd = Inr
          show thesis
          proof (cases "is_done_progress v msg")
            case (Inl e)
            then show thesis using assms ta meth False rd by (intro raised [of e]) (auto simp: Let_def read_errors read_diagnostics_errors is_done_progress_errors)
          next
            case (Inr k)
            define n' where "n' = n + (if k then 1 else 0)"
            have n': "(if k then n + 1 else n) = n'" by (simp add: n'_def)
            have "(r, t', rest) =
              (case diags' of
                 Some ds \<Rightarrow>
                   if 2 \<le> n'
                   then (if \<not> queue_empty_at (max t a + 2) msgs
                         then change_loop deadline v n' diags' (max t a + 2) msgs
                         else (Finished (valid_diagnostics ds), max t a + 2, msgs))
                   else change_loop deadline v n' diags' (max t a) msgs
               | None \<Rightarrow> change_loop deadline v n' diags' (max t a) msgs)"
              using assms ta meth False rd Inr by (simp add: Let_def n')
            then consider (fin) ds where "diags' = Some ds" "2 \<le> n'" "queue_empty_at (max t a + 2) msgs"
                "(r, t', rest) = (Finished (valid_diagnostics ds), max t a + 2, msgs)"
              | (on) u where "u \<in> {max t a, max t a + 2}"
                 "change_loop deadline v n' diags' u msgs = (r, t', rest)"
              by (cases diags') (auto split: if_splits)
            then show thesis
            proof cases
              case fin
              with rd have "read_diagnostics v msg diags = Inr (Some ds)" by simp
              from finished [OF ta np this Inr] fin show thesis by (simp add: n'_def)
            next
              case on
              from go [OF ta np rd Inr on(1)] on(2) show thesis by (simp add: n'_def)
            qed
          qed
        qed
      qed
    qed
  qed
qed

lemma change_loop_finished:
  assumes "change_loop deadline v n diags t msgs = (Finished ds, t', rest)"
  shows "\<exists>used rep. msgs = used @ rest \<and> 2 \<le> n + finished_count v (map snd used)
     \<and> ds = valid_diagnostics rep
     \<and> (if \<exists>m \<in> set (map snd used). is_report v m then latest_report v (map snd used) = Some rep else diags = Some rep)
     \<and> (\<forall>m \<in> set (map snd used). \<not> is_poison m) \<and> queue_empty_at t' rest"
  using assms
proof (induction msgs arbitrary: n diags t)
  case (Cons x msgs)
  obtain a msg where x: "x = (a, msg)" by fastforce
  from Cons.prems [unfolded x] show ?case
  proof (cases rule: change_loop_cases)
    case (finished ds' k)
    have "if is_report v msg then latest_report v [msg] = Some ds' else diags = Some ds'"
      using read_diagnostics_step [OF finished(4)] by (auto simp: latest_report_Cons as_diagnostics_def split: if_splits)
    with finished x is_done_progress_step [OF finished(5)] show ?thesis
      by (intro exI [of _ "[(a, msg)]"] exI [of _ ds']) auto
  next
    case (go diags' k u)
    from Cons.IH [OF go(7)] obtain used rep where
      u: "msgs = used @ rest" "2 \<le> n + (if k then 1 else 0) + finished_count v (map snd used)"
      "ds = valid_diagnostics rep"
      "if \<exists>m \<in> set (map snd used). is_report v m then latest_report v (map snd used) = Some rep else diags' = Some rep"
      "\<forall>m \<in> set (map snd used). \<not> is_poison m" "queue_empty_at t' rest" by blast
    have "if \<exists>m \<in> set (map snd ((a, msg) # used)). is_report v m
        then latest_report v (map snd ((a, msg) # used)) = Some rep else diags = Some rep"
      using u(4) read_diagnostics_step [OF go(4)]
      by (auto simp: latest_report_Cons as_diagnostics_def split: if_splits)
    with u go(3) x is_done_progress_step [OF go(5)] show ?thesis
      by (intro exI [of _ "(a, msg) # used"] exI [of _ rep]) auto
  qed auto
qed simp

lemma change_loop_time:
  "change_loop deadline v n diags t msgs = (r, t', rest) \<Longrightarrow> t \<le> deadline + 2 \<Longrightarrow> t' \<le> deadline + 2 \<and> t \<le> t'"
proof (induction msgs arbitrary: n diags t)
  case (Cons x msgs)
  obtain a msg where x: "x = (a, msg)" by fastforce
  from Cons.prems(1) [unfolded x] show ?case
  proof (cases rule: change_loop_cases)
    case (go diags' k u)
    then have "u \<le> deadline + 2" "t \<le> u" by auto
    with Cons.IH [OF go(7)] show ?thesis by auto
  qed (use Cons.prems(2) in auto)
qed auto

lemma change_loop_raised:
  "change_loop deadline v n diags t msgs = (Raised e, t', rest) \<Longrightarrow> is_Exception e"
proof (induction msgs arbitrary: n diags t)
  case (Cons x msgs)
  obtain a msg where x: "x = (a, msg)" by fastforce
  from Cons.prems [unfolded x] show ?case
    by (cases rule: change_loop_cases) (auto dest: Cons.IH)
qed simp

lemma doc_notify_frame [frame_simps]:
  "doc_uri (fst (doc_notify m p d)) = doc_uri d" "version (fst (doc_notify m p d)) = version d"
  "inbox (fst (doc_notify m p d)) = inbox d" "clock (fst (doc_notify m p d)) = clock d"
  by (simp_all add: doc_notify_def split: list.splits option.splits)

lemma doc_notify_outbox:
  "outbox (fst (doc_notify m p d)) = outbox d @ (if snd (doc_notify m p d) = Inr () then [(m, p)] else [])"
  by (simp add: doc_notify_def split: list.splits option.splits)

lemma cancel_change_frame:
  "cancel_change rng timeout d = (d', r) \<Longrightarrow> clock d' = clock d \<and> version d' = version d + 1 \<and> (\<exists>e. r = Inl e)"
  using doc_notify_frame [of "''textDocument/didChange''" _ "d\<lparr>version := version d + 1\<rparr>"]
  by (auto simp: cancel_change_def get_next_version_def split: prod.splits sum.splits if_splits)
    (metis fst_conv select_convs(2,4))+

section \<open>Properties of a change\<close>

lemma didchange_cases:
  assumes "didchange text content_range timeout d = (d', r)"
  obtains
    (unsent) e where "r = Inl e" "clock d' = clock d" "inbox d' = inbox d"
  | (answered) ds t rest where
      "change_loop (clock d + timeout) (version d + 1) 0 None (clock d) (inbox d) = (Finished ds, t, rest)"
      "r = Inr ds" "clock d' = t" "inbox d' = rest"
  | (raised) e t rest where
      "change_loop (clock d + timeout) (version d + 1) 0 None (clock d) (inbox d) = (Raised e, t, rest)"
      "r = Inl e" "clock d' = t" "inbox d' = rest"
  | (cancelled) e t rest d2 rng where
      "change_loop (clock d + timeout) (version d + 1) 0 None (clock d) (inbox d) = (Expired, t, rest)"
      "r = Inl e" "clock d' = t" "(d', r) = cancel_change rng timeout (d2\<lparr>clock := t, inbox := rest\<rparr>)"
proof -
  define rng where "rng = (if content_range = JObj [] then full_range else content_range)"
  define d1 where "d1 = d\<lparr>version := version d + 1\<rparr>"
  obtain d2 w where w: "doc_notify ''textDocument/didChange'' (change_params (doc_uri d1) (version d + 1) rng text) d1 = (d2, w)"
    by fastforce
  have fr: "clock d2 = clock d" "inbox d2 = inbox d"
    using doc_notify_frame(3,4) [of "''textDocument/didChange''" "change_params (doc_uri d1) (version d + 1) rng text" d1]
    unfolding w by (simp_all add: d1_def)
  obtain en t rest where
    en: "change_loop (clock d + timeout) (version d + 1) 0 None (clock d) (inbox d) = (en, t, rest)"
    by (metis prod_cases3)
  have exp: "(d', r) = (case w of Inl e \<Rightarrow> (d2, Inl e) | Inr _ \<Rightarrow>
      (case en of Finished ds \<Rightarrow> (d2\<lparr>clock := t, inbox := rest\<rparr>, Inr ds)
       | Raised e \<Rightarrow> (d2\<lparr>clock := t, inbox := rest\<rparr>, Inl e)
       | Expired \<Rightarrow> cancel_change rng timeout (d2\<lparr>clock := t, inbox := rest\<rparr>)))"
    using assms w fr en
    by (auto simp: didchange_def Let_def get_next_version_def rng_def [symmetric] d1_def [symmetric]
        split: sum.splits change_end.splits)
  show thesis
  proof (cases w)
    case (Inl e)
    with exp fr show thesis by (intro unsent) auto
  next
    case (Inr u)
    note exp = exp [unfolded Inr sum.case]
    show thesis
    proof (cases en)
      case (Finished ds)
      with exp en show thesis by (intro answered) auto
    next
      case (Raised e)
      with exp en show thesis by (intro raised) auto
    next
      case Expired
      then have c: "(d', r) = cancel_change rng timeout (d2\<lparr>clock := t, inbox := rest\<rparr>)" using exp by simp
      from cancel_change_frame [OF c [symmetric]] obtain e where "r = Inl e" "clock d' = t" by auto
      with Expired en c show thesis by (intro cancelled) auto
    qed
  qed
qed

definition progress_msg :: "string \<Rightarrow> int \<Rightarrow> value list \<Rightarrow> value" where
  "progress_msg u v processing =
     JObj [(''method'', JStr ''$/lean/fileProgress''),
           (''params'', JObj [(''textDocument'', JObj [(''uri'', JStr u), (''version'', JInt v)]),
                              (''processing'', JArr processing)])]"

definition report_msg :: "string \<Rightarrow> int \<Rightarrow> value list \<Rightarrow> value" where
  "report_msg u v ds =
     JObj [(''method'', JStr ''textDocument/publishDiagnostics''),
           (''params'', JObj [(''uri'', JStr u), (''version'', JInt v), (''diagnostics'', JArr ds)])]"

definition diag_msg :: "int \<Rightarrow> value" where
  "diag_msg sev = JObj [(''severity'', JInt sev), (''message'', JStr ''m'')]"

text \<open>An example: a late report about the version before, then the two passes over this one.\<close>

definition demo_doc :: doc where
  "demo_doc = \<lparr>doc_uri = ''u'', version = 6,
     inbox = [(1, report_msg ''u'' 6 [diag_msg 1]), (2, progress_msg ''u'' 7 []),
              (3, report_msg ''u'' 7 [diag_msg 2, diag_msg 4]), (4, progress_msg ''u'' 7 [])],
     clock = 0, outbox = [], write_faults = []\<rparr>"

lemmas message_defs = progress_msg_def report_msg_def diag_msg_def read_diagnostics_def is_done_progress_def
  get2_def get3_def as_diagnostics_def POISON_METHOD_def py_get_def py_eq_int_def

lemma demo_change:
  "didchange (JStr ''t'') (JObj []) 60 demo_doc =
     (demo_doc\<lparr>version := 7, clock := 6, inbox := [],
        outbox := [(''textDocument/didChange'', change_params ''u'' 7 full_range (JStr ''t''))]\<rparr>,
      Inr [diag_msg 2])"
  by (simp add: didchange_def demo_doc_def get_next_version_def doc_notify_def message_defs
      queue_empty_at_def valid_diagnostics_def severity_kept_def)

text \<open>
  C13: The diagnostics that \<open>_didchange\<close> returns are those of the version it just sent: they come from the
  last \<open>publishDiagnostics\<close> for exactly that version, filtered, and at least two end-of-processing
  notifications for that version were read before. A poisoned queue never yields a result.
\<close>
theorem didchange_returns_this_version:
  assumes "didchange text content_range timeout d = (d', Inr ds)"
  shows "\<exists>used rep. inbox d = used @ inbox d'
    \<and> 2 \<le> finished_count (version d + 1) (map snd used)
    \<and> latest_report (version d + 1) (map snd used) = Some rep
    \<and> ds = valid_diagnostics rep
    \<and> (\<forall>m \<in> set (map snd used). \<not> is_poison m)"
  using assms
proof (cases rule: didchange_cases)
  case (answered ds' t rest)
  from change_loop_finished [OF answered(1)] answered(2,4) show ?thesis by (fastforce split: if_splits)
qed auto

theorem didchange_returns_this_version_witness:
  "\<exists>used rep. inbox demo_doc = used @ []
    \<and> 2 \<le> finished_count 7 (map snd used)
    \<and> latest_report 7 (map snd used) = Some rep
    \<and> [diag_msg 2] = valid_diagnostics rep"
  using didchange_returns_this_version [OF demo_change] by (auto simp: demo_doc_def)

text \<open>
  C37: A change never occupies its worker longer than its timeout plus the two seconds of the final pause,
  whatever arrives and whatever the outcome.
\<close>
theorem didchange_bounded_time:
  assumes "didchange text content_range timeout d = (d', r)" and "0 \<le> timeout"
  shows "clock d \<le> clock d' \<and> clock d' \<le> clock d + timeout + 2"
  using assms(1)
proof (cases rule: didchange_cases)
  case (answered ds t rest)
  from change_loop_time [OF answered(1)] answered(3) assms(2) show ?thesis by simp
next
  case (raised e t rest)
  from change_loop_time [OF raised(1)] raised(3) assms(2) show ?thesis by simp
next
  case (cancelled e t rest d2 rng)
  from change_loop_time [OF cancelled(1)] cancelled(3) assms(2) show ?thesis by simp
qed (use assms(2) in auto)

theorem didchange_bounded_time_witness:
  "clock demo_doc \<le> (6::real) \<and> (6::real) \<le> clock demo_doc + 60 + 2"
  using didchange_bounded_time [OF demo_change] by simp

section \<open>Version numbers\<close>

text \<open>The version that a message to Lean announces, if it is a change.\<close>

fun sent_version :: "string \<times> value \<Rightarrow> int option" where
  "sent_version (meth, params) =
     (if meth = ''textDocument/didChange''
      then (case get2 params ''textDocument'' ''version'' JNull of Inr (JInt v) \<Rightarrow> Some v | _ \<Rightarrow> None)
      else None)"

fun sent_versions :: "(string \<times> value) list \<Rightarrow> int list" where
  "sent_versions [] = []"
| "sent_versions (m # ms) = (case sent_version m of None \<Rightarrow> [] | Some v \<Rightarrow> [v]) @ sent_versions ms"

definition versions_ok :: "doc \<Rightarrow> bool" where
  "versions_ok d \<longleftrightarrow> sorted_wrt (<) (sent_versions (outbox d)) \<and> (\<forall>v \<in> set (sent_versions (outbox d)). v \<le> version d)"

lemma sent_versions_append [simp]: "sent_versions (xs @ ys) = sent_versions xs @ sent_versions ys"
  by (induction xs) auto

lemma sent_version_change [simp]: "sent_version (''textDocument/didChange'', change_params u v rng text) = Some v"
  by (simp add: change_params_def get2_def py_get_def)

declare sent_version.simps [simp del]

lemma notify_next_version_ok:
  assumes "versions_ok d" "version d1 = version d + 1" "outbox d1 = outbox d"
  shows "versions_ok (fst (doc_notify ''textDocument/didChange'' (change_params u (version d + 1) rng text) d1))"
  using assms by (auto simp: versions_ok_def doc_notify_outbox doc_notify_frame sorted_wrt_append)

lemma versions_ok_read [simp]: "versions_ok (d\<lparr>clock := t, inbox := q\<rparr>) = versions_ok d"
  by (simp add: versions_ok_def)

lemma cancel_change_versions:
  "versions_ok d \<Longrightarrow> versions_ok (fst (cancel_change rng timeout d))"
  using notify_next_version_ok [of d "d\<lparr>version := version d + 1\<rparr>" "doc_uri d" rng "JStr ''''"]
  by (auto simp: cancel_change_def get_next_version_def split: prod.split sum.split)

text \<open>
  The version numbers that a worker announces for its document increase strictly, over every change
  and every cancelling edit, so that Lean and the worker always agree on which source is the newest.
\<close>
theorem didchange_keeps_versions_increasing:
  assumes "versions_ok d"
  shows "versions_ok (fst (didchange text content_range timeout d))"
proof -
  define rng where "rng = (if content_range = JObj [] then full_range else content_range)"
  obtain d2 w where w: "doc_notify ''textDocument/didChange'' (change_params (doc_uri d) (version d + 1) rng text)
      (d\<lparr>version := version d + 1\<rparr>) = (d2, w)" by fastforce
  have d2: "versions_ok d2"
    using notify_next_version_ok [OF assms, of "d\<lparr>version := version d + 1\<rparr>" "doc_uri d" rng "text"] w by simp
  obtain en t rest where en: "change_loop (clock d2 + timeout) (version d + 1) 0 None (clock d2) (inbox d2) = (en, t, rest)"
    by (metis prod_cases3)
  have "versions_ok (fst (cancel_change rng timeout (d2\<lparr>clock := t, inbox := rest\<rparr>)))"
    using d2 by (intro cancel_change_versions) simp
  then show ?thesis using w d2 en
    by (simp add: didchange_def Let_def get_next_version_def rng_def [symmetric] split: sum.split change_end.split)
qed

theorem didchange_keeps_versions_increasing_witness:
  "versions_ok (fst (didchange (JStr ''t'') (JObj []) 60 demo_doc))
    \<and> sent_versions (outbox (fst (didchange (JStr ''t'') (JObj []) 60 demo_doc))) = [7]"
  using didchange_keeps_versions_increasing [of demo_doc "JStr ''t''" "JObj []" 60]
  by (simp add: demo_change) (simp add: demo_doc_def versions_ok_def)

section \<open>Silence and poison\<close>

text \<open>
  If Lean never answers, the change ends in a \<open>LeanTaskTimeout\<close> exactly at its deadline, even when
  the cancelling edit itself cannot be sent. When it can, Lean is left with an empty text under a newer
  version than the one that hung.
\<close>
theorem silent_server_times_out:
  assumes "inbox d = []" and "0 \<le> timeout" and "write_faults d = [None, f]"
    and "\<forall>e. f = Some e \<longrightarrow> is_Exception e"
  shows "snd (didchange text content_range timeout d) = Inl (elaboration_timeout timeout)
    \<and> clock (fst (didchange text content_range timeout d)) = clock d + timeout
    \<and> sent_versions (outbox (fst (didchange text content_range timeout d)))
        = sent_versions (outbox d) @ [version d + 1] @ (if f = None then [version d + 2] else [])"
proof (cases f)
  case None
  with assms(1-3) show ?thesis
    by (simp add: didchange_def get_next_version_def doc_notify_def cancel_change_def)
next
  case (Some e)
  with assms show ?thesis
    by (simp add: didchange_def get_next_version_def doc_notify_def cancel_change_def)
qed

theorem silent_server_times_out_witness:
  "snd (didchange (JStr ''t'') (JObj []) 60 (demo_doc\<lparr>inbox := [], write_faults := [None, None]\<rparr>)) = Inl (elaboration_timeout 60)
    \<and> sent_versions (outbox (fst (didchange (JStr ''t'') (JObj []) 60 (demo_doc\<lparr>inbox := [], write_faults := [None, None]\<rparr>)))) = [7, 8]"
  using silent_server_times_out [of "demo_doc\<lparr>inbox := [], write_faults := [None, None]\<rparr>" 60 None "JStr ''t''" "JObj []"]
  by (simp add: demo_doc_def)

text \<open>
  Unlike a change, opening the document is not aborted by the poison notification that the watchdog
  sends to the queue: the message is read and skipped, and the wait for Lean goes on.
\<close>
theorem didopen_ignores_poison:
  assumes "is_poison msg" and "a \<le> t + timeout"
  shows "open_loop timeout t ((a, msg) # msgs) = open_loop timeout (max t a) msgs"
  using assms by (auto simp: is_poison_def is_done_progress_def POISON_METHOD_def)

definition poison_msg :: "value" where
  "poison_msg = JObj [(''method'', JStr POISON_METHOD), (''params'', JObj [])]"

theorem didopen_ignores_poison_witness:
  "open_loop 300 0 [(1, poison_msg)] = open_loop 300 1 [] \<and> \<not> fst (open_loop 300 0 [(1, poison_msg)])"
  using didopen_ignores_poison [of poison_msg 1 0 300 "[]"] by (simp add: is_poison_def poison_msg_def py_get_def)

section \<open>Opening has no deadline\<close>

lemma open_loop_stream:
  assumes "0 < g" and "g \<le> timeout"
  shows "\<forall>i. is_done_progress 0 (m i) = Inr False \<Longrightarrow>
    open_loop timeout t (map (\<lambda>i. (t + g * real (Suc i), m i)) [0..<n]) = (False, t + g * real n + timeout, [])"
proof (induction n arbitrary: t m)
  case (Suc n)
  have "map (\<lambda>i. (t + g * real (Suc i), m i)) [0..<Suc n]
      = (t + g, m 0) # map (\<lambda>i. ((t + g) + g * real (Suc i), m (Suc i))) [0..<n]"
    by (simp add: upt_conv_Cons map_Suc_upt [symmetric] comp_def algebra_simps del: upt_Suc)
  with Suc.IH [of "\<lambda>i. m (Suc i)" "t + g"] Suc.prems assms show ?case by (simp add: algebra_simps)
qed simp

lemma insert_drained_Nil: "insert_drained now [] msgs = msgs"
  by (simp add: insert_drained_def)

definition steady :: "real \<Rightarrow> (nat \<Rightarrow> value) \<Rightarrow> nat \<Rightarrow> doc \<Rightarrow> doc" where
  "steady g m n d = d\<lparr>inbox := map (\<lambda>i. (clock d + g * real (Suc i), m i)) [0..<n]\<rparr>"

text \<open>
  C22: Opening a document has no deadline. Its timeout bounds the wait for the next message, not for the end: as long
  as Lean sends something every \<open>g\<close> seconds, with \<open>g\<close> at most the timeout, that does not end the processing of version
  0, the call goes on, for \<open>g\<close> seconds per message, past every bound. A restart, which opens the documents of the
  new pool with \<open>server_ready\<close> cleared, can be held up by this for ever.
\<close>
theorem didopen_has_no_deadline:
  assumes "0 < g" and "g \<le> timeout" and "\<forall>i. is_done_progress 0 (m i) = Inr False" and "write_faults d = []"
  shows "(\<forall>n. snd (didopen u text lang timeout [] (steady g m n d)) = Inr False
      \<and> clock (fst (didopen u text lang timeout [] (steady g m n d))) = clock d + g * real n + timeout)
    \<and> (\<exists>n. bound < clock (fst (didopen u text lang timeout [] (steady g m n d))))"
proof -
  have 1: "snd (didopen u text lang timeout [] (steady g m n d)) = Inr False
      \<and> clock (fst (didopen u text lang timeout [] (steady g m n d))) = clock d + g * real n + timeout" for n
    using open_loop_stream [OF assms(1,2,3), of "clock d" n] assms(4)
    by (simp add: didopen_def doc_notify_def reset_version_def steady_def insert_drained_Nil)
  obtain n where "(bound - clock d - timeout) / g < real n" using reals_Archimedean2 by blast
  then have "bound < clock d + g * real n + timeout" using assms(1) by (simp add: pos_divide_less_eq algebra_simps)
  with 1 show ?thesis by metis
qed

theorem didopen_has_no_deadline_witness:
  "\<exists>n. 1000000 < clock (fst (didopen ''u'' ''import Mathlib'' ''lean4'' 300 [] (steady 60 (\<lambda>i. progress_msg ''u'' 0 [JNull]) n demo_doc)))"
proof -
  have 1: "\<forall>i::nat. is_done_progress 0 (progress_msg ''u'' 0 [JNull]) = Inr False"
    by (simp add: message_defs)
  have 2: "write_faults demo_doc = []" by (simp add: demo_doc_def)
  have "0 < (60::real)" "(60::real) \<le> 300" by simp_all
  from didopen_has_no_deadline [OF this 1 2, THEN conjunct2] show ?thesis .
qed

end
