(* ===== verification/Worker.thy ===== *)
theory Worker imports Events RpcSession Document begin

text \<open>
  One worker (\<open>pyleaner/worker.py\<close>): its document, RPC session and task queue, the operations a task
  may name, and the thread loop \<open>_run\<close>. An iteration of the loop is split where other threads act:
  \<open>run_begin\<close> takes a task, the operation runs, \<open>run_finish\<close> answers it; the router and the watchdog
  may have changed the queue and the culprit mark in between.
\<close>

section \<open>State\<close>

record worker =
  worker_id :: int
  w_doc :: doc
  w_rpc :: session
  task_queue :: "task option fifo"
  current_task :: "task option"
  task_started_at :: "real option"
  ready :: bool
  exited :: bool

definition new_doc :: "string \<Rightarrow> real \<Rightarrow> doc" where
  "new_doc u now = \<lparr>doc_uri = u, version = 0, inbox = [], clock = now, outbox = [], write_faults = []\<rparr>"

definition new_worker :: "int \<Rightarrow> string \<Rightarrow> bool \<Rightarrow> real \<Rightarrow> worker" where
  "new_worker i init_uri mgr now =
     \<lparr>worker_id = i, w_doc = new_doc init_uri now, w_rpc = new_session init_uri mgr now, task_queue = [],
      current_task = None, task_started_at = None, ready = False, exited = False\<rparr>"

text \<open>
  The document sends through the client: a write raises when the process is gone or as the client's
  environment says, and what is sent joins the client's stream.
\<close>

type_synonym 'a wop = "worker \<times> client \<Rightarrow> (worker \<times> client) \<times> (exn + 'a)"

definition no_process :: "exn option" where
  "no_process = Some (RuntimeError ''Process or stdin is not available'')"

definition on_doc :: "(doc \<Rightarrow> doc \<times> (exn + 'a)) \<Rightarrow> 'a wop" where
  "on_doc f = (\<lambda>(w, c).
     let d = w_doc w;
         (d', r) = f (d\<lparr>write_faults := if process_up c then faults c else [no_process, no_process]\<rparr>)
     in ((w\<lparr>w_doc := d'\<rparr>,
          c\<lparr>sent := sent c @ map (\<lambda>(m, p). Notification m p) (drop (length (outbox d)) (outbox d')),
            faults := if process_up c then write_faults d' else faults c\<rparr>), r))"

section \<open>Internal communication\<close>

definition submit_lsp :: "string \<Rightarrow> value \<Rightarrow> value wop" where
  "submit_lsp meth params = (\<lambda>(w, c).
     let (c', r) = request meth params (worker_id w + 1000) c in ((w, c'), r))"

definition submit_rpc :: "(string \<Rightarrow> value option) \<Rightarrow> value \<Rightarrow> string \<Rightarrow> value \<Rightarrow> value wop" where
  "submit_rpc json_loads pos meth params = (\<lambda>(w, c).
     let (s', c', r) = rpc_call json_loads meth params (Some pos) RPC_RESPONSE_TIMEOUT True
                         (clock (w_doc w)) (w_rpc w) c
     in ((w\<lparr>w_rpc := s'\<rparr>, c'), r))"

definition initialize_environment :: "string \<Rightarrow> string \<Rightarrow> value list \<Rightarrow> bool wop" where
  "initialize_environment init_text language_id buffered = (\<lambda>(w, c).
     case on_doc (didopen (doc_uri (w_doc w)) init_text language_id 300 buffered) (w, c) of
       ((w', c'), Inl e) \<Rightarrow> ((w', c'), Inl e)
     | ((w', c'), Inr ok) \<Rightarrow> ((w'\<lparr>ready := ok\<rparr>, c'), Inr ok))"

section \<open>Operations\<close>

definition bind_op :: "'a wop \<Rightarrow> ('a \<Rightarrow> 'b wop) \<Rightarrow> 'b wop" where
  "bind_op f g = (\<lambda>st. case f st of (st', Inl e) \<Rightarrow> (st', Inl e) | (st', Inr x) \<Rightarrow> g x st')"

definition return_op :: "'a \<Rightarrow> 'a wop" where
  "return_op x = (\<lambda>st. (st, Inr x))"

definition truthy :: "value \<Rightarrow> bool" where
  "truthy v = (case v of JNull \<Rightarrow> False | JBool b \<Rightarrow> b | JInt n \<Rightarrow> n \<noteq> 0 | JReal r \<Rightarrow> r \<noteq> 0
     | JStr s \<Rightarrow> s \<noteq> [] | JArr xs \<Rightarrow> xs \<noteq> [] | JObj d \<Rightarrow> d \<noteq> [])"

definition zero_pos :: "value" where
  "zero_pos = JObj [(''line'', JInt 0), (''character'', JInt 0)]"

definition change :: "value \<Rightarrow> value \<Rightarrow> value list wop" where
  "change text content_range = on_doc (didchange text content_range 120)"

definition get_diagnostics :: "value \<Rightarrow> value \<Rightarrow> value wop" where
  "get_diagnostics text content_range = bind_op (change text content_range) (\<lambda>ds. return_op (JArr ds))"

definition goals_of :: "value \<Rightarrow> value" where
  "goals_of result = (case result of JObj d \<Rightarrow> (case dict_get d ''goals'' of Some g \<Rightarrow> g | None \<Rightarrow> JNull) | _ \<Rightarrow> JNull)"

definition get_proof_goal :: "value \<Rightarrow> value \<Rightarrow> value \<Rightarrow> value wop" where
  "get_proof_goal text content_range pos =
     bind_op (change text content_range) (\<lambda>ds st.
       bind_op
         (submit_lsp ''$/lean/plainGoal''
            (JObj [(''textDocument'', JObj [(''uri'', JStr (doc_uri (w_doc (fst st)))),
                                            (''version'', JInt (version (w_doc (fst st))))]),
                   (''position'', pos)]))
         (\<lambda>result. return_op (JObj [(''diagnostics'', JArr ds), (''proof_goal'', goals_of result)])) st)"

text \<open>A dictionary result also carries the diagnostics of the update it was computed on.\<close>

definition attach_diagnostics :: "value list \<Rightarrow> value \<Rightarrow> value" where
  "attach_diagnostics ds result =
     (case result of JObj d \<Rightarrow> JObj (dict_set ''diagnostics'' (JArr ds) d) | v \<Rightarrow> v)"

definition change_then_rpc ::
  "(string \<Rightarrow> value option) \<Rightarrow> value \<Rightarrow> value \<Rightarrow> string \<Rightarrow> value \<Rightarrow> value wop" where
  "change_then_rpc json_loads text content_range meth params =
     bind_op (change text content_range) (\<lambda>ds.
       bind_op (submit_rpc json_loads zero_pos meth params) (\<lambda>result. return_op (attach_diagnostics ds result)))"

definition extract_declarations :: "(string \<Rightarrow> value option) \<Rightarrow> value \<Rightarrow> value \<Rightarrow> value wop" where
  "extract_declarations json_loads text content_range =
     change_then_rpc json_loads text content_range ''LeanLspExtension.extractDeclarations'' (JObj [])"

definition range_or_empty :: "value \<Rightarrow> value" where
  "range_or_empty r = (if truthy r then r else JObj [])"

definition search_declarations ::
  "(string \<Rightarrow> value option) \<Rightarrow> value \<Rightarrow> value \<Rightarrow> value \<Rightarrow> value \<Rightarrow> value \<Rightarrow> value wop" where
  "search_declarations json_loads text query max_results fuzzy content_range =
     change_then_rpc json_loads text (range_or_empty content_range) ''LeanLspExtension.searchDeclarations''
       (JObj [(''query'', query), (''maxResults'', max_results), (''fuzzy'', fuzzy)])"

definition declaration_axioms :: "(string \<Rightarrow> value option) \<Rightarrow> value \<Rightarrow> value \<Rightarrow> value \<Rightarrow> value wop" where
  "declaration_axioms json_loads text declaration_name content_range =
     change_then_rpc json_loads text (range_or_empty content_range) ''LeanLspExtension.declarationAxioms''
       (JObj [(''declarationName'', declaration_name)])"

definition echo :: "(string \<Rightarrow> value option) \<Rightarrow> value \<Rightarrow> value wop" where
  "echo json_loads msg = (\<lambda>st.
     submit_rpc json_loads zero_pos ''LeanLspExtension.echo''
       (JObj [(''textDocument'', JObj [(''uri'', JStr (doc_uri (w_doc (fst st))))]), (''message'', msg)]) st)"

text \<open>The operations without arguments: one RPC call each.\<close>

definition plain_rpcs :: "(string, string) dict" where
  "plain_rpcs = [
     (''ping'', ''LeanLspExtension.ping''),
     (''debug_document'', ''LeanLspExtension.debugDocument''),
     (''parse_document'', ''LeanLspExtension.parseDocument''),
     (''test_declaration_kind'', ''LeanLspExtension.testDeclarationKind''),
     (''test_declaration_name'', ''LeanLspExtension.testDeclarationName''),
     (''test_has_params'', ''LeanLspExtension.testHasParams''),
     (''test_params_text'', ''LeanLspExtension.testParamsText''),
     (''test_type_text'', ''LeanLspExtension.testTypeText''),
     (''test_body_text'', ''LeanLspExtension.testBodyText''),
     (''test_body_fields'', ''LeanLspExtension.testBodyFields''),
     (''debug_body_fields'', ''LeanLspExtension.debugBodyFields''),
     (''debug_syntax_tree'', ''LeanLspExtension.debugSyntaxTree''),
     (''debug_binder_structure'', ''LeanLspExtension.debugBinderStructure''),
     (''debug_all_snapshots'', ''LeanLspExtension.debugAllSnapshots''),
     (''debug_snapshot_info'', ''LeanLspExtension.debugSnapshotInfo'')]"

section \<open>Dispatch\<close>

text \<open>
  Calling a method with \<open>**kwargs\<close>: every given name must be a parameter, and a parameter without
  default must be given. The values come back in the order of the parameters.
\<close>

definition bind_args :: "(string \<times> value option) list \<Rightarrow> kwargs \<Rightarrow> exn + value list" where
  "bind_args params kw =
     (if \<not> set (dict_keys kw) \<subseteq> fst ` set params then Inl (TypeError ''unexpected keyword argument'')
      else if \<exists>(p, dflt) \<in> set params. dflt = None \<and> dict_get kw p = None
        then Inl (TypeError ''missing required argument'')
      else Inr (map (\<lambda>(p, dflt). case dict_get kw p of Some v \<Rightarrow> v
                                 | None \<Rightarrow> (case dflt of Some v \<Rightarrow> v | None \<Rightarrow> JNull)) params))"

definition method_params :: "string \<Rightarrow> (string \<times> value option) list option" where
  "method_params t =
     (if t = ''changecontent'' \<or> t = ''get_diagnostics'' \<or> t = ''extract_declarations''
        then Some [(''text'', None), (''content_range'', None)]
      else if t = ''get_proof_goal''
        then Some [(''text'', None), (''content_range'', None), (''position'', None)]
      else if t = ''search_declarations''
        then Some [(''text'', None), (''query'', None), (''max_results'', Some (JInt 8)),
                   (''fuzzy'', Some (JBool False)), (''content_range'', Some JNull)]
      else if t = ''declaration_axioms''
        then Some [(''text'', None), (''declaration_name'', None), (''content_range'', Some JNull)]
      else if t = ''echo'' then Some [(''message'', None)]
      else if dict_get plain_rpcs t \<noteq> None then Some []
      else None)"

text \<open>Apply the method called \<open>t\<close> to its arguments, given in the order of its parameters.\<close>

definition apply_method :: "(string \<Rightarrow> value option) \<Rightarrow> string \<Rightarrow> value list \<Rightarrow> value wop" where
  "apply_method jl t args =
     (if t = ''changecontent'' \<or> t = ''get_diagnostics'' then get_diagnostics (args ! 0) (args ! 1)
      else if t = ''extract_declarations'' then extract_declarations jl (args ! 0) (args ! 1)
      else if t = ''get_proof_goal'' then get_proof_goal (args ! 0) (args ! 1) (args ! 2)
      else if t = ''search_declarations''
        then search_declarations jl (args ! 0) (args ! 1) (args ! 2) (args ! 3) (args ! 4)
      else if t = ''declaration_axioms'' then declaration_axioms jl (args ! 0) (args ! 1) (args ! 2)
      else if t = ''echo'' then echo jl (args ! 0)
      else (case dict_get plain_rpcs t of
              Some m \<Rightarrow> submit_rpc jl zero_pos m (JObj [])
            | None \<Rightarrow> (\<lambda>st. (st, Inl (KeyError t)))))"

definition process_task :: "(string \<Rightarrow> value option) \<Rightarrow> string \<Rightarrow> kwargs \<Rightarrow> value wop" where
  "process_task jl t kw = (\<lambda>st.
     case method_params t of
       None \<Rightarrow> (st, Inl (KeyError t))
     | Some params \<Rightarrow>
         (case bind_args params kw of
            Inl e \<Rightarrow> (st, Inl e)
          | Inr args \<Rightarrow> apply_method jl t args st))"

section \<open>The thread loop\<close>

datatype begun = Waiting | Stopped | Begun task nat

definition task_event ::
  "observer \<Rightarrow> worker \<Rightarrow> task \<Rightarrow> string \<Rightarrow> string option \<Rightarrow> (string, value) dict \<Rightarrow> event" where
  "task_event obs w t kind outcome details =
     (new_event kind details)\<lparr>
        ev_request_id := t_request_id t, ev_task_id := t_task_id t, ev_task_type := Some (t_type t),
        ev_worker_id := Some (worker_id w), ev_document_uri := Some (doc_uri (w_doc w)),
        ev_source_fp := source_fingerprint obs (t_kwargs t), ev_environment_fp := env_fp obs (t_kwargs t),
        ev_runtime_fp := runtime_fp obs, ev_outcome := outcome\<rparr>"

definition run_begin :: "observer \<Rightarrow> real \<Rightarrow> worker \<Rightarrow> io \<Rightarrow> worker \<times> io \<times> begun" where
  "run_begin obs now w io =
     (case q_get (task_queue w) of
        None \<Rightarrow> (w, io, Waiting)
      | Some (None, q) \<Rightarrow> (w\<lparr>task_queue := q, exited := True\<rparr>, io, Stopped)
      | Some (Some t, q) \<Rightarrow>
          (let (io1, gen) = task_started (worker_id w) now io;
               w1 = w\<lparr>task_queue := q, current_task := Some t, task_started_at := Some now\<rparr>
           in (w1,
               emit (task_event obs w1 t ''task_started'' None
                 [(''document_version_before'', JInt (version (w_doc w1))), (''context'', JObj (t_context t))]) io1,
               Begun t gen)))"

definition duration_ms :: "real \<Rightarrow> worker \<Rightarrow> value" where
  "duration_ms now w =
     JReal (round3 ((now - (case task_started_at w of Some t \<Rightarrow> t | None \<Rightarrow> 0)) * 1000))"

text \<open>\<open>len\<close> of the diagnostics that a result carries; \<open>None\<close> when it raises.\<close>

definition json_len :: "value \<Rightarrow> int option" where
  "json_len v = (case v of JStr s \<Rightarrow> Some (int (length s)) | JArr xs \<Rightarrow> Some (int (length xs))
     | JObj d \<Rightarrow> Some (int (length d)) | _ \<Rightarrow> None)"

definition diagnostic_count :: "string \<Rightarrow> value \<Rightarrow> int option" where
  "diagnostic_count ttype result =
     (case result of
        JObj d \<Rightarrow> json_len (case dict_get d ''diagnostics'' of Some v \<Rightarrow> v | None \<Rightarrow> JArr [])
      | JArr xs \<Rightarrow> if ttype = ''changecontent'' \<or> ttype = ''get_diagnostics'' then json_len result else Some 0
      | _ \<Rightarrow> Some 0)"

fun drain_queue :: "task option list \<Rightarrow> io \<Rightarrow> io" where
  "drain_queue [] io = io"
| "drain_queue (None # ts) io = drain_queue ts io"
| "drain_queue (Some t # ts) io = drain_queue ts (answer (t_result_q t) (Failed ServiceUnavailable False None) io)"

definition on_service_unavailable :: "worker \<Rightarrow> io \<Rightarrow> worker \<times> io" where
  "on_service_unavailable w io =
     (let io1 = (case current_task w of
                   Some t \<Rightarrow> answer (t_result_q t) (Failed ServiceUnavailable (t_culprit t) (t_culprit_reason t)) io
                 | None \<Rightarrow> io)
      in (w\<lparr>task_queue := []\<rparr>, drain_queue (task_queue w) io1))"

definition task_failed :: "observer \<Rightarrow> real \<Rightarrow> task \<Rightarrow> exn \<Rightarrow> worker \<Rightarrow> io \<Rightarrow> io" where
  "task_failed obs now t e w io =
     emit (task_event obs w t ''task_failed'' (Some ''error'')
       [(''duration_ms'', duration_ms now w), (''error_type'', JStr (exn_name e)), (''error'', JStr (str_of obs e)),
        (''context'', JObj (t_context t))])
       (answer (t_result_q t) (Failed e False None) io)"

text \<open>
  The success branch can itself end in the \<open>except\<close> clause: \<open>result_q.put\<close> on a task without a
  queue, and \<open>len\<close> of diagnostics that have none, after the answer was already put.
\<close>

definition task_succeeded :: "observer \<Rightarrow> real \<Rightarrow> task \<Rightarrow> value \<Rightarrow> worker \<Rightarrow> io \<Rightarrow> io" where
  "task_succeeded obs now t result w io =
     (case t_result_q t of
        None \<Rightarrow> task_failed obs now t (AttributeError ''put'') w io
      | Some q \<Rightarrow>
          (let io1 = answer (Some q) (Ok result) io
           in case diagnostic_count (t_type t) result of
                None \<Rightarrow> task_failed obs now t (TypeError ''object has no len()'') w io1
              | Some n \<Rightarrow>
                  emit (task_event obs w t ''task_succeeded'' (Some ''success'')
                    [(''duration_ms'', duration_ms now w), (''document_version_after'', JInt (version (w_doc w))),
                     (''diagnostic_count'', JInt n), (''result_fingerprint'', JStr (fp_value obs result)),
                     (''context'', JObj (t_context t))]) io1))"

definition task_interrupted :: "observer \<Rightarrow> real \<Rightarrow> task \<Rightarrow> worker \<Rightarrow> io \<Rightarrow> io" where
  "task_interrupted obs now t w io =
     emit (task_event obs w t ''task_interrupted'' (Some ''infrastructure_error'')
       [(''duration_ms'', duration_ms now w), (''toxic'', JBool (t_culprit t)),
        (''reason'', json_opt (t_culprit_reason t)), (''context'', JObj (t_context t))]) io"

text \<open>The \<open>finally\<close> clause of an iteration.\<close>

definition end_task :: "nat \<Rightarrow> worker \<Rightarrow> io \<Rightarrow> worker \<times> io" where
  "end_task gen w io =
     (w\<lparr>current_task := None, task_started_at := None\<rparr>, task_finished (worker_id w) gen io)"

definition run_finish :: "observer \<Rightarrow> real \<Rightarrow> nat \<Rightarrow> exn + value \<Rightarrow> worker \<Rightarrow> io \<Rightarrow> worker \<times> io" where
  "run_finish obs now gen r w io =
     (case current_task w of
        None \<Rightarrow> (w, io)
      | Some t \<Rightarrow>
          (case r of
             Inr result \<Rightarrow> end_task gen w (task_succeeded obs now t result w io)
           | Inl e \<Rightarrow>
               if e = ServiceUnavailable
               then (let (w1, io1) = on_service_unavailable w (task_interrupted obs now t w io)
                     in end_task gen (w1\<lparr>exited := True\<rparr>) io1)
               else if is_Exception e \<or> (\<exists>m. e = LeanTaskTimeout m)
               then end_task gen w (task_failed obs now t e w io)
               else end_task gen (w\<lparr>exited := True\<rparr>) io))"

text \<open>An undisturbed iteration.\<close>

definition run_iteration ::
  "(string \<Rightarrow> value option) \<Rightarrow> observer \<Rightarrow> real \<Rightarrow> real \<Rightarrow> worker \<Rightarrow> client \<Rightarrow> io \<Rightarrow> worker \<times> client \<times> io" where
  "run_iteration jl obs t0 t1 w c io =
     (case run_begin obs t0 w io of
        (w1, io1, Begun t gen) \<Rightarrow>
          (let ((w2, c2), r) = process_task jl (t_type t) (t_kwargs t) (w1, c);
               (w3, io3) = run_finish obs t1 gen r w2 io1
           in (w3, c2, io3))
      | (w1, io1, _) \<Rightarrow> (w1, c, io1))"

section \<open>What an operation may do\<close>

text \<open>
  An exception is catchable if the thread loop survives it or handles it. Operations leave the thread
  state alone and, as long as the writes to the server raise nothing worse, end in catchable exceptions.
\<close>

definition catchable :: "exn \<Rightarrow> bool" where
  "catchable e \<longleftrightarrow> is_Exception e \<or> (\<exists>m. e = LeanTaskTimeout m)"

definition faults_ok :: "exn option list \<Rightarrow> bool" where
  "faults_ok fs \<longleftrightarrow> (\<forall>e. Some e \<in> set fs \<longrightarrow> is_Exception e)"

definition same_thread :: "worker \<Rightarrow> worker \<Rightarrow> bool" where
  "same_thread w w' \<longleftrightarrow> worker_id w' = worker_id w \<and> task_queue w' = task_queue w
     \<and> current_task w' = current_task w \<and> task_started_at w' = task_started_at w
     \<and> ready w' = ready w \<and> exited w' = exited w"

definition sound_op :: "'a wop \<Rightarrow> bool" where
  "sound_op f \<longleftrightarrow> (\<forall>w c w' c' r. f (w, c) = ((w', c'), r) \<longrightarrow>
      same_thread w w' \<and> (faults_ok (faults c) \<longrightarrow> faults_ok (faults c') \<and> (\<forall>e. r = Inl e \<longrightarrow> catchable e)))"

lemma catchable_simps [simp]:
  "is_Exception e \<Longrightarrow> catchable e" "catchable (LeanTaskTimeout m)" "\<not> catchable (LeanTimeoutExhausted m)"
  by (simp_all add: catchable_def)

lemma faults_ok_simps [simp]:
  "faults_ok []" "faults_ok (None # fs) = faults_ok fs" "faults_ok (Some e # fs) \<longleftrightarrow> is_Exception e \<and> faults_ok fs"
  by (auto simp: faults_ok_def)

lemma same_thread_refl [simp]: "same_thread w w"
  by (simp add: same_thread_def)

lemma same_thread_trans: "same_thread w1 w2 \<Longrightarrow> same_thread w2 w3 \<Longrightarrow> same_thread w1 w3"
  by (simp add: same_thread_def)

lemma sound_opD:
  assumes "sound_op f" and "f (w, c) = ((w', c'), r)"
  shows "same_thread w w'" and "faults_ok (faults c) \<Longrightarrow> faults_ok (faults c')"
    and "faults_ok (faults c) \<Longrightarrow> r = Inl e \<Longrightarrow> catchable e"
  using assms unfolding sound_op_def by blast+

lemma sound_return: "sound_op (return_op x)"
  by (auto simp: sound_op_def return_op_def)

lemma sound_raise: "catchable e \<Longrightarrow> sound_op (\<lambda>st. (st, Inl e))"
  by (auto simp: sound_op_def)

lemma sound_bind:
  assumes "sound_op f" and "\<And>x. sound_op (g x)"
  shows "sound_op (bind_op f g)"
  unfolding sound_op_def
proof (intro allI impI)
  fix w c w' c' r
  assume e: "bind_op f g (w, c) = ((w', c'), r)"
  obtain w1 c1 r1 where f: "f (w, c) = ((w1, c1), r1)" by (metis prod.exhaust)
  note F = sound_opD [OF assms(1) f]
  show "same_thread w w' \<and> (faults_ok (faults c) \<longrightarrow> faults_ok (faults c') \<and> (\<forall>e. r = Inl e \<longrightarrow> catchable e))"
  proof (cases r1)
    case (Inl x)
    with e f have "w' = w1" "c' = c1" "r = Inl x" by (simp_all add: bind_op_def)
    with F Inl show ?thesis by auto
  next
    case (Inr x)
    with e f have "g x (w1, c1) = ((w', c'), r)" by (simp add: bind_op_def)
    note G = sound_opD [OF assms(2) this]
    from F G Inr show ?thesis using same_thread_trans by blast
  qed
qed

lemma sound_state_bind: "(\<And>st. sound_op (g st)) \<Longrightarrow> sound_op (\<lambda>st. g st st)"
  unfolding sound_op_def by blast

text \<open>Document operations under the same contract.\<close>

definition sound_doc :: "(doc \<Rightarrow> doc \<times> (exn + 'a)) \<Rightarrow> bool" where
  "sound_doc f \<longleftrightarrow> (\<forall>d. faults_ok (write_faults d) \<longrightarrow>
      faults_ok (write_faults (fst (f d))) \<and> (\<forall>e. snd (f d) = Inl e \<longrightarrow> catchable e))"

lemma sound_on_doc: "sound_doc f \<Longrightarrow> sound_op (on_doc f)"
  unfolding sound_op_def
proof (intro allI impI)
  fix w c w' c' r
  assume f: "sound_doc f" and e: "on_doc f (w, c) = ((w', c'), r)"
  let ?d = "(w_doc w)\<lparr>write_faults := if process_up c then faults c else [no_process, no_process]\<rparr>"
  obtain d' r' where d': "f ?d = (d', r')" by fastforce
  have "faults_ok (faults c) \<Longrightarrow> faults_ok (write_faults ?d)"
    by (simp add: no_process_def)
  with f d' have "faults_ok (faults c) \<longrightarrow> faults_ok (write_faults d') \<and> (\<forall>e. r' = Inl e \<longrightarrow> catchable e)"
    unfolding sound_doc_def by (metis fst_conv snd_conv)
  with e d' show "same_thread w w' \<and> (faults_ok (faults c) \<longrightarrow> faults_ok (faults c') \<and> (\<forall>e. r = Inl e \<longrightarrow> catchable e))"
    by (auto simp: on_doc_def Let_def same_thread_def)
qed

lemma doc_notify_sound:
  assumes "doc_notify m p d = (d', r)" and "faults_ok (write_faults d)"
  shows "faults_ok (write_faults d')" and "r = Inl e \<Longrightarrow> is_Exception e"
  using assms by (auto simp: doc_notify_def split: list.splits option.splits)

lemma cancel_change_sound:
  assumes "cancel_change rng timeout d = (d', r)" and "faults_ok (write_faults d)"
  shows "faults_ok (write_faults d')" and "r = Inl e \<Longrightarrow> catchable e"
  using assms doc_notify_sound
  by (auto simp: cancel_change_def get_next_version_def elaboration_timeout_def split: prod.splits sum.splits if_splits)

lemma didchange_sound: "sound_doc (didchange t rng timeout)"
  unfolding sound_doc_def
proof (intro allI impI)
  fix d :: doc
  assume ok: "faults_ok (write_faults d)"
  define rg where "rg = (if rng = JObj [] then full_range else rng)"
  obtain d2 w where w: "doc_notify ''textDocument/didChange'' (change_params (doc_uri d) (version d + 1) rg t)
      (d\<lparr>version := version d + 1\<rparr>) = (d2, w)" by fastforce
  from doc_notify_sound [OF w] ok have d2: "faults_ok (write_faults d2)" "\<And>e. w = Inl e \<Longrightarrow> is_Exception e" by auto
  obtain en u rest where en: "change_loop (clock d2 + timeout) (version d + 1) 0 None (clock d2) (inbox d2) = (en, u, rest)"
    by (metis prod_cases3)
  obtain d3 q where c: "cancel_change rg timeout (d2\<lparr>clock := u, inbox := rest\<rparr>) = (d3, q)" by fastforce
  from cancel_change_sound [OF c] d2(1) have d3: "faults_ok (write_faults d3)" "\<And>e. q = Inl e \<Longrightarrow> catchable e" by auto
  have "\<And>e. en = Raised e \<Longrightarrow> is_Exception e" using change_loop_raised en by blast
  then show "faults_ok (write_faults (fst (didchange t rng timeout d)))
      \<and> (\<forall>e. snd (didchange t rng timeout d) = Inl e \<longrightarrow> catchable e)"
    using w en c d2 d3
    by (simp add: didchange_def Let_def get_next_version_def rg_def [symmetric] split: sum.split change_end.split)
qed

lemma send_message_sound:
  assumes "send_message m c = (c', r)" and "faults_ok (faults c)"
  shows "faults_ok (faults c')" and "r = Inl e \<Longrightarrow> is_Exception e"
  using assms by (auto simp: send_message_def split: list.splits option.splits if_splits)

lemma await_reply_faults: "await_reply c = (c', r) \<Longrightarrow> faults c' = faults c"
  by (auto simp: await_reply_def split: list.splits)

lemma request_sound:
  assumes "request meth params i c = (c', r)" and "faults_ok (faults c)"
  shows "faults_ok (faults c')" and "r = Inl e \<Longrightarrow> is_Exception e"
proof -
  obtain c2 s where s: "send_message (Request i meth params) (register_pending i (snd (fresh_queue c)) (fst (fresh_queue c))) = (c2, s)"
    by fastforce
  have "faults_ok (faults (register_pending i (snd (fresh_queue c)) (fst (fresh_queue c))))"
    using assms(2) by (simp add: register_pending_def fresh_queue_def)
  note S = send_message_sound [OF s this]
  obtain c3 w where w: "await_reply c2 = (c3, w)" by fastforce
  show "faults_ok (faults c')" and "r = Inl e \<Longrightarrow> is_Exception e"
    using assms(1) s S w await_reply_faults [OF w]
    by (auto simp: request_def Let_def drop_pending_def split: prod.splits sum.splits option.splits reply.splits)
qed

lemma sound_submit_lsp: "sound_op (submit_lsp meth params)"
  unfolding sound_op_def submit_lsp_def
  by (auto split: prod.splits dest: request_sound)

lemma connect_sound:
  assumes "connect_session s c = (c', r)" and "faults_ok (faults c)"
  shows "faults_ok (faults c')" and "r = Inl e \<Longrightarrow> is_Exception e"
proof -
  obtain c2 q where q: "request ''$/lean/rpc/connect'' (JObj [(''uri'', JStr (s_uri s))]) (message_id c + 1)
      (c\<lparr>message_id := message_id c + 1\<rparr>) = (c2, q)" by fastforce
  note Q = request_sound [OF q]
  show "faults_ok (faults c')" and "r = Inl e \<Longrightarrow> is_Exception e"
    using assms q Q
    by (auto simp: connect_session_def next_id_def read_errors split: sum.splits json.splits option.splits)
qed

lemma establish_sound:
  assumes "establish s c = (s', c', r)" and "faults_ok (faults c)"
  shows "faults_ok (faults c')" and "r = Inl e \<Longrightarrow> is_Exception e"
  using assms connect_sound by (auto simp: establish_def split: prod.splits sum.splits)

lemma ensure_connected_sound:
  assumes "ensure_connected s c = (s', c', r)" and "faults_ok (faults c)"
  shows "faults_ok (faults c')" and "r = Inl e \<Longrightarrow> is_Exception e"
  using assms establish_sound by (auto simp: ensure_connected_def split: if_splits)

lemma rpc_call_once_sound:
  assumes "rpc_call_once jl meth params pos timeout now s c = (s', c', r)" and "faults_ok (faults c)"
  shows "faults_ok (faults c')" and "r = Inl e \<Longrightarrow> is_Exception e"
proof -
  have "faults_ok (faults c') \<and> (\<forall>e. r = Inl e \<longrightarrow> is_Exception e)"
  proof (cases "session_id s")
    case None
    with assms show ?thesis by (auto simp: rpc_call_once_def)
  next
    case (Some sid)
    let ?c = "register_pending (message_id c + 1) (next_queue c)
                (fst (fresh_queue (c\<lparr>message_id := message_id c + 1\<rparr>)))"
    obtain c3 w where s: "send_message (RpcCall (message_id c + 1) (s_uri s) pos sid meth params) ?c = (c3, w)"
      by fastforce
    have "faults_ok (faults ?c)" using assms(2) by (simp add: register_pending_def fresh_queue_def)
    note S = send_message_sound [OF s this]
    obtain c5 q where q: "await_reply c3 = (c5, q)" by fastforce
    show ?thesis
      using assms(1) Some s S q await_reply_faults [OF q]
      by (auto simp: rpc_call_once_def next_id_def fresh_queue_def Let_def drop_pending_def
          raised_by_rpc_error_Exception split: sum.splits option.splits reply.splits)
  qed
  then show "faults_ok (faults c')" and "r = Inl e \<Longrightarrow> is_Exception e" by blast+
qed

lemma rpc_call_sound:
  assumes "rpc_call jl meth params pos timeout retry now s c = (s', c', r)" and "faults_ok (faults c)"
  shows "faults_ok (faults c')" and "r = Inl e \<Longrightarrow> is_Exception e"
proof -
  have "faults_ok (faults c') \<and> (\<forall>e. r = Inl e \<longrightarrow> is_Exception e)"
  proof (cases pos)
    case None
    with assms show ?thesis by (auto simp: rpc_call_def)
  next
    case (Some p)
    obtain s1 c1 r1 where 1: "ensure_connected s c = (s1, c1, r1)" by (metis prod_cases3)
    note E = ensure_connected_sound [OF 1 assms(2)]
    obtain s2 c2 r2 where 2: "rpc_call_once jl meth params p timeout now s1 c1 = (s2, c2, r2)" by (metis prod_cases3)
    note O = rpc_call_once_sound [OF 2 E(1)]
    obtain s3 c3 r3 where 3: "reconnect (invalidate s2) c2 = (s3, c3, r3)" by (metis prod_cases3)
    note R = establish_sound [OF 3 [unfolded reconnect_def] O(1)]
    obtain s4 c4 r4 where 4: "rpc_call_once jl meth params p timeout now s3 c3 = (s4, c4, r4)" by (metis prod_cases3)
    note L = rpc_call_once_sound [OF 4 R(1)]
    from assms(1) Some 1 2 3 4 E O R L show ?thesis
      by (auto simp: rpc_call_def split: sum.splits if_splits)
  qed
  then show "faults_ok (faults c')" and "r = Inl e \<Longrightarrow> is_Exception e" by blast+
qed

lemma sound_submit_rpc: "sound_op (submit_rpc jl pos meth params)"
  unfolding sound_op_def submit_rpc_def
  by (auto simp: same_thread_def split: prod.splits dest: rpc_call_sound)

lemma sound_change: "sound_op (change t rng)"
  unfolding change_def by (rule sound_on_doc [OF didchange_sound])

lemma sound_change_then_rpc: "sound_op (change_then_rpc jl t rng meth params)"
  unfolding change_then_rpc_def
  by (intro sound_bind sound_change sound_submit_rpc sound_return)

lemma sound_get_proof_goal: "sound_op (get_proof_goal t rng pos)"
  unfolding get_proof_goal_def
  by (rule sound_bind [OF sound_change], rule sound_state_bind, rule sound_bind [OF sound_submit_lsp],
      rule sound_return)

lemma sound_echo: "sound_op (echo jl m)"
  unfolding echo_def by (rule sound_state_bind) (rule sound_submit_rpc)

lemma sound_get_diagnostics: "sound_op (get_diagnostics t rng)"
  unfolding get_diagnostics_def by (intro sound_bind sound_change sound_return)

lemma sound_declarations:
  "sound_op (extract_declarations jl t rng)" "sound_op (search_declarations jl t query n fuzzy rng)"
  "sound_op (declaration_axioms jl t name rng)"
  unfolding extract_declarations_def search_declarations_def declaration_axioms_def
  by (rule sound_change_then_rpc)+

lemmas sound_methods = sound_get_diagnostics sound_declarations sound_get_proof_goal sound_echo sound_submit_rpc

lemma sound_apply_method: "sound_op (apply_method jl t args)"
  unfolding apply_method_def by (simp add: sound_methods sound_raise split: option.split)

lemma sound_process_task: "sound_op (process_task jl t kw)"
proof (cases "method_params t")
  case None
  then show ?thesis by (simp add: process_task_def sound_raise)
next
  case (Some params)
  show ?thesis
  proof (cases "bind_args params kw")
    case (Inl e)
    then have "is_Exception e" by (auto simp: bind_args_def split: if_splits)
    with Some Inl show ?thesis by (simp add: process_task_def sound_raise)
  next
    case (Inr args)
    with Some show ?thesis by (simp add: process_task_def sound_apply_method)
  qed
qed

section \<open>Answers\<close>

text \<open>A task type whose results the worker builds itself, on the diagnostics of its own update.\<close>

definition document_task :: "string \<Rightarrow> bool" where
  "document_task t \<longleftrightarrow> t \<in> {''changecontent'', ''get_diagnostics'', ''extract_declarations'', ''search_declarations'',
     ''declaration_axioms'', ''get_proof_goal''}"

lemma bind_op_Inr:
  assumes "bind_op f g st = (st', Inr y)"
  obtains st1 x where "f st = (st1, Inr x)" "g x st1 = (st', Inr y)"
  using assms by (auto simp: bind_op_def split: prod.splits sum.splits)

lemma attach_diagnostics_count: "diagnostic_count t (attach_diagnostics ds v) \<noteq> None"
  by (simp add: attach_diagnostics_def diagnostic_count_def json_len_def dict_simps split: json.split)

lemma change_then_rpc_count:
  "change_then_rpc jl t rng m ps st = (st', Inr v) \<Longrightarrow> diagnostic_count tt v \<noteq> None"
  unfolding change_then_rpc_def
  by (elim bind_op_Inr) (use attach_diagnostics_count in \<open>auto simp: return_op_def\<close>)

lemma get_proof_goal_count: "get_proof_goal t rng pos st = (st', Inr v) \<Longrightarrow> diagnostic_count tt v \<noteq> None"
  unfolding get_proof_goal_def
  by (elim bind_op_Inr) (auto simp: return_op_def diagnostic_count_def json_len_def)

lemma get_diagnostics_count: "get_diagnostics t rng st = (st', Inr v) \<Longrightarrow> diagnostic_count tt v \<noteq> None"
  unfolding get_diagnostics_def
  by (elim bind_op_Inr) (auto simp: return_op_def diagnostic_count_def json_len_def)

lemma document_task_count:
  assumes "process_task jl t kw st = (st', Inr v)" and "document_task t"
  shows "diagnostic_count t v \<noteq> None"
proof -
  from assms(1) obtain args where "apply_method jl t args st = (st', Inr v)"
    by (auto simp: process_task_def split: option.splits sum.splits)
  with assms(2) show ?thesis
    by (auto simp: document_task_def apply_method_def extract_declarations_def search_declarations_def
        declaration_axioms_def
        intro: change_then_rpc_count [simplified] get_proof_goal_count [simplified] get_diagnostics_count [simplified])
qed

text \<open>An outcome after which the loop answers once and goes on.\<close>

definition answerable :: "string \<Rightarrow> exn + value \<Rightarrow> bool" where
  "answerable t r \<longleftrightarrow> r \<noteq> Inl ServiceUnavailable \<and>
     (case r of Inr v \<Rightarrow> diagnostic_count t v \<noteq> None | Inl e \<Rightarrow> catchable e)"

definition response_of :: "exn + value \<Rightarrow> response" where
  "response_of r = (case r of Inr v \<Rightarrow> Ok v | Inl e \<Rightarrow> Failed e False None)"

definition queued :: "worker \<Rightarrow> task list" where
  "queued w = List.map_filter id (task_queue w)"

lemma drain_queue_frame [frame_simps]:
  "answers (drain_queue ts io) = answers io
     @ rq_answers (map (\<lambda>t. (t_result_q t, Failed ServiceUnavailable False None)) (List.map_filter id ts))"
  "commands (drain_queue ts io) = commands io" "monitor_up (drain_queue ts io) = monitor_up io"
  "generation (drain_queue ts io) = generation io"
  by (induction ts io rule: drain_queue.induct) (auto simp: frame_simps List.map_filter_simps split: option.split)

lemma outcome_frame [frame_simps]:
  "commands (task_failed obs now t e w io) = commands io"
  "monitor_up (task_failed obs now t e w io) = monitor_up io"
  "generation (task_failed obs now t e w io) = generation io"
  "commands (task_succeeded obs now t v w io) = commands io"
  "monitor_up (task_succeeded obs now t v w io) = monitor_up io"
  "generation (task_succeeded obs now t v w io) = generation io"
  "commands (task_interrupted obs now t w io) = commands io"
  "monitor_up (task_interrupted obs now t w io) = monitor_up io"
  "generation (task_interrupted obs now t w io) = generation io"
  "answers (task_interrupted obs now t w io) = answers io"
  "answers (task_failed obs now t e w io) = answers io @ rq_answers [(t_result_q t, Failed e False None)]"
  by (simp_all add: task_failed_def task_succeeded_def task_interrupted_def frame_simps Let_def split: option.split)

lemma task_succeeded_answers:
  "t_result_q t = Some q \<Longrightarrow> answers (task_succeeded obs now t v w io) = answers io @ (q, Ok v) #
     (if diagnostic_count (t_type t) v = None then [(q, Failed (TypeError ''object has no len()'') False None)] else [])"
  by (auto simp: task_succeeded_def frame_simps Let_def split: option.split)

lemma run_finish_answerable:
  assumes "current_task w = Some t" and "answerable (t_type t) r" and "t_result_q t = Some q"
  shows "answers (snd (run_finish obs now gen r w io)) = answers io @ [(q, response_of r)]"
    and "fst (run_finish obs now gen r w io) = w\<lparr>current_task := None, task_started_at := None\<rparr>"
  using assms
  by (auto simp: run_finish_def end_task_def answerable_def response_of_def task_finished_def frame_simps
      task_succeeded_answers catchable_def split: sum.split)

text \<open>
  C11: One task, one answer. Whatever the server does during a document task, short of a poison message,
  the worker puts exactly one response on the task's result queue, the one that belongs to the outcome, is
  free for the next task and has not exited. The queue is as it was when the task ended.
\<close>
theorem task_answered_exactly_once:
  assumes "process_task jl (t_type t) (t_kwargs t) (w, c) = ((w', c'), r)"
    and "current_task w = Some t" and "t_result_q t = Some q" and "document_task (t_type t)"
    and "faults_ok (faults c)" and "r \<noteq> Inl ServiceUnavailable"
    and "run_finish obs now gen r w' io = (w2, io2)"
  shows "answers io2 = answers io @ [(q, response_of r)] \<and> current_task w2 = None
    \<and> exited w2 = exited w \<and> task_queue w2 = task_queue w"
proof -
  note S = sound_opD [OF sound_process_task assms(1)]
  have "answerable (t_type t) r"
    using assms(1,4,6) S(3) [OF assms(5)] document_task_count by (auto simp: answerable_def split: sum.split)
  moreover have "current_task w' = Some t" using S(1) assms(2) by (simp add: same_thread_def)
  ultimately have "answers io2 = answers io @ [(q, response_of r)]"
    and "w2 = w'\<lparr>current_task := None, task_started_at := None\<rparr>"
    using run_finish_answerable [of w' t r q obs now gen io] assms(3,7) by simp_all
  then show ?thesis using S(1) by (simp add: same_thread_def)
qed

text \<open>
  C12: A poisoned worker leaves nobody waiting. The task it was working on is answered with its own culprit
  mark and reason, every queued task is answered, in order, as innocent, the queue is empty and the
  thread ends.
\<close>
theorem poisoned_worker_answers_everyone:
  assumes "current_task w = Some t" and "run_finish obs now gen (Inl ServiceUnavailable) w io = (w', io')"
  shows "answers io' = answers io @ rq_answers
      ((t_result_q t, Failed ServiceUnavailable (t_culprit t) (t_culprit_reason t))
       # map (\<lambda>t'. (t_result_q t', Failed ServiceUnavailable False None)) (queued w))
    \<and> task_queue w' = [] \<and> exited w' \<and> current_task w' = None"
  using assms
  by (auto simp: run_finish_def end_task_def on_service_unavailable_def task_finished_def queued_def frame_simps
      split: option.split)

text \<open>
  The monitor's view of a worker is balanced. The start of a task is reported under the current
  generation and its end, whatever the outcome, once and under the same generation, even when the server
  was replaced in between, so that the end of an old task never closes a new one.
\<close>
theorem task_reports_balanced:
  assumes "run_begin obs t0 w io = (w1, io1, Begun t gen)"
    and "current_task w2 = Some t" and "worker_id w2 = worker_id w" and "monitor_up io" and "monitor_up io2"
    and "run_finish obs t1 gen r w2 io2 = (w3, io3)"
  shows "commands io1 = commands io @ [CTaskStarted (generation io) (worker_id w) t0]
    \<and> commands io3 = commands io2 @ [CTaskFinished (generation io) (worker_id w)]"
  using assms
  by (auto simp: run_begin_def run_finish_def end_task_def task_started_def task_finished_def
      on_service_unavailable_def frame_simps Let_def split: option.splits prod.splits if_splits sum.splits)

text \<open>
  The diagnostics that come with extracted declarations are those of the same update: they are what
  \<open>_didchange\<close> returned for this text just before the declarations were requested.
\<close>
theorem declarations_carry_own_diagnostics:
  assumes "extract_declarations jl text rng (w, c) = (st', Inr (JObj d))"
  shows "\<exists>ds st1. change text rng (w, c) = (st1, Inr ds) \<and> dict_get d ''diagnostics'' = Some (JArr ds)"
proof -
  from assms obtain ds st1 v where "change text rng (w, c) = (st1, Inr ds)" "attach_diagnostics ds v = JObj d"
    unfolding extract_declarations_def change_then_rpc_def
    by (elim bind_op_Inr) (metis (no_types, lifting) return_op_def prod.inject sum.inject(2))
  then show ?thesis by (auto simp: attach_diagnostics_def dict_simps split: json.splits)
qed

section \<open>A worker at work\<close>

definition demo_kwargs :: kwargs where
  "demo_kwargs = [(''text'', JStr ''t''), (''content_range'', JObj [])]"

definition demo_task :: "string \<Rightarrow> nat \<Rightarrow> task" where
  "demo_task ttype q = \<lparr>t_type = ttype, t_result_q = Some q, t_kwargs = demo_kwargs, t_request_id = None,
     t_task_id = None, t_context = [], t_culprit = False, t_culprit_reason = None\<rparr>"

definition demo_worker :: worker where
  "demo_worker = \<lparr>worker_id = 1, w_doc = demo_doc, w_rpc = demo_session, task_queue = [Some (demo_task ''ping'' 8), None],
     current_task = Some (demo_task ''extract_declarations'' 7), task_started_at = Some 0, ready = True, exited = False\<rparr>"

definition demo_server :: client where
  "demo_server = demo_client\<lparr>waits := [Some (Response (JObj [(''result'', JObj [(''success'', JBool True)])]))]\<rparr>"

definition demo_observer :: observer where
  "demo_observer = \<lparr>fp_text = id, fp_value = (\<lambda>v. ''v''), env_fp = (\<lambda>kw. None), runtime_fp = None, str_of = exn_name\<rparr>"

definition demo_io :: io where
  "demo_io = \<lparr>sink_on = True, events = [], answers = [], generation = 3, monitor_up = True, commands = []\<rparr>"

definition demo_state :: "worker \<times> client" where
  "demo_state = (demo_worker\<lparr>w_doc := demo_doc\<lparr>version := 7, clock := 6, inbox := [],
       outbox := [(''textDocument/didChange'', change_params ''u'' 7 full_range (JStr ''t''))]\<rparr>\<rparr>,
     demo_server\<lparr>sent := [Notification ''textDocument/didChange'' (change_params ''u'' 7 full_range (JStr ''t''))]\<rparr>)"

lemma demo_update: "change (JStr ''t'') (JObj []) (demo_worker, demo_server) = (demo_state, Inr [diag_msg 2])"
  by (simp add: change_def on_doc_def didchange_def demo_doc_def get_next_version_def doc_notify_def message_defs
      queue_empty_at_def valid_diagnostics_def severity_kept_def demo_worker_def demo_server_def demo_client_def
      demo_state_def)

definition demo_result :: "value" where
  "demo_result = JObj [(''success'', JBool True), (''diagnostics'', JArr [diag_msg 2])]"

lemma demo_rpc:
  "snd (submit_rpc jl zero_pos m (JObj []) demo_state) = Inr (JObj [(''success'', JBool True)])"
  by (simp add: submit_rpc_def demo_state_def demo_worker_def demo_server_def demo_client_def demo_session_def
      rpc_call_def ensure_connected_def rpc_call_once_def next_id_def fresh_queue_def register_pending_def
      drop_pending_def send_message_def await_reply_def response_error_def response_result_def decode_result_def)

lemma demo_extract:
  "snd (extract_declarations (\<lambda>_. None) (JStr ''t'') (JObj []) (demo_worker, demo_server)) = Inr demo_result"
proof -
  obtain st r where "submit_rpc (\<lambda>_. None) zero_pos ''LeanLspExtension.extractDeclarations'' (JObj []) demo_state = (st, r)"
    by fastforce
  then show ?thesis
    using demo_rpc [of "\<lambda>_. None" "''LeanLspExtension.extractDeclarations''"]
    by (simp add: extract_declarations_def change_then_rpc_def bind_op_def demo_update return_op_def
        attach_diagnostics_def demo_result_def)
qed

lemma demo_process:
  "process_task (\<lambda>_. None) ''extract_declarations'' demo_kwargs st = extract_declarations (\<lambda>_. None) (JStr ''t'') (JObj []) st"
  by (simp add: process_task_def method_params_def bind_args_def demo_kwargs_def apply_method_def dict_keys_def)

theorem task_answered_exactly_once_witness:
  "\<exists>w' c' io2. process_task (\<lambda>_. None) ''extract_declarations'' demo_kwargs (demo_worker, demo_server) = ((w', c'), Inr demo_result)
     \<and> snd (run_finish demo_observer 6 3 (Inr demo_result) w' demo_io) = io2 \<and> answers io2 = [(7, Ok demo_result)]"
proof -
  obtain w' c' where p: "process_task (\<lambda>_. None) ''extract_declarations'' demo_kwargs (demo_worker, demo_server)
      = ((w', c'), Inr demo_result)"
    unfolding demo_process using demo_extract by (metis prod.collapse)
  obtain w2 io2 where f: "run_finish demo_observer 6 3 (Inr demo_result) w' demo_io = (w2, io2)" by fastforce
  have "answers io2 = answers demo_io @ [(7, response_of (Inr demo_result))]"
    using task_answered_exactly_once [of "\<lambda>_. None" "demo_task ''extract_declarations'' 7" demo_worker demo_server
        w' c' "Inr demo_result" 7 demo_observer 6 3 demo_io w2 io2] p f
    by (simp add: demo_task_def demo_worker_def document_task_def demo_server_def demo_client_def)
  with p f show ?thesis by (simp add: demo_io_def response_of_def)
qed

theorem poisoned_worker_answers_everyone_witness:
  "answers (snd (run_finish demo_observer 6 3 (Inl ServiceUnavailable)
      (demo_worker\<lparr>current_task := Some ((demo_task ''ping'' 7)\<lparr>t_culprit := True, t_culprit_reason := Some ''r''\<rparr>)\<rparr>) demo_io))
   = [(7, Failed ServiceUnavailable True (Some ''r'')), (8, Failed ServiceUnavailable False None)]"
proof -
  let ?w = "demo_worker\<lparr>current_task := Some ((demo_task ''ping'' 7)\<lparr>t_culprit := True, t_culprit_reason := Some ''r''\<rparr>)\<rparr>"
  obtain w' io' where f: "run_finish demo_observer 6 3 (Inl ServiceUnavailable) ?w demo_io = (w', io')" by fastforce
  have q: "queued ?w = [demo_task ''ping'' 8]" by (simp add: queued_def demo_worker_def List.map_filter_simps)
  show ?thesis
    using poisoned_worker_answers_everyone [OF _ f] unfolding q f snd_conv
    by (simp add: demo_io_def demo_task_def)
qed

theorem task_reports_balanced_witness:
  "\<exists>w1 io1 t io3. run_begin demo_observer 0 (demo_worker\<lparr>current_task := None\<rparr>) demo_io = (w1, io1, Begun t 3)
     \<and> io3 = snd (run_finish demo_observer 9 3 (Inl ServiceUnavailable) w1 (io1\<lparr>generation := 4, commands := []\<rparr>))
     \<and> commands io1 = [CTaskStarted 3 1 0] \<and> commands io3 = [CTaskFinished 3 1]"
proof -
  let ?w = "demo_worker\<lparr>current_task := None\<rparr>"
  obtain w1 io1 t gen where b: "run_begin demo_observer 0 ?w demo_io = (w1, io1, Begun t gen)"
    by (simp add: run_begin_def demo_worker_def q_get_def task_started_def Let_def)
  then have g: "gen = 3" "current_task w1 = Some t" "worker_id w1 = worker_id ?w" "monitor_up io1"
    by (auto simp: run_begin_def demo_worker_def q_get_def task_started_def demo_io_def frame_simps Let_def)
  obtain w3 io3 where f: "run_finish demo_observer 9 gen (Inl ServiceUnavailable) w1 (io1\<lparr>generation := 4, commands := []\<rparr>) = (w3, io3)"
    by fastforce
  have "commands io1 = commands demo_io @ [CTaskStarted (generation demo_io) (worker_id ?w) 0]
    \<and> commands io3 = commands (io1\<lparr>generation := 4, commands := []\<rparr>) @ [CTaskFinished (generation demo_io) (worker_id ?w)]"
    using b f g by (intro task_reports_balanced) (auto simp: demo_io_def)
  with b f g show ?thesis by (auto simp: demo_io_def demo_worker_def)
qed

theorem declarations_carry_own_diagnostics_witness:
  "\<exists>st ds st1. extract_declarations (\<lambda>_. None) (JStr ''t'') (JObj []) (demo_worker, demo_server) = (st, Inr demo_result)
     \<and> change (JStr ''t'') (JObj []) (demo_worker, demo_server) = (st1, Inr ds) \<and> ds = [diag_msg 2]"
proof -
  obtain st where e: "extract_declarations (\<lambda>_. None) (JStr ''t'') (JObj []) (demo_worker, demo_server) = (st, Inr demo_result)"
    using demo_extract by (metis prod.collapse)
  from declarations_carry_own_diagnostics [OF e [unfolded demo_result_def]] obtain ds st1 where
    "change (JStr ''t'') (JObj []) (demo_worker, demo_server) = (st1, Inr ds)" "[diag_msg 2] = ds" by auto
  with e show ?thesis by blast
qed

section \<open>Where the loop and the identifiers fall short\<close>

text \<open>
  A task can be answered twice. A server result whose \<open>diagnostics\<close> is null (or any value without a
  length) is put as a success, and then, when the event's details are computed, put again as a failure.
\<close>
theorem unmeasurable_result_answers_twice:
  assumes "current_task w = Some t" and "t_result_q t = Some q"
    and "dict_get d ''diagnostics'' = Some v" and "json_len v = None"
  shows "answers (snd (run_finish obs now gen (Inr (JObj d)) w io))
    = answers io @ [(q, Ok (JObj d)), (q, Failed (TypeError ''object has no len()'') False None)]"
  using assms
  by (simp add: run_finish_def end_task_def task_finished_def frame_simps task_succeeded_answers diagnostic_count_def)

theorem unmeasurable_result_answers_twice_witness:
  "length (answers (snd (run_finish demo_observer 6 3 (Inr (JObj [(''diagnostics'', JNull)])) demo_worker demo_io))) = 2"
  using unmeasurable_result_answers_twice
    [of demo_worker "demo_task ''extract_declarations'' 7" 7 "[(''diagnostics'', JNull)]" JNull demo_observer 6 3 demo_io]
  by (simp add: demo_worker_def demo_task_def json_len_def demo_io_def)

text \<open>
  The identifier of plain LSP requests, \<open>worker_id + 1000\<close>, is also one that \<open>_next_id\<close> hands out. When
  an RPC call draws it while a request of that worker is waiting, the answer to the request is delivered to
  the RPC call, and the request's own queue receives nothing.
\<close>
theorem plain_request_id_collides:
  assumes "message_id c + 1 = worker_id w + 1000" and "q < next_queue c"
    and "dict_get (pending_requests c) (worker_id w + 1000) = Some q"
    and "next_id c = (c1, i)" and "fresh_queue c1 = (c2, q2)"
    and "c3 = fst (handle_message (JObj [(''id'', JInt (worker_id w + 1000)), (''result'', v)]) (register_pending i q2 c2))"
  shows "response_queues c3 q = response_queues c q \<and> q2 \<noteq> q
    \<and> response_queues c3 q2 = [Response (JObj [(''id'', JInt (worker_id w + 1000)), (''result'', v)])]"
  using assms
  by (auto simp: next_id_def fresh_queue_def register_pending_def handle_message_def deliver_response_def int_key_def
      py_in_def dict_keys_def dict_simps q_put_def)

theorem plain_request_id_collides_witness:
  "\<exists>(c3 :: client) q2. response_queues c3 0 = [] \<and> q2 \<noteq> (0::nat) \<and> length (response_queues c3 q2) = 1"
proof -
  let ?c = "demo_client\<lparr>message_id := 1000, pending_requests := [(1001, 0)], next_queue := 1\<rparr>"
  obtain c1 i where 1: "next_id ?c = (c1, i)" by fastforce
  obtain c2 q2 where 2: "fresh_queue c1 = (c2, q2)" by fastforce
  let ?c3 = "fst (handle_message (JObj [(''id'', JInt 1001), (''result'', JNull)]) (register_pending i q2 c2))"
  from plain_request_id_collides [OF _ _ _ 1 2 refl, of demo_worker 0 JNull]
  have "response_queues ?c3 0 = [] \<and> q2 \<noteq> 0 \<and> length (response_queues ?c3 q2) = 1"
    by (simp add: demo_worker_def demo_client_def)
  then show ?thesis by blast
qed

end
