(* ===== verification/Pool.thy ===== *)
theory Pool imports Worker "HOL-Library.Multiset" begin

text \<open>
  The worker pool (\<open>pyleaner/pool.py\<close>): submission, the router that hands each task to the least busy
  ready worker, and the public operations with their argument checks. One call of \<open>router_step\<close> is one
  iteration of the router thread; between two of them workers take and finish tasks.
\<close>

section \<open>State\<close>

record pool =
  workers :: "worker list"
  overall_queue :: "task fifo"
  selection_cursor :: int
  keep_alive_running :: bool

definition worker_uri :: "string \<Rightarrow> nat \<Rightarrow> string" where
  "worker_uri init_uri i = init_uri @ ''worker_'' @ show_nat i @ ''.lean''"

text \<open>The workers are created in parallel and then sorted by their identifiers.\<close>

definition new_pool :: "nat \<Rightarrow> string \<Rightarrow> real \<Rightarrow> pool" where
  "new_pool n init_uri now =
     \<lparr>workers = map (\<lambda>i. new_worker (int i) (worker_uri init_uri i) True now) [1..<Suc n],
      overall_queue = [], selection_cursor = 0, keep_alive_running = True\<rparr>"

text \<open>
  \<open>initialize_all_workers\<close>, in the interleaving that opens the documents in the order of the list: the
  first exception of a worker is raised, otherwise only the failure of every worker is an error.
  \<open>buffered u\<close> are the notifications for \<open>u\<close> that arrived before the pool was known to the client.
\<close>

fun open_all :: "string \<Rightarrow> (string \<Rightarrow> value list) \<Rightarrow> worker list \<Rightarrow> client \<Rightarrow> worker list \<times> client \<times> (exn + nat)" where
  "open_all src_text buffered [] c = ([], c, Inr 0)"
| "open_all src_text buffered (w # ws) c =
     (case initialize_environment src_text ''lean4'' (buffered (doc_uri (w_doc w))) (w, c) of
        ((w', c'), r) \<Rightarrow>
          (case open_all src_text buffered ws c' of
             (ws', c'', rs) \<Rightarrow>
               (w' # ws', c'',
                case (r, rs) of
                  (Inl e, _) \<Rightarrow> Inl e
                | (Inr ok, Inl e) \<Rightarrow> Inl e
                | (Inr ok, Inr n) \<Rightarrow> Inr (if ok then n else Suc n))))"

definition initialize_all_workers ::
  "string \<Rightarrow> (string \<Rightarrow> value list) \<Rightarrow> pool \<Rightarrow> client \<Rightarrow> pool \<times> client \<times> (exn + unit)" where
  "initialize_all_workers src_text buffered p c =
     (case open_all src_text buffered (workers p) c of
        (ws, c', Inl e) \<Rightarrow> (p\<lparr>workers := ws\<rparr>, c', Inl e)
      | (ws, c', Inr failed) \<Rightarrow>
          (p\<lparr>workers := ws\<rparr>, c',
           if failed = length (workers p)
           then Inl (RuntimeError (''All '' @ show_nat failed @ '' workers failed to initialize their Lean environment.''))
           else Inr ()))"

section \<open>Submission\<close>

definition pool_event :: "observer \<Rightarrow> task \<Rightarrow> string \<Rightarrow> (string, value) dict \<Rightarrow> event" where
  "pool_event obs t kind details =
     (new_event kind details)\<lparr>
        ev_request_id := t_request_id t, ev_task_id := t_task_id t, ev_task_type := Some (t_type t),
        ev_source_fp := source_fingerprint obs (t_kwargs t), ev_environment_fp := env_fp obs (t_kwargs t)\<rparr>"

text \<open>The fresh identifiers that \<open>setdefault\<close> uses where the task has none are arguments.\<close>

definition setdefault_id :: "string option \<Rightarrow> string \<Rightarrow> string option" where
  "setdefault_id x fresh = (case x of Some i \<Rightarrow> Some i | None \<Rightarrow> Some fresh)"

definition submit_task :: "observer \<Rightarrow> string \<Rightarrow> string \<Rightarrow> task \<Rightarrow> pool \<Rightarrow> io \<Rightarrow> pool \<times> io" where
  "submit_task obs rid tid t p io =
     (let t' = t\<lparr>t_request_id := setdefault_id (t_request_id t) rid, t_task_id := setdefault_id (t_task_id t) tid\<rparr>
      in (p\<lparr>overall_queue := q_put t' (overall_queue p)\<rparr>,
          emit (pool_event obs t' ''task_submitted'' [(''context'', JObj (t_context t'))]) io))"

definition get_worker_for_uri :: "string \<Rightarrow> pool \<Rightarrow> exn + worker" where
  "get_worker_for_uri u p =
     (case List.find (\<lambda>w. u = doc_uri (w_doc w)) (workers p) of
        Some w \<Rightarrow> Inr w
      | None \<Rightarrow> Inl (RuntimeError (''No worker found for URI: '' @ u)))"

section \<open>Routing\<close>

text \<open>The pair that \<open>load\<close> returns, compared like a tuple.\<close>

datatype load = Load (units: int) (distance: int)

instantiation load :: linorder
begin

definition less_eq_load :: "load \<Rightarrow> load \<Rightarrow> bool" where
  "less_eq_load a b \<longleftrightarrow> units a < units b \<or> (units a = units b \<and> distance a \<le> distance b)"

definition less_load :: "load \<Rightarrow> load \<Rightarrow> bool" where
  "less_load a b \<longleftrightarrow> units a < units b \<or> (units a = units b \<and> distance a < distance b)"

instance
  by standard (auto simp: less_eq_load_def less_load_def load.expand)

end

definition worker_units :: "worker \<Rightarrow> int" where
  "worker_units w = int (length (task_queue w)) + (if current_task w = None then 0 else 1)"

definition worker_load :: "pool \<Rightarrow> worker \<Rightarrow> load" where
  "worker_load p w =
     Load (worker_units w) ((worker_id w - 1 - selection_cursor p) mod int (length (workers p)))"

definition enqueue :: "int \<Rightarrow> task \<Rightarrow> worker list \<Rightarrow> worker list" where
  "enqueue i t ws = map (\<lambda>w. if worker_id w = i then w\<lparr>task_queue := q_put (Some t) (task_queue w)\<rparr> else w) ws"

definition reject_task :: "observer \<Rightarrow> task \<Rightarrow> io \<Rightarrow> io" where
  "reject_task obs t io =
     emit ((pool_event obs t ''task_rejected'' [(''reason'', JStr ''no_healthy_workers'')])
             \<lparr>ev_outcome := Some ''infrastructure_error''\<rparr>)
       (answer (t_result_q t) (Failed (RuntimeError ''No healthy workers available'') False None) io)"

definition assign_task :: "observer \<Rightarrow> task \<Rightarrow> worker \<Rightarrow> pool \<Rightarrow> io \<Rightarrow> pool \<times> io" where
  "assign_task obs t w p io =
     (p\<lparr>workers := enqueue (worker_id w) t (workers p),
        selection_cursor := worker_id w mod int (length (workers p))\<rparr>,
      emit ((pool_event obs t ''task_assigned'' [(''context'', JObj (t_context t))])
             \<lparr>ev_worker_id := Some (worker_id w), ev_document_uri := Some (doc_uri (w_doc w))\<rparr>) io)"

definition router_step :: "observer \<Rightarrow> pool \<Rightarrow> io \<Rightarrow> pool \<times> io" where
  "router_step obs p io =
     (case q_get (overall_queue p) of
        None \<Rightarrow> (p, io)
      | Some (t, q) \<Rightarrow>
          (let p1 = p\<lparr>overall_queue := q\<rparr>; rs = filter ready (workers p)
           in if rs = [] then (p1, reject_task obs t io)
              else assign_task obs t (arg_min_list (worker_load p1) rs) p1 io))"

section \<open>The public operations\<close>

datatype api_call =
    ApiPlain string
  | ApiEcho string
  | ApiExtract string "value option"
  | ApiSearch string string int bool "value option"
  | ApiAxioms string string "value option"
  | ApiDiagnostics string "value option"
  | ApiGoal string "value" "value option"

definition range_or :: "value \<Rightarrow> value option \<Rightarrow> value" where
  "range_or dflt r = (case r of None \<Rightarrow> dflt | Some v \<Rightarrow> v)"

definition opt_range_or_empty :: "value option \<Rightarrow> value" where
  "opt_range_or_empty r = (case r of None \<Rightarrow> JObj [] | Some v \<Rightarrow> range_or_empty v)"

text \<open>The task type and arguments that an operation submits, or the \<open>ValueError\<close> of its checks.\<close>

fun api_task :: "api_call \<Rightarrow> exn + (string \<times> kwargs)" where
  "api_task (ApiPlain t) = Inr (t, [])"
| "api_task (ApiEcho m) = Inr (''echo'', [(''message'', JStr m)])"
| "api_task (ApiExtract src_text rng) =
     Inr (''extract_declarations'', [(''text'', JStr src_text), (''content_range'', range_or full_range rng)])"
| "api_task (ApiSearch src_text query n fuzzy rng) =
     (if n < 1 then Inl (ValueError ''max_results must be at least one'')
      else Inr (''search_declarations'', [(''text'', JStr src_text), (''query'', JStr query), (''max_results'', JInt n),
             (''fuzzy'', JBool fuzzy), (''content_range'', opt_range_or_empty rng)]))"
| "api_task (ApiAxioms src_text name rng) =
     (if py_strip name = [] then Inl (ValueError ''declaration_name must not be empty'')
      else Inr (''declaration_axioms'', [(''text'', JStr src_text), (''declaration_name'', JStr name),
             (''content_range'', opt_range_or_empty rng)]))"
| "api_task (ApiDiagnostics src_text rng) =
     Inr (''changecontent'', [(''text'', JStr src_text), (''content_range'', range_or (JObj []) rng)])"
| "api_task (ApiGoal src_text pos rng) =
     Inr (''get_proof_goal'', [(''text'', JStr src_text), (''content_range'', range_or full_range rng), (''position'', pos)])"

definition plain_calls :: "string list" where
  "plain_calls = [''ping'', ''debug_document'', ''parse_document'', ''test_declaration_kind'', ''test_declaration_name'',
     ''test_has_params'', ''test_params_text'', ''test_type_text'', ''test_body_text'', ''test_body_fields'',
     ''debug_body_fields'', ''debug_syntax_tree'', ''debug_binder_structure'', ''debug_all_snapshots'',
     ''debug_snapshot_info'']"

text \<open>\<open>_submit\<close>: the task it builds, and what it makes of the response (\<open>None\<close>: none in time).\<close>

definition plain_task :: "nat \<Rightarrow> string \<Rightarrow> kwargs \<Rightarrow> task" where
  "plain_task q t kw = \<lparr>t_type = t, t_result_q = Some q, t_kwargs = kw, t_request_id = None, t_task_id = None,
     t_context = [], t_culprit = False, t_culprit_reason = None\<rparr>"

definition submit_outcome :: "observer \<Rightarrow> response option \<Rightarrow> exn + value" where
  "submit_outcome obs resp =
     (case resp of
        None \<Rightarrow> Inl QueueEmpty
      | Some (Ok v) \<Rightarrow> Inr v
      | Some (Failed e toxic reason) \<Rightarrow> Inl (RuntimeError (str_of obs e)))"

definition api_submit ::
  "observer \<Rightarrow> string \<Rightarrow> string \<Rightarrow> nat \<Rightarrow> api_call \<Rightarrow> pool \<Rightarrow> io \<Rightarrow> pool \<times> io \<times> (exn + unit)" where
  "api_submit obs rid tid q call p io =
     (case api_task call of
        Inl e \<Rightarrow> (p, io, Inl e)
      | Inr (t, kw) \<Rightarrow> (case submit_task obs rid tid (plain_task q t kw) p io of (p', io') \<Rightarrow> (p', io', Inr ())))"

section \<open>What the router guarantees\<close>

lemma enqueue_frame [frame_simps]:
  "length (enqueue i t ws) = length ws" "map worker_id (enqueue i t ws) = map worker_id ws"
  "map ready (enqueue i t ws) = map ready ws" "map current_task (enqueue i t ws) = map current_task ws"
  by (auto simp: enqueue_def)

lemma arg_min_list_least: "xs \<noteq> [] \<Longrightarrow> y \<in> set xs \<Longrightarrow> f (arg_min_list f xs) \<le> f y"
  by (simp add: f_arg_min_list_f)

definition assigned :: "pool \<Rightarrow> worker" where
  "assigned p = arg_min_list (worker_load p) (filter ready (workers p))"

lemma router_step_ready:
  assumes "overall_queue p = t # ts" and "filter ready (workers p) \<noteq> []"
  shows "router_step obs p io =
    assign_task obs t (assigned (p\<lparr>overall_queue := ts\<rparr>)) (p\<lparr>overall_queue := ts\<rparr>) io"
  using assms by (simp add: router_step_def q_get_def assigned_def Let_def)

lemma assigned_queue_irrelevant [simp]: "assigned (p\<lparr>overall_queue := ts\<rparr>) = assigned p"
  by (simp add: assigned_def worker_load_def [abs_def])

lemma assigned_least:
  assumes "filter ready (workers p) \<noteq> []"
  shows "assigned p \<in> set (workers p)" and "ready (assigned p)"
    and "w \<in> set (workers p) \<Longrightarrow> ready w \<Longrightarrow> worker_load p (assigned p) \<le> worker_load p w"
  using arg_min_list_in [OF assms, of "worker_load p"] arg_min_list_least [of "filter ready (workers p)" w "worker_load p"] assms
  by (auto simp: assigned_def)

text \<open>
  Routing is least-busy first. With a ready worker in the pool, a task at the head of the queue goes
  to a ready worker of this pool; no ready worker has fewer tasks, waiting or running; and among those
  with equally many it is the next one after the worker served last. Only its queue changes, at its end.
\<close>
theorem router_picks_least_busy:
  assumes "overall_queue p = t # ts" and "\<exists>w \<in> set (workers p). ready w"
    and "router_step obs p io = (p', io')"
  shows "\<exists>w \<in> set (workers p). ready w
     \<and> workers p' = enqueue (worker_id w) t (workers p) \<and> overall_queue p' = ts
     \<and> (\<forall>w' \<in> set (workers p). ready w' \<longrightarrow> worker_units w \<le> worker_units w'
          \<and> (worker_units w' = worker_units w \<longrightarrow>
               (worker_id w - 1 - selection_cursor p) mod int (length (workers p))
               \<le> (worker_id w' - 1 - selection_cursor p) mod int (length (workers p))))"
proof -
  from assms(2) have ne: "filter ready (workers p) \<noteq> []" by (auto simp: filter_empty_conv)
  note A = assigned_least [OF ne]
  have "worker_units (assigned p) \<le> worker_units w' \<and> (worker_units w' = worker_units (assigned p) \<longrightarrow>
      (worker_id (assigned p) - 1 - selection_cursor p) mod int (length (workers p))
      \<le> (worker_id w' - 1 - selection_cursor p) mod int (length (workers p)))"
    if "w' \<in> set (workers p)" "ready w'" for w'
    using A(3) [OF that] by (auto simp: less_eq_load_def worker_load_def)
  moreover have "workers p' = enqueue (worker_id (assigned p)) t (workers p)" "overall_queue p' = ts"
    using assms(3) by (auto simp: router_step_ready [OF assms(1) ne] assign_task_def)
  ultimately show ?thesis using A(1,2) by blast
qed

definition pool_tasks :: "pool \<Rightarrow> task multiset" where
  "pool_tasks p = mset (overall_queue p) + mset (concat (map queued (workers p)))"

lemma queued_enqueue: "queued (w\<lparr>task_queue := q_put (Some t) (task_queue w)\<rparr>) = queued w @ [t]"
  by (simp add: queued_def q_put_def map_filter_def)

lemma enqueue_other: "i \<notin> worker_id ` set ws \<Longrightarrow> enqueue i t ws = ws"
  unfolding enqueue_def by (rule map_idI) auto

lemma enqueue_tasks:
  "distinct (map worker_id ws) \<Longrightarrow> w \<in> set ws \<Longrightarrow>
     mset (concat (map queued (enqueue (worker_id w) t ws))) = add_mset t (mset (concat (map queued ws)))"
proof (induction ws)
  case (Cons v ws)
  show ?case
  proof (cases "worker_id v = worker_id w")
    case True
    then have "enqueue (worker_id w) t ws = ws" using Cons.prems by (intro enqueue_other) auto
    with True show ?thesis using queued_enqueue [of t v] by (simp add: enqueue_def)
  next
    case False
    then have "w \<in> set ws" using Cons.prems by auto
    with Cons False show ?thesis by (simp add: enqueue_def)
  qed
qed simp

lemma reject_frame [frame_simps]:
  "answers (reject_task obs t io) = answers io
     @ rq_answers [(t_result_q t, Failed (RuntimeError ''No healthy workers available'') False None)]"
  by (simp add: reject_task_def frame_simps split: option.split)

text \<open>
  Nothing is lost in routing. Every step either leaves the tasks of the pool as they were, moving at
  most one from the common queue to one worker's, or, when no worker is ready, answers that one task.
\<close>
theorem router_conserves_tasks:
  assumes "distinct (map worker_id (workers p))" and "overall_queue p = t # ts"
    and "router_step obs p io = (p', io')"
  shows "if \<exists>w \<in> set (workers p). ready w
    then pool_tasks p' = pool_tasks p \<and> answers io' = answers io
    else pool_tasks p = add_mset t (pool_tasks p')
      \<and> answers io' = answers io @ rq_answers [(t_result_q t, Failed (RuntimeError ''No healthy workers available'') False None)]"
proof (cases "filter ready (workers p) = []")
  case True
  then have "\<not> (\<exists>w \<in> set (workers p). ready w)" by (auto simp: filter_empty_conv)
  moreover have "p' = p\<lparr>overall_queue := ts\<rparr>" "io' = reject_task obs t io"
    using True assms(2,3) by (simp_all add: router_step_def q_get_def)
  ultimately show ?thesis using assms(2) by (simp add: pool_tasks_def reject_frame)
next
  case False
  then have "\<exists>w \<in> set (workers p). ready w" by (auto simp: filter_empty_conv)
  moreover have "p' = p\<lparr>overall_queue := ts, workers := enqueue (worker_id (assigned p)) t (workers p),
      selection_cursor := worker_id (assigned p) mod int (length (workers p))\<rparr>" and "answers io' = answers io"
    using assms(2,3) False by (auto simp: router_step_ready assign_task_def frame_simps)
  ultimately show ?thesis
    using enqueue_tasks [OF assms(1) assigned_least(1) [OF False], of t] assms(2) by (simp add: pool_tasks_def)
qed

section \<open>Rotation\<close>

fun router_steps :: "nat \<Rightarrow> observer \<Rightarrow> pool \<Rightarrow> io \<Rightarrow> pool \<times> io" where
  "router_steps 0 obs p io = (p, io)"
| "router_steps (Suc k) obs p io = (case router_step obs p io of (p', io') \<Rightarrow> router_steps k obs p' io')"

text \<open>
  After \<open>k\<close> of \<open>n\<close> dispatches that found every worker ready with \<open>u\<close> tasks and the cursor at \<open>c\<close>: the \<open>k\<close>
  workers that follow the cursor have one task more.
\<close>

definition rotating :: "nat \<Rightarrow> int \<Rightarrow> int \<Rightarrow> nat \<Rightarrow> pool \<Rightarrow> bool" where
  "rotating n c u k p \<longleftrightarrow>
     map worker_id (workers p) = map int [1..<Suc n] \<and> selection_cursor p = (c + int k) mod int n
     \<and> (\<forall>w \<in> set (workers p). ready w
          \<and> worker_units w = u + (if (worker_id w - 1 - c) mod int n < int k then 1 else 0))"

lemma rotating_workers:
  assumes "rotating n c u k p"
  shows "length (workers p) = n"
    and "w \<in> set (workers p) \<Longrightarrow> 1 \<le> worker_id w \<and> worker_id w \<le> int n"
    and "1 \<le> i \<Longrightarrow> i \<le> int n \<Longrightarrow> \<exists>w \<in> set (workers p). worker_id w = i"
proof -
  have m: "map worker_id (workers p) = map int [1..<Suc n]" using assms by (simp add: rotating_def)
  then show "length (workers p) = n" by (metis length_map length_upt diff_Suc_1)
  from m have s: "worker_id ` set (workers p) = int ` {1..<Suc n}" by (metis list.set_map set_upt)
  show "1 \<le> worker_id w \<and> worker_id w \<le> int n" if w: "w \<in> set (workers p)"
  proof -
    from w s have "worker_id w \<in> int ` {1..<Suc n}" by blast
    then show ?thesis by auto
  qed
  assume "1 \<le> i" "i \<le> int n"
  then have "i \<in> int ` {1..<Suc n}" by (intro image_eqI [of _ _ "nat i"]) auto
  with s show "\<exists>w \<in> set (workers p). worker_id w = i" by (metis image_iff)
qed

lemma residues_eq: "0 \<le> x \<Longrightarrow> x < n \<Longrightarrow> (x - y mod n) mod n = 0 \<Longrightarrow> x = y mod n" for x y n :: int
  by (metis mod_diff_right_eq mod_eq_dvd_iff mod_0_imp_dvd mod_pos_pos_trivial)

lemma turn_eq: "0 \<le> x \<Longrightarrow> x < n \<Longrightarrow> 0 \<le> k \<Longrightarrow> k < n \<Longrightarrow> (x - c) mod n = k \<longleftrightarrow> x = (c + k) mod n" for x c k n :: int
proof -
  assume a: "0 \<le> x" "x < n" "0 \<le> k" "k < n"
  have "(c + (x - c) mod n) mod n = x" using a by (simp add: mod_add_right_eq)
  then have "(x - c) mod n = k \<Longrightarrow> x = (c + k) mod n" by auto
  moreover have "x = (c + k) mod n \<Longrightarrow> (x - c) mod n = k"
    using a by (simp add: mod_diff_left_eq)
  ultimately show ?thesis by blast
qed

lemma rotating_assigned:
  assumes "rotating n c u k p" and "k < n"
  shows "worker_id (assigned p) - 1 = (c + int k) mod int n" and "worker_units (assigned p) = u"
    and "assigned p \<in> set (workers p)"
proof -
  let ?i = "(c + int k) mod int n"
  have n: "0 < int n" using assms(2) by simp
  then have i: "0 \<le> ?i" "?i < int n" by simp_all
  from rotating_workers(3) [OF assms(1), of "?i + 1"] i obtain v where
    v: "v \<in> set (workers p)" "worker_id v - 1 = ?i" by auto
  note R = assms(1) [unfolded rotating_def]
  have "(worker_id v - 1 - c) mod int n = int k"
    using v(2) i assms(2) turn_eq [of ?i "int n" "int k" c] by simp
  then have vu: "worker_units v = u" using R v(1) by auto
  have rdy: "ready v" using R v(1) by auto
  then have ne: "filter ready (workers p) \<noteq> []" using v(1) by (auto simp: filter_empty_conv)
  note A = assigned_least [OF ne]
  have L: "worker_load p (assigned p) \<le> Load u 0"
    using A(3) [OF v(1) rdy] v(2) vu R by (simp add: worker_load_def rotating_workers(1) [OF assms(1)])
  moreover have "u \<le> worker_units (assigned p)" using R A(1) by auto
  ultimately have eq: "worker_units (assigned p) = u"
      "(worker_id (assigned p) - 1 - selection_cursor p) mod int n \<le> 0"
    by (auto simp: less_eq_load_def worker_load_def rotating_workers(1) [OF assms(1)])
  then have "(worker_id (assigned p) - 1 - ?i) mod int n = 0"
    using R n by (metis order_antisym pos_mod_sign)
  moreover have "0 \<le> worker_id (assigned p) - 1" "worker_id (assigned p) - 1 < int n"
    using rotating_workers(2) [OF assms(1) A(1)] by auto
  ultimately show "worker_id (assigned p) - 1 = ?i" by (intro residues_eq) auto
  show "worker_units (assigned p) = u" "assigned p \<in> set (workers p)" using eq(1) A(1) by simp_all
qed

lemma units_enqueued: "worker_units (w\<lparr>task_queue := q_put (Some t) (task_queue w)\<rparr>) = worker_units w + 1"
  by (simp add: worker_units_def q_put_def)

lemma rotating_step:
  assumes "rotating n c u k p" and "k < n" and "overall_queue p = t # ts"
  shows "rotating n c u (Suc k) (fst (router_step obs p io)) \<and> overall_queue (fst (router_step obs p io)) = ts"
proof -
  let ?i = "(c + int k) mod int n"
  note A = rotating_assigned [OF assms(1,2)] and R = assms(1) [unfolded rotating_def]
  have ne: "filter ready (workers p) \<noteq> []" using A(3) R by (auto simp: filter_empty_conv)
  have p': "fst (router_step obs p io) = p\<lparr>overall_queue := ts, workers := enqueue (?i + 1) t (workers p),
      selection_cursor := (?i + 1) mod int n\<rparr>"
  proof -
    have "worker_id (assigned p) = ?i + 1" using A(1) by linarith
    then show ?thesis
      by (simp add: router_step_ready [OF assms(3) ne] assign_task_def rotating_workers(1) [OF assms(1)])
  qed
  have "(?i + 1) mod int n = (c + int (Suc k)) mod int n"
    by (metis (no_types, opaque_lifting) add.commute add.left_commute mod_add_left_eq of_nat_Suc)
  moreover have "ready w' \<and> worker_units w' = u + (if (worker_id w' - 1 - c) mod int n < int (Suc k) then 1 else 0)"
    if w': "w' \<in> set (enqueue (?i + 1) t (workers p))" for w'
  proof -
    from w' obtain w where w: "w \<in> set (workers p)"
      "w' = (if worker_id w = ?i + 1 then w\<lparr>task_queue := q_put (Some t) (task_queue w)\<rparr> else w)"
      by (auto simp: enqueue_def)
    have b: "0 \<le> worker_id w - 1" "worker_id w - 1 < int n" using rotating_workers(2) [OF assms(1) w(1)] by auto
    have d: "(worker_id w - 1 - c) mod int n = int k \<longleftrightarrow> worker_id w - 1 = ?i"
      using b assms(2) by (intro turn_eq) auto
    show ?thesis
    proof (cases "worker_id w = ?i + 1")
      case True
      with d have k: "(worker_id w - 1 - c) mod int n = int k" by simp
      with R w(1) have "worker_units w = u" "ready w" by auto
      with True w(2) k show ?thesis by (simp add: units_enqueued)
    next
      case False
      with d have "(worker_id w - 1 - c) mod int n \<noteq> int k" by auto
      with False w R show ?thesis by auto
    qed
  qed
  ultimately show ?thesis
    using R by (simp add: rotating_def p' frame_simps)
qed

lemma rotating_steps:
  "rotating n c u k p \<Longrightarrow> k + j \<le> n \<Longrightarrow> j \<le> length (overall_queue p) \<Longrightarrow>
     rotating n c u (k + j) (fst (router_steps j obs p io))"
proof (induction j arbitrary: k p io)
  case (Suc j)
  then obtain t ts where q: "overall_queue p = t # ts" by (cases "overall_queue p") auto
  obtain p' io' where r: "router_step obs p io = (p', io')" by fastforce
  have "rotating n c u (Suc k) p'" "overall_queue p' = ts"
    using rotating_step [OF Suc.prems(1) _ q, of obs io] Suc.prems(2) by (simp_all add: r)
  with Suc.IH [of "Suc k" p' io'] Suc.prems q show ?case by (simp add: r)
qed simp

text \<open>
  Ties rotate. When the \<open>n\<close> workers of a pool are all ready and equally loaded, the next \<open>n\<close> tasks go to
  \<open>n\<close> different workers, wherever the cursor stands: afterwards each has exactly one task more.
\<close>
theorem rotation_serves_everyone:
  assumes "map worker_id (workers p) = map int [1..<Suc n]" and "0 < n" and "0 \<le> selection_cursor p"
    and "selection_cursor p < int n"
    and "\<forall>w \<in> set (workers p). ready w \<and> worker_units w = u" and "n \<le> length (overall_queue p)"
    and "router_steps n obs p io = (p', io')"
  shows "\<forall>w \<in> set (workers p'). worker_units w = u + 1"
proof -
  have "rotating n (selection_cursor p) u 0 p"
    using assms(1-5) pos_mod_sign [of "int n"] by (auto simp: rotating_def simp del: upt_Suc simp: not_less)
  from rotating_steps [OF this, of n obs io] assms(6,7)
  have "rotating n (selection_cursor p) u n p'" by simp
  then show ?thesis using assms(2) by (simp add: rotating_def)
qed

section \<open>The public operations fit the workers\<close>

lemma method_params_values:
  "method_params ''echo'' = Some [(''message'', None)]"
  "method_params ''extract_declarations'' = Some [(''text'', None), (''content_range'', None)]"
  "method_params ''changecontent'' = Some [(''text'', None), (''content_range'', None)]"
  "method_params ''get_proof_goal'' = Some [(''text'', None), (''content_range'', None), (''position'', None)]"
  "method_params ''search_declarations'' = Some [(''text'', None), (''query'', None), (''max_results'', Some (JInt 8)),
     (''fuzzy'', Some (JBool False)), (''content_range'', Some JNull)]"
  "method_params ''declaration_axioms'' = Some [(''text'', None), (''declaration_name'', None), (''content_range'', Some JNull)]"
  by (simp_all add: method_params_def)

lemma bind_args_all:
  "map fst kw = map fst params \<Longrightarrow> \<exists>args. bind_args params kw = Inr args \<and> length args = length params"
proof -
  assume m: "map fst kw = map fst params"
  then have k: "set (dict_keys kw) = fst ` set params" by (metis dict_keys_def set_map)
  then have "dict_get kw p \<noteq> None" if "(p, dflt) \<in> set params" for p dflt
    using that dict_get_None [of kw p] by force
  with k show ?thesis by (fastforce simp: bind_args_def)
qed

text \<open>
  C38: Every public operation of the pool is understood by the workers. What passes the argument checks
  names a task type that they dispatch, with exactly the arguments its method takes.
\<close>
theorem api_tasks_bind:
  assumes "api_task call = Inr (t, kw)" and "\<forall>name. call = ApiPlain name \<longrightarrow> name \<in> set plain_calls"
  shows "\<exists>params args. method_params t = Some params \<and> bind_args params kw = Inr args
     \<and> length args = length params"
proof (cases call)
  case (ApiPlain name)
  with assms have t: "t \<in> set plain_calls" "kw = []" by auto
  have "\<forall>name \<in> set plain_calls. method_params name = Some []"
    by code_simp
  with t show ?thesis using bind_args_all [of "[]" "[]"] by auto
next
  case (ApiSearch src_text q n fuzzy rng)
  with assms(1) show ?thesis
    by (auto simp: method_params_values split: if_splits intro!: bind_args_all)
next
  case (ApiAxioms src_text n rng)
  with assms(1) show ?thesis
    by (auto simp: method_params_values split: if_splits intro!: bind_args_all)
qed (use assms(1) in \<open>auto simp: method_params_values intro!: bind_args_all\<close>)

theorem api_tasks_bind_witness:
  "\<exists>params args. method_params ''declaration_axioms'' = Some params
     \<and> bind_args params [(''text'', JStr ''t''), (''declaration_name'', JStr ''n''), (''content_range'', JObj [])] = Inr args
     \<and> length args = length params"
proof (rule api_tasks_bind)
  have "py_strip ''n'' \<noteq> []" by code_simp
  then show "api_task (ApiAxioms ''t'' ''n'' None) =
    Inr (''declaration_axioms'', [(''text'', JStr ''t''), (''declaration_name'', JStr ''n''), (''content_range'', JObj [])])"
    by (simp add: opt_range_or_empty_def)
qed simp

section \<open>A pool of two\<close>

definition idle_worker :: "int \<Rightarrow> string \<Rightarrow> worker" where
  "idle_worker i u = (new_worker i u True 0)\<lparr>ready := True\<rparr>"

definition demo_pool :: pool where
  "demo_pool = \<lparr>workers = [idle_worker 1 ''a'', idle_worker 2 ''b''],
     overall_queue = [demo_task ''ping'' 0, demo_task ''ping'' 1], selection_cursor = 1, keep_alive_running = True\<rparr>"

lemmas demo_pool_defs = demo_pool_def idle_worker_def new_worker_def worker_units_def

lemma demo_pool_ids: "map worker_id (workers demo_pool) = map int [1..<Suc 2]"
  by (simp add: demo_pool_defs upt_rec)

theorem rotation_serves_everyone_witness:
  "filter (\<lambda>w. worker_units w \<noteq> 0 + 1) (workers (fst (router_steps 2 demo_observer demo_pool demo_io))) = []"
proof -
  obtain p' io' where r: "router_steps 2 demo_observer demo_pool demo_io = (p', io')" by fastforce
  have "\<forall>w \<in> set (workers p'). worker_units w = 0 + 1"
    by (rule rotation_serves_everyone [OF demo_pool_ids _ _ _ _ _ r]) (simp_all add: demo_pool_defs)
  then show ?thesis by (simp add: r filter_empty_conv)
qed

theorem router_picks_least_busy_witness:
  "\<exists>w \<in> set (workers demo_pool). ready w
     \<and> workers (fst (router_step demo_observer demo_pool demo_io)) = enqueue (worker_id w) (demo_task ''ping'' 0) (workers demo_pool)"
proof -
  obtain p' io' where r: "router_step demo_observer demo_pool demo_io = (p', io')" by fastforce
  have q: "overall_queue demo_pool = demo_task ''ping'' 0 # [demo_task ''ping'' 1]"
      "\<exists>w \<in> set (workers demo_pool). ready w" by (simp_all add: demo_pool_defs)
  from router_picks_least_busy [OF q r] show ?thesis by (auto simp: r)
qed

theorem router_conserves_tasks_witness:
  "pool_tasks (fst (router_step demo_observer demo_pool demo_io)) = pool_tasks demo_pool"
proof -
  obtain p' io' where r: "router_step demo_observer demo_pool demo_io = (p', io')" by fastforce
  have q: "overall_queue demo_pool = demo_task ''ping'' 0 # [demo_task ''ping'' 1]"
      "distinct (map worker_id (workers demo_pool))" "\<exists>w \<in> set (workers demo_pool). ready w"
    by (simp_all add: demo_pool_defs)
  from router_conserves_tasks [OF q(2,1) r] q(3) show ?thesis by (simp add: r)
qed

end
