(* ===== verification/Routing.thy ===== *)
theory Routing imports Pool begin

text \<open>
  Where notifications go (\<open>_handle_file_progress\<close>, \<open>_handle_publish_diagnostics\<close>, \<open>_route_or_buffer\<close> and the
  buffer helpers of \<open>pyleaner/client.py\<close>): to the worker of their document, or, while the pool is still
  being built, into the buffer registered for it, from which \<open>_didopen\<close> takes them.
\<close>

section \<open>State and operations\<close>

record routing =
  worker_pool :: "pool option"
  init_buffers :: "(string, value list) dict"

definition register_init_uri :: "string \<Rightarrow> routing \<Rightarrow> routing" where
  "register_init_uri u r = r\<lparr>init_buffers := dict_set u [] (init_buffers r)\<rparr>"

definition drain_init_buffer :: "string \<Rightarrow> routing \<Rightarrow> routing \<times> value list" where
  "drain_init_buffer u r =
     (r\<lparr>init_buffers := dict_pop u (init_buffers r)\<rparr>,
      case dict_get (init_buffers r) u of Some ms \<Rightarrow> ms | None \<Rightarrow> [])"

definition put_notification :: "real \<Rightarrow> value \<Rightarrow> worker \<Rightarrow> worker" where
  "put_notification now msg w = w\<lparr>w_doc := (w_doc w)\<lparr>inbox := inbox (w_doc w) @ [(now, msg)]\<rparr>\<rparr>"

text \<open>The first worker with this URI takes the message.\<close>

fun deliver_to :: "string \<Rightarrow> real \<Rightarrow> value \<Rightarrow> worker list \<Rightarrow> worker list" where
  "deliver_to u now msg [] = []"
| "deliver_to u now msg (w # ws) =
     (if u = doc_uri (w_doc w) then put_notification now msg w # ws else w # deliver_to u now msg ws)"

definition buffer_notification :: "string \<Rightarrow> value \<Rightarrow> routing \<Rightarrow> routing" where
  "buffer_notification u msg r =
     (case dict_get (init_buffers r) u of
        Some ms \<Rightarrow> r\<lparr>init_buffers := dict_set u (ms @ [msg]) (init_buffers r)\<rparr>
      | None \<Rightarrow> r)"

definition route_or_buffer :: "string \<Rightarrow> real \<Rightarrow> value \<Rightarrow> routing \<Rightarrow> routing" where
  "route_or_buffer u now msg r =
     (case worker_pool r of
        Some p \<Rightarrow>
          (case get_worker_for_uri u p of
             Inr w \<Rightarrow> r\<lparr>worker_pool := Some (p\<lparr>workers := deliver_to u now msg (workers p)\<rparr>)\<rparr>
           | Inl e \<Rightarrow> buffer_notification u msg r)
      | None \<Rightarrow> buffer_notification u msg r)"

text \<open>
  The two handlers. A URI that is no string matches no worker and no buffer; testing the membership of
  one that cannot be hashed raises.
\<close>

definition route_value :: "value \<Rightarrow> real \<Rightarrow> value \<Rightarrow> routing \<Rightarrow> routing \<times> (exn + unit)" where
  "route_value u now msg r =
     (if \<not> truthy u then (r, Inr ())
      else (case u of
              JStr s \<Rightarrow> (route_or_buffer s now msg r, Inr ())
            | JArr xs \<Rightarrow> (r, Inl (TypeError ''unhashable type''))
            | JObj d \<Rightarrow> (r, Inl (TypeError ''unhashable type''))
            | _ \<Rightarrow> (r, Inr ())))"

definition notification :: "string \<Rightarrow> value \<Rightarrow> value" where
  "notification meth params = JObj [(''method'', JStr meth), (''params'', params)]"

definition handle_file_progress :: "real \<Rightarrow> value \<Rightarrow> routing \<Rightarrow> routing \<times> (exn + unit)" where
  "handle_file_progress now params r =
     (case get2 params ''textDocument'' ''uri'' (JStr '''') of
        Inl e \<Rightarrow> (r, Inl e)
      | Inr u \<Rightarrow> route_value u now (notification ''$/lean/fileProgress'' params) r)"

definition handle_publish_diagnostics :: "real \<Rightarrow> value \<Rightarrow> routing \<Rightarrow> routing \<times> (exn + unit)" where
  "handle_publish_diagnostics now params r =
     (case py_get params ''uri'' (JStr '''') of
        Inl e \<Rightarrow> (r, Inl e)
      | Inr u \<Rightarrow> route_value u now (notification ''textDocument/publishDiagnostics'' params) r)"

definition handle_notification :: "real \<Rightarrow> string \<Rightarrow> value \<Rightarrow> routing \<Rightarrow> routing \<times> (exn + unit)" where
  "handle_notification now meth params r =
     (if meth = ''$/lean/fileProgress'' then handle_file_progress now params r
      else if meth = ''textDocument/publishDiagnostics'' then handle_publish_diagnostics now params r
      else (r, Inr ()))"

section \<open>No notification is lost\<close>

text \<open>The messages held for a document: in its buffer and in the queue of its worker.\<close>

definition buffered_for :: "string \<Rightarrow> routing \<Rightarrow> value list" where
  "buffered_for u r = (case dict_get (init_buffers r) u of Some ms \<Rightarrow> ms | None \<Rightarrow> [])"

definition delivered_to :: "string \<Rightarrow> routing \<Rightarrow> value list" where
  "delivered_to u r =
     (case worker_pool r of
        None \<Rightarrow> []
      | Some p \<Rightarrow> (case get_worker_for_uri u p of Inr w \<Rightarrow> map snd (inbox (w_doc w)) | Inl e \<Rightarrow> []))"

definition known_uri :: "string \<Rightarrow> routing \<Rightarrow> bool" where
  "known_uri u r \<longleftrightarrow> u \<in> set (dict_keys (init_buffers r))
     \<or> (\<exists>p w. worker_pool r = Some p \<and> get_worker_for_uri u p = Inr w)"

lemma find_deliver:
  "List.find (\<lambda>w. v = doc_uri (w_doc w)) (deliver_to u now msg ws) =
     map_option (\<lambda>w. if v = u then put_notification now msg w else w) (List.find (\<lambda>w. v = doc_uri (w_doc w)) ws)"
  by (induction ws) (auto simp: put_notification_def option.map_ident)

lemma worker_after_delivery:
  "get_worker_for_uri v (p\<lparr>workers := deliver_to u now msg (workers p)\<rparr>) =
     map_sum id (\<lambda>w. if v = u then put_notification now msg w else w) (get_worker_for_uri v p)"
  by (simp add: get_worker_for_uri_def find_deliver split: option.split)

lemma buffer_frame:
  "buffered_for v (buffer_notification u msg r) =
     buffered_for v r @ (if v = u \<and> u \<in> set (dict_keys (init_buffers r)) then [msg] else [])"
  "delivered_to v (buffer_notification u msg r) = delivered_to v r"
  using dict_get_None [of "init_buffers r" u]
  by (auto simp: buffer_notification_def buffered_for_def delivered_to_def dict_simps split: option.split)

lemma route_cases:
  obtains
    (buffered) "route_or_buffer u now msg r = buffer_notification u msg r"
      "\<nexists>p w. worker_pool r = Some p \<and> get_worker_for_uri u p = Inr w"
  | (delivered) p w where "worker_pool r = Some p" "get_worker_for_uri u p = Inr w"
      "route_or_buffer u now msg r = r\<lparr>worker_pool := Some (p\<lparr>workers := deliver_to u now msg (workers p)\<rparr>)\<rparr>"
  by (cases "\<exists>p w. worker_pool r = Some p \<and> get_worker_for_uri u p = Inr w")
    (auto simp: route_or_buffer_def split: option.splits sum.splits)

lemma routing_other_uri:
  assumes "v \<noteq> u"
  shows "buffered_for v (route_or_buffer u now msg r) = buffered_for v r
     \<and> delivered_to v (route_or_buffer u now msg r) = delivered_to v r"
proof (cases rule: route_cases [of u now msg r])
  case buffered
  with assms show ?thesis by (simp add: buffer_frame)
next
  case (delivered p w)
  with assms show ?thesis
    by (simp add: buffered_for_def delivered_to_def worker_after_delivery split: sum.split)
qed

text \<open>
  A notification for a document that is registered or has a worker is kept exactly once, at the end of
  the buffer or of the worker's queue. One for any other document is dropped. No other document's messages
  are touched.
\<close>
theorem routing_keeps_notifications:
  "(if known_uri u r
    then (buffered_for u (route_or_buffer u now msg r) = buffered_for u r @ [msg]
           \<and> delivered_to u (route_or_buffer u now msg r) = delivered_to u r
       \<or> buffered_for u (route_or_buffer u now msg r) = buffered_for u r
           \<and> delivered_to u (route_or_buffer u now msg r) = delivered_to u r @ [msg])
    else route_or_buffer u now msg r = r)
   \<and> (v = u \<or> buffered_for v (route_or_buffer u now msg r) = buffered_for v r
             \<and> delivered_to v (route_or_buffer u now msg r) = delivered_to v r)"
proof (cases rule: route_cases [of u now msg r])
  case buffered
  have "known_uri u r \<longleftrightarrow> u \<in> set (dict_keys (init_buffers r))" using buffered(2) by (auto simp: known_uri_def)
  moreover have "u \<notin> set (dict_keys (init_buffers r)) \<Longrightarrow> buffer_notification u msg r = r"
    by (simp add: buffer_notification_def dict_get_None [symmetric])
  ultimately show ?thesis using buffered(1) by (simp add: buffer_frame)
next
  case (delivered p w)
  then have "known_uri u r" by (auto simp: known_uri_def)
  moreover have "buffered_for u (route_or_buffer u now msg r) = buffered_for u r
      \<and> delivered_to u (route_or_buffer u now msg r) = delivered_to u r @ [msg]"
    using delivered by (simp add: buffered_for_def delivered_to_def worker_after_delivery put_notification_def)
  ultimately show ?thesis using routing_other_uri [of v u now msg r] by (cases "v = u") simp_all
qed

text \<open>An instance: one message before the pool exists, one for a stranger.\<close>

definition demo_routing :: routing where
  "demo_routing = register_init_uri ''a'' \<lparr>worker_pool = None, init_buffers = []\<rparr>"

theorem routing_keeps_notifications_witness:
  "buffered_for ''a'' (route_or_buffer ''a'' 1 JNull demo_routing) = [JNull]
     \<and> route_or_buffer ''z'' 1 JNull demo_routing = demo_routing"
  using routing_keeps_notifications [of "''a''" demo_routing 1 JNull "''a''"]
    routing_keeps_notifications [of "''z''" demo_routing 1 JNull "''z''"]
  by (simp add: demo_routing_def register_init_uri_def known_uri_def dict_keys_def delivered_to_def buffered_for_def)
    (auto simp: route_or_buffer_def buffer_notification_def)

text \<open>
  C40: Building the pool loses no notification. What arrives for a worker's document before the pool is
  known is handed, complete and in order, to the \<open>_didopen\<close> that opens the document, which reads it before
  anything that arrives later.
\<close>
theorem early_notifications_reach_didopen:
  assumes "worker_pool r = None" and "\<forall>(a, m) \<in> set msgs. now < a"
    and "fold (\<lambda>m. route_or_buffer u 0 m) ms (register_init_uri u r) = r'"
  shows "insert_drained now (snd (drain_init_buffer u r')) msgs = map (\<lambda>m. (now, m)) ms @ msgs
    \<and> buffered_for u (fst (drain_init_buffer u r')) = []"
proof -
  have buf: "worker_pool s = None \<Longrightarrow> dict_get (init_buffers s) u = Some xs \<Longrightarrow>
      dict_get (init_buffers (fold (\<lambda>m. route_or_buffer u 0 m) ms s)) u = Some (xs @ ms)" for s xs
  proof (induction ms arbitrary: s xs)
    case (Cons m ms)
    let ?s = "route_or_buffer u 0 m s"
    have "worker_pool ?s = None" "dict_get (init_buffers ?s) u = Some (xs @ [m])"
      using Cons.prems by (simp_all add: route_or_buffer_def buffer_notification_def dict_simps)
    from Cons.IH [OF this] show ?case by simp
  qed simp
  have "dict_get (init_buffers r') u = Some ms"
    using buf [of "register_init_uri u r" "[]"] assms(1,3) by (simp add: register_init_uri_def dict_simps)
  moreover have "takeWhile (\<lambda>(a, m). a \<le> now) msgs = []" "dropWhile (\<lambda>(a, m). a \<le> now) msgs = msgs"
    using assms(2) by (cases msgs; auto)+
  ultimately show ?thesis
    by (simp add: insert_drained_def drain_init_buffer_def buffered_for_def dict_simps)
qed

theorem early_notifications_reach_didopen_witness:
  "\<exists>r'. insert_drained 3 (snd (drain_init_buffer ''a'' r')) [(4, JBool True)] = [(3, JNull), (3, JInt 1), (4, JBool True)]"
  using early_notifications_reach_didopen [of demo_routing "[(4, JBool True)]" 3 "''a''" "[JNull, JInt 1]"]
  by (auto simp: demo_routing_def register_init_uri_def)

end
