(* ===== verification/Watchdog.thy ===== *)
theory Watchdog imports Events Tunables begin

text \<open>
  The owner's side of the watchdog (\<open>class Watchdog\<close> of \<open>pyleaner/watchdog.py\<close>): its configuration, the
  commands it sends to the monitor, the scopes it owns. Commands, events and the generation counter are in
  the shared environment \<open>io\<close>; \<open>_send\<close> is \<open>send_command\<close> there.
\<close>

section \<open>Configuration\<close>

record watchdog =
  interval :: real
  wd_memory_poll :: real
  memory_high :: "int option"
  memory_max :: "int option"
  armed :: bool
  base_text :: string
  pool_size :: nat
  worker_scopes :: "(int, guard) dict"
  server_ready :: bool
  restart_locked :: bool
  stopping :: bool
  scopes_stopped :: "string list" \<comment> \<open>units handed to \<open>_stop_systemd_scope\<close>\<close>

definition new_watchdog :: "real \<Rightarrow> real \<Rightarrow> int option \<Rightarrow> int option \<Rightarrow> exn + watchdog" where
  "new_watchdog i poll high mx =
     (if poll \<le> 0 then Inl (ValueError ''watchdog memory poll interval must be positive'')
      else if (high = None) \<noteq> (mx = None)
        then Inl (ValueError ''worker memory high/max limits must both be set or both be None'')
      else (case (high, mx) of
        (Some h, Some m) \<Rightarrow>
          if h \<le> 0 then Inl (ValueError ''worker memory limits must be positive'')
          else if m \<le> h then Inl (ValueError ''worker memory high limit must be below max limit'')
          else Inr \<lparr>interval = i, wd_memory_poll = poll, memory_high = high, memory_max = mx, armed = False,
                 base_text = [], pool_size = 1, worker_scopes = [], server_ready = True, restart_locked = False,
                 stopping = False, scopes_stopped = []\<rparr>
      | _ \<Rightarrow> Inr \<lparr>interval = i, wd_memory_poll = poll, memory_high = high, memory_max = mx, armed = False,
                 base_text = [], pool_size = 1, worker_scopes = [], server_ready = True, restart_locked = False,
                 stopping = False, scopes_stopped = []\<rparr>))"

definition arm :: "string \<Rightarrow> nat \<Rightarrow> watchdog \<Rightarrow> watchdog" where
  "arm t n d = d\<lparr>base_text := t, pool_size := n, armed := True\<rparr>"

definition memory_guards_enabled :: "watchdog \<Rightarrow> bool" where
  "memory_guards_enabled d \<longleftrightarrow> memory_max d \<noteq> None"

section \<open>Commands\<close>

definition set_root_process :: "int \<Rightarrow> io \<Rightarrow> io" where
  "set_root_process pid w =
     (let w1 = w\<lparr>generation := generation w + 1\<rparr> in send_command (CRoot pid (generation w1)) w1)"

definition pause_monitor :: "io \<Rightarrow> io" where
  "pause_monitor w = send_command CPause w"

text \<open>
  \<open>start\<close>: a new monitor process gets new queues; one that runs is kept. The server, if it is alive, is
  announced in both cases. When the process cannot be started, the queues and the process object are there all
  the same, nothing is announced and the exception is passed on. The receiver thread that \<open>start\<close> starts with the
  first process is \<open>receive_events\<close> of \<open>Receiver\<close>.
\<close>

definition start_watchdog ::
  "bool \<Rightarrow> exn option \<Rightarrow> int option \<Rightarrow> watchdog \<Rightarrow> io \<Rightarrow> watchdog \<times> io \<times> (exn + unit)" where
  "start_watchdog monitor_alive start_fails server_pid d w =
     (let running = (monitor_up w \<and> monitor_alive);
          d1 = (if running then d else d\<lparr>stopping := False\<rparr>);
          w1 = (if running then w else w\<lparr>monitor_up := True, commands := []\<rparr>);
          w2 = (case server_pid of Some pid \<Rightarrow> set_root_process pid w1 | None \<Rightarrow> w1)
      in if running then (d1, w2, Inr ())
         else (case start_fails of Some e \<Rightarrow> (d1, w1, Inl e) | None \<Rightarrow> (d1, w2, Inr ())))"

section \<open>Scopes\<close>

definition stop_unit :: "string \<Rightarrow> watchdog \<Rightarrow> watchdog" where
  "stop_unit unit d = (if unit = [] then d else d\<lparr>scopes_stopped := scopes_stopped d @ [unit]\<rparr>)"

definition stop_worker_scopes :: "watchdog \<Rightarrow> watchdog" where
  "stop_worker_scopes d =
     fold (\<lambda>(w, g). stop_unit (g_unit g)) (worker_scopes d) (d\<lparr>worker_scopes := []\<rparr>)"

text \<open>\<open>_accept_replacement_guard\<close>: \<open>None\<close> for an event without a guard.\<close>

definition accept_replacement_guard ::
  "nat \<Rightarrow> int \<Rightarrow> int \<Rightarrow> guard \<Rightarrow> io \<Rightarrow> watchdog \<Rightarrow> watchdog" where
  "accept_replacement_guard gen wid old_pid g w d =
     (if gen \<noteq> generation w then stop_unit (g_unit g) d
      else (case dict_get (worker_scopes d) wid of
              Some current \<Rightarrow>
                if g_pid current = old_pid then d\<lparr>worker_scopes := dict_set wid g (worker_scopes d)\<rparr>
                else stop_unit (g_unit g) d
            | None \<Rightarrow> stop_unit (g_unit g) d))"

text \<open>
  \<open>attach_worker_guards\<close>: the process table is read until every worker is found, at most until its
  timeout; \<open>readings\<close> are what those reads return. With memory limits every process is adopted by a scope
  of its own; when one adoption fails, the scopes created before it are stopped.
\<close>

definition all_found :: "nat \<Rightarrow> (int, int) dict \<Rightarrow> bool" where
  "all_found n pids \<longleftrightarrow> (\<forall>i \<in> set [1..<Suc n]. dict_get pids (int i) \<noteq> None)"

fun locate_workers :: "nat \<Rightarrow> (int, int) dict list \<Rightarrow> (int, int) dict \<Rightarrow> (int, int) dict" where
  "locate_workers n [] pids = pids"
| "locate_workers n (p # ps) pids = (if all_found n p then p else locate_workers n ps p)"

fun create_guards ::
  "(int \<Rightarrow> int \<Rightarrow> exn + (string \<times> string)) option \<Rightarrow> (string \<Rightarrow> int option) \<Rightarrow> (int, int) dict \<Rightarrow> nat list
     \<Rightarrow> (int, guard) dict \<Rightarrow> (exn \<times> (int, guard) dict) + (int, guard) dict" where
  "create_guards adopting oom pids [] created = Inr created"
| "create_guards adopting oom pids (i # is) created =
     (let pid = (case dict_get pids (int i) of Some p \<Rightarrow> p | None \<Rightarrow> 0)
      in case adopting of
           None \<Rightarrow>
             create_guards adopting oom pids is
               (dict_set (int i) \<lparr>g_pid = pid, g_unit = [], g_cgroup = [], g_oom = 0\<rparr> created)
         | Some f \<Rightarrow>
             (case f pid (int i) of
                Inl e \<Rightarrow> Inl (e, created)
              | Inr (unit, cgroup) \<Rightarrow>
                  create_guards adopting oom pids is
                    (dict_set (int i)
                       \<lparr>g_pid = pid, g_unit = unit, g_cgroup = cgroup,
                        g_oom = (if cgroup = [] then 0 else case oom cgroup of Some n \<Rightarrow> n | None \<Rightarrow> 0)\<rparr> created)))"

definition attach_worker_guards ::
  "bool \<Rightarrow> (int, int) dict list \<Rightarrow> (int \<Rightarrow> int \<Rightarrow> exn + (string \<times> string)) \<Rightarrow> (string \<Rightarrow> int option)
     \<Rightarrow> watchdog \<Rightarrow> io \<Rightarrow> watchdog \<times> io \<times> (exn + unit)" where
  "attach_worker_guards server_alive readings adopting oom d w =
     (if \<not> server_alive then (d, w, Inl (RuntimeError ''cannot observe workers of a dead Lean server''))
      else
        (let pids = locate_workers (pool_size d) readings []
         in if \<not> all_found (pool_size d) pids
            then (d, w, if memory_guards_enabled d
                        then Inl (RuntimeError ''cannot locate Lean OS worker(s) for cgroup guard'') else Inr ())
            else
              (let d1 = stop_worker_scopes d
               in case create_guards (if memory_guards_enabled d then Some adopting else None) oom pids
                         [1..<Suc (pool_size d)] [] of
                    Inl (e, created) \<Rightarrow>
                      (if is_Exception e then fold (\<lambda>(i, g). stop_unit (g_unit g)) created d1 else d1, w, Inl e)
                  | Inr created \<Rightarrow>
                      (d1\<lparr>worker_scopes := created\<rparr>, send_command (CGuards (generation w) created) w, Inr ()))))"

section \<open>Configurations that are accepted\<close>

text \<open>
  A watchdog exists only for a sane configuration: a positive poll interval, and memory limits that
  are both absent, or both there, positive and in order.
\<close>
theorem new_watchdog_accepts_exactly:
  "(\<exists>d. new_watchdog i poll high mx = Inr d) \<longleftrightarrow>
     0 < poll \<and> (high = None \<and> mx = None \<or> (\<exists>h m. high = Some h \<and> mx = Some m \<and> 0 < h \<and> h < m))"
  by (cases high; cases mx) (auto simp: new_watchdog_def)

section \<open>No scope is leaked\<close>

text \<open>The units an owner is responsible for: those of its scopes, and those it has stopped.\<close>

definition owned_units :: "watchdog \<Rightarrow> string set" where
  "owned_units d = {g_unit g | i g. dict_get (worker_scopes d) i = Some g}"

lemma stop_unit_frame [frame_simps]:
  "worker_scopes (stop_unit u d) = worker_scopes d" "server_ready (stop_unit u d) = server_ready d"
  "armed (stop_unit u d) = armed d" "restart_locked (stop_unit u d) = restart_locked d"
  "pool_size (stop_unit u d) = pool_size d" "stopping (stop_unit u d) = stopping d"
  "set (scopes_stopped (stop_unit u d)) = (if u = [] then {} else {u}) \<union> set (scopes_stopped d)"
  by (auto simp: stop_unit_def)

lemma stop_units_frame [frame_simps]:
  "worker_scopes (fold (\<lambda>(w, g). stop_unit (g_unit g)) gs d) = worker_scopes d"
  "server_ready (fold (\<lambda>(w, g). stop_unit (g_unit g)) gs d) = server_ready d"
  "restart_locked (fold (\<lambda>(w, g). stop_unit (g_unit g)) gs d) = restart_locked d"
  "armed (fold (\<lambda>(w, g). stop_unit (g_unit g)) gs d) = armed d"
  "pool_size (fold (\<lambda>(w, g). stop_unit (g_unit g)) gs d) = pool_size d"
  "set (scopes_stopped (fold (\<lambda>(w, g). stop_unit (g_unit g)) gs d)) =
     set (scopes_stopped d) \<union> (g_unit ` snd ` set gs - {[]})"
  by (induction gs arbitrary: d) (auto simp: frame_simps split: if_splits)

text \<open>
  A replacement scope is never leaked. Whatever the race between the monitor, which created it, and
  the owner, the unit is afterwards owned or stopped; and it is owned only if it replaces the process
  that the owner guards for this worker, under the current server.
\<close>
theorem replacement_scope_owned_or_stopped:
  assumes "g_unit g \<noteq> []" and "accept_replacement_guard gen wid old_pid g w d = d'"
  shows "(g_unit g \<in> owned_units d' \<or> g_unit g \<in> set (scopes_stopped d'))
    \<and> (worker_scopes d' = worker_scopes d \<or> gen = generation w
           \<and> (\<exists>c. dict_get (worker_scopes d) wid = Some c \<and> g_pid c = old_pid))"
  using assms
  by (auto simp: accept_replacement_guard_def frame_simps owned_units_def dict_simps split: option.splits if_splits)

definition demo_watchdog :: watchdog where
  "demo_watchdog = \<lparr>interval = WATCHDOG_POLL_INTERVAL, wd_memory_poll = MEMORY_POLL_INTERVAL, memory_high = None,
     memory_max = None, armed = True, base_text = ''import Lean'', pool_size = 1,
     worker_scopes = [(1, \<lparr>g_pid = 70, g_unit = ''old'', g_cgroup = ''c'', g_oom = 0\<rparr>)], server_ready = True,
     restart_locked = False, stopping = False, scopes_stopped = []\<rparr>"

definition demo_shared :: io where
  "demo_shared = \<lparr>sink_on = False, events = [], answers = [], generation = 3, monitor_up = True, commands = []\<rparr>"

theorem replacement_scope_owned_or_stopped_witness:
  "scopes_stopped (accept_replacement_guard 2 1 70 \<lparr>g_pid = 71, g_unit = ''new'', g_cgroup = ''c'', g_oom = 0\<rparr>
      demo_shared demo_watchdog) = [''new'']
   \<and> ''new'' \<in> owned_units (accept_replacement_guard 3 1 70 \<lparr>g_pid = 71, g_unit = ''new'', g_cgroup = ''c'', g_oom = 0\<rparr>
      demo_shared demo_watchdog)"
  using replacement_scope_owned_or_stopped
    [of "\<lparr>g_pid = 71, g_unit = ''new'', g_cgroup = ''c'', g_oom = 0\<rparr>" 3 1 70 demo_shared demo_watchdog]
  by (simp add: accept_replacement_guard_def demo_shared_def demo_watchdog_def stop_unit_def)

end
