(* ===== verification/Monitor.thy ===== *)
theory Monitor imports Events Tunables begin

text \<open>
  The monitor process (\<open>_watchdog_monitor_main\<close> of \<open>pyleaner/watchdog.py\<close>). It receives commands, looks
  at the operating system, and reports triggers. One \<open>monitor_tick\<close> is one iteration of its outer loop:
  the commands that are waiting, and a view of the system. What it reads from the system is data of the
  view; the parsers of \<open>ProcFs\<close> say how the code obtains it.
\<close>

section \<open>State\<close>

record monitor_config =
  deadline :: real
  poll_interval :: real
  memory_poll_interval :: real
  soft_limit :: "int option"
  hard_limit :: "int option"
  replacement_grace :: real

record monitor =
  root_pid :: "int option"
  m_generation :: nat
  paused :: bool
  tasks :: "(int, real) dict" \<comment> \<open>worker to the start of its task\<close>
  guards :: "(int, guard) dict"
  missing_since :: "(int, real) dict"
  last_deadline_poll :: real
  stopped_scopes :: "string list"

datatype monitor_event =
    Trigger nat string string "int list" \<comment> \<open>generation, trigger, reason, workers\<close>
  | GuardReplaced nat int int guard \<comment> \<open>generation, worker, old pid, new guard\<close>
  | EventStop

definition monitor_start :: monitor where
  "monitor_start = \<lparr>root_pid = None, m_generation = 0, paused = True, tasks = [], guards = [],
     missing_since = [], last_deadline_poll = 0, stopped_scopes = []\<rparr>"

text \<open>
  A view of the system during one iteration. \<open>alive_later\<close> is the second look at a replacement, after its
  adoption; \<open>adopt pid worker\<close> creates a scope, giving its unit and cgroup path.
\<close>

record system_view =
  parent_alive :: bool
  now :: real
  alive :: "int \<Rightarrow> bool"
  alive_later :: "int \<Rightarrow> bool"
  rss_anon :: "int \<Rightarrow> int option"
  oom_kills :: "string \<Rightarrow> int option"
  scope_result :: "string \<Rightarrow> string"
  worker_pids :: "int \<Rightarrow> (int, int) dict"
  adopt :: "int \<Rightarrow> int \<Rightarrow> exn + (string \<times> string)"

section \<open>Commands\<close>

definition clear_tasks :: "monitor \<Rightarrow> monitor" where
  "clear_tasks m = m\<lparr>tasks := [], guards := [], missing_since := []\<rparr>"

fun run_command :: "command \<Rightarrow> monitor \<Rightarrow> monitor \<times> monitor_event list" where
  "run_command CStop m = (m, [])"
| "run_command CPause m = (clear_tasks (m\<lparr>paused := True\<rparr>), [])"
| "run_command (CRoot pid gen) m =
     (clear_tasks (m\<lparr>root_pid := Some pid, m_generation := gen, paused := False\<rparr>), [])"
| "run_command (CGuards gen gs) m =
     (if gen = m_generation m then m\<lparr>guards := gs, missing_since := []\<rparr> else m, [])"
| "run_command (CTaskStarted gen w t) m =
     (if gen = m_generation m then m\<lparr>tasks := dict_set w t (tasks m)\<rparr> else m, [])"
| "run_command (CTaskFinished gen w) m =
     (if gen = m_generation m then m\<lparr>tasks := dict_pop w (tasks m)\<rparr> else m, [])"
| "run_command (CFatal gen reason) m =
     (if \<not> paused m \<and> gen = m_generation m
      then (m\<lparr>paused := True\<rparr>, [Trigger gen ''fatal'' reason (dict_keys (tasks m))])
      else (m, []))"

text \<open>The boolean says whether a stop was met; what follows it is not read.\<close>

fun run_commands :: "command list \<Rightarrow> monitor \<Rightarrow> monitor \<times> monitor_event list \<times> bool" where
  "run_commands [] m = (m, [], False)"
| "run_commands (c # cs) m =
     (if c = CStop then (m, [], True)
      else (case run_command c m of
              (m1, es) \<Rightarrow> (case run_commands cs m1 of (m2, es', stopped) \<Rightarrow> (m2, es @ es', stopped))))"

section \<open>Guards\<close>

definition is_alive :: "system_view \<Rightarrow> int \<Rightarrow> bool" where
  "is_alive v pid \<longleftrightarrow> pid \<noteq> 0 \<and> alive v pid"

definition guard_reason :: "string \<Rightarrow> int \<Rightarrow> guard \<Rightarrow> string \<Rightarrow> string" where
  "guard_reason what w g extra =
     what @ '' (worker='' @ show_int w @ '', pid='' @ show_int (g_pid g) @ extra @ '')''"

text \<open>\<open>rss_anon=..., limit=...\<close> of the soft limit's reason; both values are there when it is used.\<close>

definition rss_text :: "int option \<Rightarrow> int option \<Rightarrow> string" where
  "rss_text r l = '', rss_anon='' @ (case r of Some n \<Rightarrow> show_int n | None \<Rightarrow> ''None'')
     @ '', limit='' @ (case l of Some n \<Rightarrow> show_int n | None \<Rightarrow> ''None'')"

definition scope_text :: "string \<Rightarrow> string" where
  "scope_text scope = '', scope_result='' @ (if scope = [] then ''unknown'' else scope)"

definition overdrawn :: "system_view \<Rightarrow> guard \<Rightarrow> bool" where
  "overdrawn v g \<longleftrightarrow> g_cgroup g \<noteq> [] \<and> (case oom_kills v (g_cgroup g) of Some n \<Rightarrow> g_oom g < n | None \<Rightarrow> False)"

definition above_soft_limit :: "monitor_config \<Rightarrow> system_view \<Rightarrow> guard \<Rightarrow> bool" where
  "above_soft_limit cfg v g \<longleftrightarrow>
     (case (soft_limit cfg, rss_anon v (g_pid g)) of (Some l, Some r) \<Rightarrow> l < r | _ \<Rightarrow> False)"

text \<open>The live process that took over a worker's document, if it is not the guarded one.\<close>

definition replacement_of :: "system_view \<Rightarrow> monitor \<Rightarrow> int \<Rightarrow> guard \<Rightarrow> int option" where
  "replacement_of v m w g =
     (case dict_get (worker_pids v (case root_pid m of Some p \<Rightarrow> p | None \<Rightarrow> 0)) w of
        Some pid \<Rightarrow> if pid \<noteq> g_pid g \<and> is_alive v pid then Some pid else None
      | None \<Rightarrow> None)"

definition new_guard :: "monitor_config \<Rightarrow> system_view \<Rightarrow> int \<Rightarrow> int \<Rightarrow> exn + guard" where
  "new_guard cfg v w pid =
     (case hard_limit cfg of
        None \<Rightarrow> Inr \<lparr>g_pid = pid, g_unit = [], g_cgroup = [], g_oom = 0\<rparr>
      | Some l \<Rightarrow>
          (case adopt v pid w of
             Inl e \<Rightarrow> Inl e
           | Inr (unit, cgroup) \<Rightarrow>
               Inr \<lparr>g_pid = pid, g_unit = unit, g_cgroup = cgroup,
                    g_oom = (case oom_kills v cgroup of Some n \<Rightarrow> n | None \<Rightarrow> 0)\<rparr>))"

definition mark_missing :: "int \<Rightarrow> real \<Rightarrow> monitor \<Rightarrow> monitor" where
  "mark_missing w t m = m\<lparr>missing_since := dict_setdefault w t (missing_since m)\<rparr>"

definition stop_scope :: "string \<Rightarrow> monitor \<Rightarrow> monitor" where
  "stop_scope unit m = (if unit = [] then m else m\<lparr>stopped_scopes := stopped_scopes m @ [unit]\<rparr>)"

text \<open>A replacement is bound to the worker; one that is already gone again is only remembered as missing.\<close>

definition rebind :: "monitor_config \<Rightarrow> system_view \<Rightarrow> int \<Rightarrow> guard \<Rightarrow> int \<Rightarrow> monitor \<Rightarrow> monitor \<times> monitor_event list" where
  "rebind cfg v w g pid m =
     (case new_guard cfg v w pid of
        Inl e \<Rightarrow> (mark_missing w (now v) m, [])
      | Inr g' \<Rightarrow>
          if \<not> alive_later v pid then (mark_missing w (now v) (stop_scope (g_unit g') m), [])
          else (stop_scope (g_unit g)
                  (m\<lparr>guards := dict_set w g' (guards m), missing_since := dict_pop w (missing_since m)\<rparr>),
                [GuardReplaced (m_generation m) w (g_pid g) g']))"

definition pause_with :: "string \<Rightarrow> string \<Rightarrow> int list \<Rightarrow> monitor \<Rightarrow> monitor \<times> monitor_event list" where
  "pause_with trigger reason ws m = (m\<lparr>paused := True\<rparr>, [Trigger (m_generation m) trigger reason ws])"

definition check_guard ::
  "monitor_config \<Rightarrow> system_view \<Rightarrow> int \<Rightarrow> guard \<Rightarrow> monitor \<Rightarrow> monitor \<times> monitor_event list" where
  "check_guard cfg v w g m =
     (let scope = (if g_unit g = [] then [] else scope_result v (g_unit g)) in
      if overdrawn v g
      then pause_with ''memory'' (guard_reason ''Lean worker hit its cgroup hard memory limit'' w g []) [w] m
      else if above_soft_limit cfg v g \<and> w \<in> set (dict_keys (tasks m))
      then pause_with ''memory'' (guard_reason ''Lean worker exceeded its anonymous-RSS soft limit'' w g
             (rss_text (rss_anon v (g_pid g)) (soft_limit cfg))) [w] m
      else if is_alive v (g_pid g)
      then (m\<lparr>missing_since := dict_pop w (missing_since m)\<rparr>, [])
      else if scope = ''oom-kill''
      then pause_with ''memory'' (guard_reason ''Lean worker was killed by its cgroup hard memory limit'' w g []) [w] m
      else (case replacement_of v m w g of
              Some pid \<Rightarrow> rebind cfg v w g pid m
            | None \<Rightarrow>
                (let m1 = mark_missing w (now v) m;
                     first_missing = (case dict_get (missing_since m1) w of Some t \<Rightarrow> t | None \<Rightarrow> now v)
                 in if w \<notin> set (dict_keys (tasks m1)) \<or> now v - first_missing < replacement_grace cfg
                    then (m1, [])
                    else pause_with ''worker_death''
                      (guard_reason ''Guarded Lean worker exited without a replacement while processing a task'' w g
                        (scope_text scope))
                      [w] m1)))"

text \<open>The pass over the guards stops at the first trigger.\<close>

fun check_guards ::
  "monitor_config \<Rightarrow> system_view \<Rightarrow> (int, guard) dict \<Rightarrow> monitor \<Rightarrow> monitor \<times> monitor_event list" where
  "check_guards cfg v [] m = (m, [])"
| "check_guards cfg v ((w, g) # gs) m =
     (case check_guard cfg v w g m of
        (m1, es) \<Rightarrow>
          if paused m1 then (m1, es)
          else (case check_guards cfg v gs m1 of (m2, es') \<Rightarrow> (m2, es @ es')))"

section \<open>One iteration\<close>

definition overdue :: "monitor_config \<Rightarrow> system_view \<Rightarrow> monitor \<Rightarrow> int list" where
  "overdue cfg v m = map fst (filter (\<lambda>(w, t). deadline cfg < now v - t) (tasks m))"

text \<open>\<open>f"task exceeded {deadline}s"\<close> for a deadline that is a whole number of seconds.\<close>

definition deadline_reason :: "real \<Rightarrow> string" where
  "deadline_reason d = ''task exceeded '' @ show_int \<lfloor>d\<rfloor> @ ''.0s''"

definition check_system :: "monitor_config \<Rightarrow> system_view \<Rightarrow> monitor \<Rightarrow> monitor \<times> monitor_event list" where
  "check_system cfg v m =
     (case root_pid m of
        Some pid \<Rightarrow>
          if \<not> is_alive v pid
          then pause_with ''death'' (''Lean server process exited (pid='' @ show_int pid @ '')'') (dict_keys (tasks m)) m
          else if poll_interval cfg \<le> now v - last_deadline_poll m
          then (if overdue cfg v m \<noteq> []
                then pause_with ''deadline'' (deadline_reason (deadline cfg)) (overdue cfg v m) m
                else check_guards cfg v (guards m) (m\<lparr>last_deadline_poll := now v\<rparr>))
          else check_guards cfg v (guards m) m
      | None \<Rightarrow> pause_with ''death'' ''Lean server process exited (pid=None)'' (dict_keys (tasks m)) m)"

text \<open>\<open>True\<close> in the last component: the process returns.\<close>

definition monitor_tick ::
  "monitor_config \<Rightarrow> command list \<times> system_view \<Rightarrow> monitor \<Rightarrow> monitor \<times> monitor_event list \<times> bool" where
  "monitor_tick cfg = (\<lambda>(cs, v) m.
     case run_commands cs m of
       (m1, es, stopped) \<Rightarrow>
         if stopped \<or> \<not> parent_alive v then (m1, es, True)
         else if paused m1 then (m1, es, False)
         else (case check_system cfg v m1 of (m2, es') \<Rightarrow> (m2, es @ es', False)))"

fun monitor_run ::
  "monitor_config \<Rightarrow> (command list \<times> system_view) list \<Rightarrow> monitor \<Rightarrow> monitor \<times> monitor_event list" where
  "monitor_run cfg [] m = (m, [])"
| "monitor_run cfg (x # xs) m =
     (case monitor_tick cfg x m of
        (m1, es, stopped) \<Rightarrow>
          if stopped then (m1, es)
          else (case monitor_run cfg xs m1 of (m2, es') \<Rightarrow> (m2, es @ es')))"

section \<open>One trigger per server\<close>

text \<open>
  The generations of the triggers among some events, and of the roots among some commands. The owning
  process numbers the servers it starts upwards.
\<close>

fun trigger_gens :: "monitor_event list \<Rightarrow> nat list" where
  "trigger_gens [] = []"
| "trigger_gens (Trigger g tr r ws # es) = g # trigger_gens es"
| "trigger_gens (e # es) = trigger_gens es"

fun root_gens :: "command list \<Rightarrow> nat list" where
  "root_gens [] = []"
| "root_gens (CRoot pid g # cs) = g # root_gens cs"
| "root_gens (c # cs) = root_gens cs"

lemma trigger_gens_append [simp]: "trigger_gens (es @ es') = trigger_gens es @ trigger_gens es'"
  by (induction es rule: trigger_gens.induct) auto

lemma root_gens_Cons: "root_gens (c # cs) = (case c of CRoot pid g \<Rightarrow> [g] | _ \<Rightarrow> []) @ root_gens cs"
  by (cases c) auto

text \<open>
  Given that the past triggers \<open>gs\<close> are distinct and no later than the current server, a step that starts at
  \<open>m\<close> and ends at \<open>m'\<close> with triggers \<open>new\<close> keeps this, and triggers for the current server only once, by
  falling silent. \<open>quiet_or_last\<close> is the invariant.
\<close>

definition quiet_or_last :: "nat list \<Rightarrow> monitor \<Rightarrow> bool" where
  "quiet_or_last gs m \<longleftrightarrow> distinct gs \<and> (\<forall>g \<in> set gs. g \<le> m_generation m)
     \<and> (m_generation m \<in> set gs \<longrightarrow> paused m)"

text \<open>Looking at the system: the generation stays, and it pauses exactly when it triggers.\<close>

definition one_shot :: "monitor \<Rightarrow> monitor \<times> monitor_event list \<Rightarrow> bool" where
  "one_shot m = (\<lambda>(m', es). m_generation m' = m_generation m \<and>
     (if paused m' then trigger_gens es = [m_generation m] else trigger_gens es = []))"

lemma one_shot_pause: "m_generation m1 = m_generation m \<Longrightarrow> one_shot m (pause_with tr r ws m1)"
  by (simp add: one_shot_def pause_with_def)

lemma mark_missing_frame [frame_simps]:
  "m_generation (mark_missing w t m) = m_generation m" "paused (mark_missing w t m) = paused m"
  "tasks (mark_missing w t m) = tasks m" "guards (mark_missing w t m) = guards m"
  "root_pid (mark_missing w t m) = root_pid m" "last_deadline_poll (mark_missing w t m) = last_deadline_poll m"
  by (simp_all add: mark_missing_def)

lemma stop_scope_frame [frame_simps]:
  "m_generation (stop_scope u m) = m_generation m" "paused (stop_scope u m) = paused m"
  "tasks (stop_scope u m) = tasks m" "guards (stop_scope u m) = guards m" "root_pid (stop_scope u m) = root_pid m"
  "missing_since (stop_scope u m) = missing_since m" "last_deadline_poll (stop_scope u m) = last_deadline_poll m"
  by (simp_all add: stop_scope_def)

lemma rebind_silent:
  assumes "rebind cfg v w g pid m = (m', es)"
  shows "m_generation m' = m_generation m" and "paused m' = paused m" and "trigger_gens es = []"
    and "tasks m' = tasks m" and "last_deadline_poll m' = last_deadline_poll m"
  using assms by (auto simp: rebind_def frame_simps split: sum.splits if_splits)

lemma check_guard_one_shot:
  assumes "\<not> paused m"
  shows "one_shot m (check_guard cfg v w g m)"
proof (cases "replacement_of v m w g")
  case None
  with assms show ?thesis
    by (auto simp: check_guard_def Let_def frame_simps intro!: one_shot_pause) (auto simp: one_shot_def frame_simps)
next
  case (Some pid)
  obtain m' es where r: "rebind cfg v w g pid m = (m', es)" by fastforce
  with Some assms rebind_silent [OF r] show ?thesis
    by (auto simp: check_guard_def Let_def intro!: one_shot_pause) (auto simp: one_shot_def)
qed

lemma check_guards_one_shot: "\<not> paused m \<Longrightarrow> one_shot m (check_guards cfg v gs m)"
proof (induction gs arbitrary: m)
  case (Cons x gs)
  obtain w g where x: "x = (w, g)" by fastforce
  obtain m1 es where c: "check_guard cfg v w g m = (m1, es)" by fastforce
  from check_guard_one_shot [OF Cons.prems, of cfg v w g] c
  have 1: "one_shot m (m1, es)" by simp
  show ?case
  proof (cases "paused m1")
    case True
    with 1 c x show ?thesis by simp
  next
    case False
    obtain m2 es' where "check_guards cfg v gs m1 = (m2, es')" by fastforce
    with Cons.IH [OF False] 1 False c x show ?thesis by (auto simp: one_shot_def split: if_splits)
  qed
qed (simp add: one_shot_def)

lemma check_system_one_shot:
  assumes "\<not> paused m"
  shows "one_shot m (check_system cfg v m)"
proof -
  have "one_shot m (check_guards cfg v gs (m\<lparr>last_deadline_poll := t\<rparr>))" for gs t
    using check_guards_one_shot [of "m\<lparr>last_deadline_poll := t\<rparr>" cfg v gs] assms
    by (auto simp: one_shot_def split: prod.splits if_splits)
  then show ?thesis
    using check_guards_one_shot [OF assms] by (auto simp: check_system_def one_shot_pause split: option.split)
qed

lemma one_shot_keeps:
  assumes "quiet_or_last gs m" and "\<not> paused m" and "one_shot m (m', es)"
  shows "quiet_or_last (gs @ trigger_gens es) m'"
  using assms by (auto simp: quiet_or_last_def one_shot_def split: if_splits)

lemma run_command_keeps:
  assumes "quiet_or_last gs m" and "sorted_wrt (<) (m_generation m # root_gens (c # cs))"
    and "run_command c m = (m', es)"
  shows "quiet_or_last (gs @ trigger_gens es) m' \<and> sorted_wrt (<) (m_generation m' # root_gens cs)"
  using assms by (cases c) (auto simp: quiet_or_last_def clear_tasks_def split: if_splits)

lemma run_commands_keeps:
  assumes "quiet_or_last gs m" and "sorted_wrt (<) (m_generation m # root_gens cs @ later)"
    and "run_commands cs m = (m', es, b)"
  shows "quiet_or_last (gs @ trigger_gens es) m' \<and> sorted_wrt (<) (m_generation m' # later)"
  using assms
proof (induction cs arbitrary: gs m es)
  case Nil
  then show ?case by simp
next
  case (Cons c cs)
  show ?case
  proof (cases "c = CStop")
    case True
    with Cons.prems show ?thesis by (auto simp: sorted_wrt_append)
  next
    case False
    obtain m1 e1 where r: "run_command c m = (m1, e1)" by fastforce
    obtain e2 where rs: "run_commands cs m1 = (m', e2, b)" "es = e1 @ e2"
      using Cons.prems(3) False r by (auto split: prod.splits)
    have "sorted_wrt (<) (m_generation m # root_gens (c # cs))"
      using Cons.prems(2) by (auto simp: sorted_wrt_append)
    note K = run_command_keeps [OF Cons.prems(1) this r]
    have "sorted_wrt (<) (m_generation m1 # root_gens cs @ later)"
      using Cons.prems(2) r K by (cases c) (auto simp: sorted_wrt_append clear_tasks_def split: if_splits)
    from Cons.IH [OF conjunct1 [OF K] this] rs show ?thesis by simp
  qed
qed

lemma monitor_tick_keeps:
  assumes "quiet_or_last gs m" and "sorted_wrt (<) (m_generation m # root_gens cs @ later)"
    and "monitor_tick cfg (cs, v) m = (m', es, b)"
  shows "quiet_or_last (gs @ trigger_gens es) m' \<and> sorted_wrt (<) (m_generation m' # later)"
proof -
  obtain m1 e1 st where c: "run_commands cs m = (m1, e1, st)" by (metis prod_cases3)
  note K = run_commands_keeps [OF assms(1,2) c]
  show ?thesis
  proof (cases "st \<or> \<not> parent_alive v \<or> paused m1")
    case True
    with assms(3) c K show ?thesis by (auto simp: monitor_tick_def split: if_splits)
  next
    case False
    obtain e2 where s: "check_system cfg v m1 = (m', e2)" "es = e1 @ e2"
      using assms(3) c False by (auto simp: monitor_tick_def split: prod.splits)
    from False have "\<not> paused m1" by simp
    note O = check_system_one_shot [OF this, of cfg v, unfolded s(1)]
    from one_shot_keeps [OF conjunct1 [OF K] \<open>\<not> paused m1\<close> O] K O s(2) show ?thesis
      by (simp add: one_shot_def)
  qed
qed

lemma monitor_run_keeps:
  "quiet_or_last gs m \<Longrightarrow> sorted_wrt (<) (m_generation m # concat (map (root_gens \<circ> fst) xs) @ later) \<Longrightarrow>
     monitor_run cfg xs m = (m', es) \<Longrightarrow> quiet_or_last (gs @ trigger_gens es) m' \<and> sorted_wrt (<) (m_generation m' # later)"
proof (induction xs arbitrary: gs m es)
  case (Cons x xs)
  obtain cs v where x: "x = (cs, v)" by fastforce
  obtain m1 e1 st where t: "monitor_tick cfg (cs, v) m = (m1, e1, st)" by (metis prod_cases3)
  have "sorted_wrt (<) (m_generation m # root_gens cs @ concat (map (root_gens \<circ> fst) xs) @ later)"
    using Cons.prems(2) x by (simp add: comp_def)
  note K = monitor_tick_keeps [OF Cons.prems(1) this t]
  show ?case
  proof (cases st)
    case True
    with Cons.prems(3) x t K show ?thesis by (simp add: sorted_wrt_append)
  next
    case False
    obtain e2 where r: "monitor_run cfg xs m1 = (m', e2)" "es = e1 @ e2"
      using Cons.prems(3) x t False by (auto split: prod.splits)
    from Cons.IH [OF conjunct1 [OF K] conjunct2 [OF K] r(1)] r(2) show ?thesis by simp
  qed
qed simp

text \<open>
  The monitor triggers at most once for each server. However its commands arrive and whatever the
  system looks like, no two triggers of a run carry the same generation, and none is newer than
  the server the monitor was told of last.
\<close>
theorem one_trigger_per_server:
  assumes "sorted_wrt (<) (0 # concat (map (root_gens \<circ> fst) xs))"
    and "monitor_run cfg xs monitor_start = (m, es)"
  shows "distinct (trigger_gens es) \<and> (\<forall>g \<in> set (trigger_gens es). g \<le> m_generation m)"
  using monitor_run_keeps [OF _ _ assms(2), of "[]" "[]"] assms(1)
  by (simp add: quiet_or_last_def monitor_start_def)

definition demo_config :: monitor_config where
  "demo_config = \<lparr>deadline = WEDGE_DEADLINE, poll_interval = WATCHDOG_POLL_INTERVAL,
     memory_poll_interval = MEMORY_POLL_INTERVAL, soft_limit = Some 500, hard_limit = None,
     replacement_grace = WORKER_REPLACEMENT_GRACE\<rparr>"

text \<open>At time \<open>t\<close> the processes in \<open>up\<close> are alive, and \<open>ws\<close> says which of them are Lean workers.\<close>

definition demo_view :: "real \<Rightarrow> int list \<Rightarrow> (int, int) dict \<Rightarrow> system_view" where
  "demo_view t up ws = \<lparr>parent_alive = True, now = t, alive = (\<lambda>p. p \<in> set up), alive_later = (\<lambda>p. p \<in> set up),
     rss_anon = (\<lambda>p. Some 100), oom_kills = (\<lambda>p. None), scope_result = (\<lambda>u. []), worker_pids = (\<lambda>r. ws),
     adopt = (\<lambda>p w. Inl (RuntimeError ''no systemd''))\<rparr>"

lemmas monitor_defs = monitor_tick_def check_system_def check_guard_def pause_with_def overdue_def is_alive_def
  clear_tasks_def monitor_start_def demo_config_def demo_view_def tunables overdrawn_def above_soft_limit_def
  replacement_of_def rebind_def new_guard_def mark_missing_def stop_scope_def dict_keys_def

text \<open>Server 1 runs a task from time 1000 on that never ends; then server 2 dies.\<close>

definition demo_ticks :: "(command list \<times> system_view) list" where
  "demo_ticks = [([CRoot 50 1, CTaskStarted 1 7 1000], demo_view 1001 [50] []),
     ([], demo_view 1121 [50] []), ([CPause, CRoot 60 2], demo_view 1130 [] [])]"

lemma demo_triggers: "trigger_gens (snd (monitor_run demo_config demo_ticks monitor_start)) = [1, 2]"
  by (simp add: demo_ticks_def monitor_defs)

theorem one_trigger_per_server_witness:
  "distinct (trigger_gens (snd (monitor_run demo_config demo_ticks monitor_start)))
     \<and> trigger_gens (snd (monitor_run demo_config demo_ticks monitor_start)) = [1, 2]"
proof -
  obtain m es where r: "monitor_run demo_config demo_ticks monitor_start = (m, es)" by fastforce
  from one_trigger_per_server [OF _ r] demo_triggers r show ?thesis by (simp add: demo_ticks_def)
qed

section \<open>A wedge is detected in time\<close>

text \<open>Looking at the system changes neither the tasks nor, but for the poll itself, its time.\<close>

lemma check_guard_frame [frame_simps]:
  "tasks (fst (check_guard cfg v w g m)) = tasks m"
  "last_deadline_poll (fst (check_guard cfg v w g m)) = last_deadline_poll m"
proof -
  have "tasks (fst (rebind cfg v w g pid m)) = tasks m"
    "last_deadline_poll (fst (rebind cfg v w g pid m)) = last_deadline_poll m" for pid
    using rebind_silent(4,5) [of cfg v w g pid m] by (metis prod.collapse)+
  then show "tasks (fst (check_guard cfg v w g m)) = tasks m"
    "last_deadline_poll (fst (check_guard cfg v w g m)) = last_deadline_poll m"
    by (simp_all add: check_guard_def Let_def pause_with_def frame_simps split: option.split)
qed

lemma check_guards_frame [frame_simps]:
  "tasks (fst (check_guards cfg v gs m)) = tasks m"
  "last_deadline_poll (fst (check_guards cfg v gs m)) = last_deadline_poll m"
proof (induction gs arbitrary: m)
  case (Cons x gs)
  case 1
  show ?case using Cons check_guard_frame [of cfg v "fst x" "snd x" m]
    by (cases x) (auto split: prod.split, metis fst_conv)
  case 2
  show ?case using Cons check_guard_frame [of cfg v "fst x" "snd x" m]
    by (cases x) (auto split: prod.split, metis fst_conv)
qed simp_all

text \<open>At the last poll no task of the monitor was over its deadline.\<close>

definition polled :: "monitor_config \<Rightarrow> real \<Rightarrow> monitor \<Rightarrow> bool" where
  "polled cfg t m \<longleftrightarrow> last_deadline_poll m \<le> t \<and> (\<forall>(w, s) \<in> set (tasks m). last_deadline_poll m - s \<le> deadline cfg)"

definition young :: "monitor_config \<Rightarrow> real \<Rightarrow> monitor \<Rightarrow> bool" where
  "young cfg t m \<longleftrightarrow> (\<forall>(w, s) \<in> set (tasks m). t - s < deadline cfg + poll_interval cfg)"

lemma check_system_cases:
  obtains
    (death) reason where "check_system cfg v m = pause_with ''death'' reason (dict_keys (tasks m)) m"
      "\<nexists>pid. root_pid m = Some pid \<and> is_alive v pid"
  | (deadline) "check_system cfg v m = pause_with ''deadline'' (deadline_reason (deadline cfg)) (overdue cfg v m) m"
      "overdue cfg v m \<noteq> []" "poll_interval cfg \<le> now v - last_deadline_poll m"
  | (polls) "overdue cfg v m = []"
      "check_system cfg v m = check_guards cfg v (guards m) (m\<lparr>last_deadline_poll := now v\<rparr>)"
  | (skips) "now v - last_deadline_poll m < poll_interval cfg"
      "check_system cfg v m = check_guards cfg v (guards m) m"
proof (cases "root_pid m")
  case None
  then show thesis by (intro death) (auto simp: check_system_def)
next
  case (Some pid)
  show thesis
  proof (cases "is_alive v pid")
    case False
    with Some show thesis by (intro death) (auto simp: check_system_def)
  next
    case True
    note up = True
    show thesis
    proof (cases "poll_interval cfg \<le> now v - last_deadline_poll m")
      case False
      with Some up show thesis by (intro skips) (auto simp: check_system_def)
    next
      case True
      with Some up show thesis
        using deadline polls by (cases "overdue cfg v m = []") (auto simp: check_system_def)
    qed
  qed
qed

lemma check_system_polled:
  assumes "polled cfg (now v) m" and "0 < poll_interval cfg" and "check_system cfg v m = (m', es)"
  shows "polled cfg (now v) m' \<and> (paused m' \<or> young cfg (now v) m')"
proof (cases rule: check_system_cases [of cfg v m])
  case (death r)
  with assms(1,3) show ?thesis by (auto simp: pause_with_def polled_def)
next
  case deadline
  with assms(1,3) show ?thesis by (auto simp: pause_with_def polled_def)
next
  case polls
  then have c: "check_guards cfg v (guards m) (m\<lparr>last_deadline_poll := now v\<rparr>) = (m', es)" using assms(3) by simp
  have "tasks m' = tasks m" "last_deadline_poll m' = now v"
    using check_guards_frame [of cfg v "guards m" "m\<lparr>last_deadline_poll := now v\<rparr>"] unfolding c by simp_all
  moreover have "\<forall>(w, s) \<in> set (tasks m). now v - s \<le> deadline cfg"
    using polls(1) by (auto simp: overdue_def filter_empty_conv not_less)
  ultimately show ?thesis using assms(2) by (fastforce simp: polled_def young_def)
next
  case skips
  then have c: "check_guards cfg v (guards m) m = (m', es)" using assms(3) by simp
  have "tasks m' = tasks m" "last_deadline_poll m' = last_deadline_poll m"
    using check_guards_frame [of cfg v "guards m" m] unfolding c by simp_all
  with skips(1) assms(1) show ?thesis by (fastforce simp: polled_def young_def)
qed

text \<open>Commands read at time \<open>t\<close>: no stop, and every start of a task is reported within its deadline.\<close>

fun timely_command :: "monitor_config \<Rightarrow> real \<Rightarrow> command \<Rightarrow> bool" where
  "timely_command cfg t CStop = False"
| "timely_command cfg t (CTaskStarted g w s) = (t - s \<le> deadline cfg)"
| "timely_command cfg t c = True"

fun in_time :: "monitor_config \<Rightarrow> real \<Rightarrow> (command list \<times> system_view) list \<Rightarrow> bool" where
  "in_time cfg t [] = True"
| "in_time cfg t ((cs, v) # xs) =
     (t \<le> now v \<and> parent_alive v \<and> list_all (timely_command cfg (now v)) cs \<and> in_time cfg (now v) xs)"

lemma run_command_polled:
  assumes "polled cfg t m" and "timely_command cfg t c"
  shows "polled cfg t (fst (run_command c m))"
proof (cases c)
  case (CTaskStarted g w s)
  have "set (dict_set w s (tasks m)) \<subseteq> insert (w, s) (set (tasks m))" by (rule set_dict_set_subset)
  with assms CTaskStarted show ?thesis by (fastforce simp: polled_def)
next
  case (CTaskFinished g w)
  have "set (dict_pop w (tasks m)) \<subseteq> set (tasks m)" by (rule set_dict_pop_subset)
  with assms CTaskFinished show ?thesis by (fastforce simp: polled_def)
qed (use assms in \<open>auto simp: polled_def clear_tasks_def\<close>)

lemma run_commands_polled:
  "polled cfg t m \<Longrightarrow> list_all (timely_command cfg t) cs \<Longrightarrow> run_commands cs m = (m', es, b) \<Longrightarrow>
     polled cfg t m' \<and> \<not> b"
proof (induction cs arbitrary: m es)
  case (Cons c cs)
  obtain m1 e1 where r: "run_command c m = (m1, e1)" by fastforce
  have "c \<noteq> CStop" using Cons.prems(2) by auto
  with Cons.prems(3) r obtain e2 where "run_commands cs m1 = (m', e2, b)" by (auto split: prod.splits)
  moreover have "polled cfg t m1" using run_command_polled [OF Cons.prems(1), of c] Cons.prems(2) r by simp
  ultimately show ?case using Cons.IH Cons.prems(2) by auto
qed simp

lemma monitor_run_polled:
  assumes "0 < poll_interval cfg"
  shows "polled cfg t m \<Longrightarrow> in_time cfg t xs \<Longrightarrow> monitor_run cfg xs m = (m', es) \<Longrightarrow> xs \<noteq> [] \<Longrightarrow> \<not> paused m' \<Longrightarrow>
     young cfg (now (snd (last xs))) m'"
proof (induction xs arbitrary: t m es)
  case (Cons x xs)
  obtain cs v where x: "x = (cs, v)" by fastforce
  obtain m1 e1 b where c: "run_commands cs m = (m1, e1, b)" by (metis prod_cases3)
  have T: "polled cfg (now v) m" "list_all (timely_command cfg (now v)) cs" "parent_alive v" "in_time cfg (now v) xs"
    using Cons.prems(1,2) x by (auto simp: polled_def)
  note P = run_commands_polled [OF T(1,2) c]
  obtain m2 e2 where t: "monitor_tick cfg (cs, v) m = (m2, e2, False)"
      and m2: "m2 = (if paused m1 then m1 else fst (check_system cfg v m1))"
    using c P T(3) by (cases "paused m1"; cases "check_system cfg v m1") (auto simp: monitor_tick_def)
  have pp: "polled cfg (now v) m2 \<and> (paused m2 \<or> young cfg (now v) m2)"
  proof (cases "paused m1")
    case True
    with m2 P show ?thesis by simp
  next
    case False
    obtain es2 where "check_system cfg v m1 = (m2, es2)" using m2 False by (metis prod.collapse)
    from check_system_polled [OF conjunct1 [OF P] assms this] show ?thesis .
  qed
  obtain e3 where r: "monitor_run cfg xs m2 = (m', e3)"
    using Cons.prems(3) x t by (auto split: prod.splits)
  show ?case
  proof (cases "xs = []")
    case True
    with r pp x Cons.prems(5) show ?thesis by simp
  next
    case False
    with Cons.IH [OF conjunct1 [OF pp] T(4) r] Cons.prems(5) show ?thesis by simp
  qed
qed simp

text \<open>
  C8: No wedge goes unnoticed. At every moment at which the monitor is still watching (it has not triggered
  and waits for no restart), each task it knows of has been running for less than its deadline plus one poll
  interval, provided that the start of a task reaches the monitor before its deadline is over.
\<close>
theorem wedge_detected_in_time:
  assumes "0 < poll_interval cfg" and "0 \<le> deadline cfg" and "in_time cfg 0 xs" and "xs \<noteq> []"
    and "monitor_run cfg xs monitor_start = (m, es)" and "\<not> paused m" and "(w, s) \<in> set (tasks m)"
  shows "now (snd (last xs)) - s < deadline cfg + poll_interval cfg"
proof -
  have "polled cfg 0 monitor_start" by (simp add: polled_def monitor_start_def)
  from monitor_run_polled [OF assms(1) this assms(3,5,4,6)] assms(7) show ?thesis by (auto simp: young_def)
qed

theorem wedge_detected_in_time_witness:
  "now (snd (last (take 1 demo_ticks))) - 1000 < deadline demo_config + poll_interval demo_config
     \<and> \<not> paused (fst (monitor_run demo_config (take 1 demo_ticks) monitor_start))"
proof -
  obtain m es where r: "monitor_run demo_config (take 1 demo_ticks) monitor_start = (m, es)" by fastforce
  then have "\<not> paused m" "(7, 1000) \<in> set (tasks m)"
    by (auto simp: demo_ticks_def monitor_defs)
  from wedge_detected_in_time [OF _ _ _ _ r this] this(1) r show ?thesis
    by (simp add: demo_ticks_def monitor_defs)
qed

section \<open>Triggers have causes\<close>

lemma guard_cause_kind:
  assumes "check_guard cfg v w g m = (m', es)" and "Trigger gen trigger reason ws \<in> set es"
  shows "trigger \<in> {''memory'', ''worker_death''}"
proof -
  have "rebind cfg v w g pid m = (m', es) \<Longrightarrow> False" for pid
    using assms(2) by (auto simp: rebind_def split: sum.splits if_splits)
  then show ?thesis
    using assms by (auto simp: check_guard_def Let_def pause_with_def split: if_splits option.splits)
qed

text \<open>
  C26: A guard accuses its own worker only, and only with a cause. A memory trigger needs a counted OOM kill of
  its cgroup, a soft limit exceeded while the worker runs a task, or a death that systemd attributes to
  memory. A death trigger needs a running task, a process that is gone without a live replacement, and an
  absence that has lasted the grace period since the monitor first noticed it.
\<close>
theorem guard_triggers_have_causes:
  assumes "check_guard cfg v w g m = (m', es)" and "Trigger gen trigger reason ws \<in> set es"
  shows "gen = m_generation m \<and> ws = [w] \<and>
    (trigger = ''memory'' \<and>
       (overdrawn v g \<or> above_soft_limit cfg v g \<and> w \<in> set (dict_keys (tasks m))
        \<or> \<not> is_alive v (g_pid g) \<and> g_unit g \<noteq> [] \<and> scope_result v (g_unit g) = ''oom-kill'')
     \<or> trigger = ''worker_death'' \<and> w \<in> set (dict_keys (tasks m)) \<and> \<not> is_alive v (g_pid g)
       \<and> replacement_of v m w g = None
       \<and> (case dict_get (missing_since m) w of Some t \<Rightarrow> replacement_grace cfg \<le> now v - t | None \<Rightarrow> replacement_grace cfg \<le> 0))"
proof -
  have "replacement_of v m w g = Some pid \<Longrightarrow> rebind cfg v w g pid m = (m', es) \<Longrightarrow> False" for pid
    using assms(2) by (auto simp: rebind_def split: sum.splits if_splits)
  then show ?thesis
    using assms unfolding check_guard_def Let_def
    by (cases "replacement_of v m w g")
      (auto simp: pause_with_def frame_simps mark_missing_def dict_simps dict_setdefault_def not_less
        split: if_splits option.splits)
qed

definition demo_guard :: guard where
  "demo_guard = \<lparr>g_pid = 70, g_unit = [], g_cgroup = [], g_oom = 0\<rparr>"

definition demo_watch :: monitor where
  "demo_watch = monitor_start\<lparr>root_pid := Some 50, m_generation := 1, paused := False, tasks := [(7, 1000)],
     guards := [(7, demo_guard)], missing_since := [(7, 1001)]\<rparr>"

lemma demo_death:
  "check_guard demo_config (demo_view 1005 [50] []) 7 demo_guard demo_watch =
     (demo_watch\<lparr>paused := True\<rparr>,
      [Trigger 1 ''worker_death''
         (guard_reason ''Guarded Lean worker exited without a replacement while processing a task'' 7 demo_guard
            (scope_text [])) [7]])"
  by (simp add: monitor_defs demo_watch_def demo_guard_def dict_setdefault_def)

theorem guard_triggers_have_causes_witness:
  "replacement_of (demo_view 1005 [50] []) demo_watch 7 demo_guard = None
    \<and> replacement_grace demo_config \<le> now (demo_view 1005 [50] []) - 1001"
  using guard_triggers_have_causes [OF demo_death, of 1 "''worker_death''"] by (simp add: demo_watch_def)

text \<open>
  A replaced process is not a crash. When Lean restarts the process of a document and the new one stays
  alive, the monitor triggers nothing: it binds the guard to the new process, forgets the absence, stops
  the old scope and reports the replacement to the owner.
\<close>
theorem replacement_is_not_a_crash:
  assumes "replacement_of v m w g = Some pid" and "new_guard cfg v w pid = Inr g'" and "alive_later v pid"
    and "\<not> overdrawn v g" and "\<not> above_soft_limit cfg v g" and "\<not> is_alive v (g_pid g)"
    and "g_unit g \<noteq> [] \<longrightarrow> scope_result v (g_unit g) \<noteq> ''oom-kill''"
    and "check_guard cfg v w g m = (m', es)"
  shows "es = [GuardReplaced (m_generation m) w (g_pid g) g'] \<and> paused m' = paused m
    \<and> dict_get (guards m') w = Some g' \<and> g_pid g' = pid
    \<and> dict_get (missing_since m') w = None \<and> tasks m' = tasks m
    \<and> stopped_scopes m' = stopped_scopes m @ (if g_unit g = [] then [] else [g_unit g])"
proof -
  have "g_pid g' = pid" using assms(2) by (auto simp: new_guard_def split: option.splits sum.splits)
  with assms show ?thesis
    by (auto simp: check_guard_def rebind_def frame_simps dict_simps stop_scope_def)
qed

theorem replacement_is_not_a_crash_witness:
  "dict_get (guards (fst (check_guard demo_config (demo_view 1005 [50, 71] [(7, 71)]) 7 demo_guard demo_watch))) 7
     = Some (demo_guard\<lparr>g_pid := 71\<rparr>)
   \<and> \<not> paused (fst (check_guard demo_config (demo_view 1005 [50, 71] [(7, 71)]) 7 demo_guard demo_watch))"
proof -
  let ?v = "demo_view 1005 [50, 71] [(7, 71)]"
  obtain m' es where c: "check_guard demo_config ?v 7 demo_guard demo_watch = (m', es)" by fastforce
  have "replacement_of ?v demo_watch 7 demo_guard = Some 71"
    and "new_guard demo_config ?v 7 71 = Inr (demo_guard\<lparr>g_pid := 71\<rparr>)"
    by (simp_all add: monitor_defs demo_watch_def demo_guard_def)
  from replacement_is_not_a_crash [OF this _ _ _ _ _ c] c show ?thesis
    by (simp add: monitor_defs demo_watch_def demo_guard_def)
qed

lemma check_guard_no_deadline:
  "check_guard cfg v w g m = (m', es) \<Longrightarrow> Trigger gen ''deadline'' r ws \<notin> set es"
  using guard_cause_kind by fastforce

lemma guards_no_deadline:
  "check_guards cfg v gs m = (m', es) \<Longrightarrow> Trigger gen ''deadline'' r ws \<notin> set es"
proof (induction gs arbitrary: m es)
  case (Cons x gs)
  obtain w g where x: "x = (w, g)" by fastforce
  obtain m1 e1 where c: "check_guard cfg v w g m = (m1, e1)" by fastforce
  from check_guard_no_deadline [OF c] Cons c x show ?case by (auto split: if_splits prod.splits)
qed simp

text \<open>
  A deadline accuses exactly the tasks that are over it. The workers named by a deadline trigger are
  those whose task started more than the deadline ago; nobody else is marked.
\<close>
theorem deadline_names_the_overdue:
  assumes "check_system cfg v m = (m', [Trigger gen ''deadline'' reason ws])"
  shows "set ws = {w. \<exists>s. (w, s) \<in> set (tasks m) \<and> deadline cfg < now v - s} \<and> ws \<noteq> []
    \<and> reason = deadline_reason (deadline cfg) \<and> paused m'"
proof (cases rule: check_system_cases [of cfg v m])
  case (death r)
  with assms show ?thesis by (simp add: pause_with_def)
next
  case deadline
  have "set (overdue cfg v m) = {w. \<exists>s. (w, s) \<in> set (tasks m) \<and> deadline cfg < now v - s}"
    by (force simp: overdue_def)
  with deadline assms show ?thesis by (auto simp: pause_with_def)
next
  case polls
  with assms guards_no_deadline show ?thesis by fastforce
next
  case skips
  with assms guards_no_deadline show ?thesis by fastforce
qed

definition wedged_watch :: monitor where
  "wedged_watch = demo_watch\<lparr>tasks := [(7, 1000), (8, 1100)], guards := []\<rparr>"

theorem deadline_names_the_overdue_witness:
  "snd (check_system demo_config (demo_view 1125 [50] []) wedged_watch)
     = [Trigger 1 ''deadline'' (deadline_reason WEDGE_DEADLINE) [7]]
   \<and> {w. \<exists>s. (w, s) \<in> set (tasks wedged_watch) \<and> WEDGE_DEADLINE < 1125 - s} = {7}"
proof -
  have c: "check_system demo_config (demo_view 1125 [50] []) wedged_watch =
      (wedged_watch\<lparr>paused := True\<rparr>, [Trigger 1 ''deadline'' (deadline_reason WEDGE_DEADLINE) [7]])"
    by (simp add: monitor_defs wedged_watch_def demo_watch_def)
  from deadline_names_the_overdue [OF c] c show ?thesis by (simp add: demo_config_def demo_view_def)
qed

end
