(* ===== verification/ProcFs.thy ===== *)
theory ProcFs imports PyText begin

text \<open>
  What the watchdog reads from the operating system as text (\<open>pyleaner/watchdog.py\<close>): process
  states, memory counters, command lines. The contents of a file are a \<open>string option\<close>, \<open>None\<close>
  when reading it raises \<open>OSError\<close>; the parsers keep the code's behaviour on malformed text.
\<close>

section \<open>One process\<close>

definition after_last :: "char \<Rightarrow> string \<Rightarrow> string option" where
  "after_last c s = (if c \<in> set s then Some (rev (takeWhile (\<lambda>d. d \<noteq> c) (rev s))) else None)"

text \<open>\<open>_process_alive\<close>: the state letter follows the last parenthesis of \<open>/proc/pid/stat\<close>.\<close>

definition process_alive :: "int option \<Rightarrow> string option \<Rightarrow> bool" where
  "process_alive pid stat =
     (case pid of None \<Rightarrow> False
      | Some p \<Rightarrow> if p = 0 then False else
     (case stat of None \<Rightarrow> False
      | Some text \<Rightarrow>
     (case after_last (CHR '')'') text of None \<Rightarrow> False
      | Some rest \<Rightarrow>
     (case py_split (py_strip rest) of [] \<Rightarrow> False
      | state # _ \<Rightarrow> state \<noteq> ''Z''))))"

fun rss_of_lines :: "string list \<Rightarrow> int option" where
  "rss_of_lines [] = None"
| "rss_of_lines (line # rest) =
     (if prefix_of ''RssAnon:'' line
      then (case py_split line of
              _ # v # _ \<Rightarrow> map_option (\<lambda>n. n * 1024) (py_int v)
            | _ \<Rightarrow> None)
      else rss_of_lines rest)"

definition read_rss_anon :: "string option \<Rightarrow> int option" where
  "read_rss_anon status = (case status of None \<Rightarrow> None | Some text \<Rightarrow> rss_of_lines (py_splitlines text))"

fun oom_of_lines :: "string list \<Rightarrow> int option" where
  "oom_of_lines [] = None"
| "oom_of_lines (line # rest) =
     (case py_split line of
        [key, v] \<Rightarrow> if key = ''oom_kill'' then py_int v else oom_of_lines rest
      | _ \<Rightarrow> None)"

definition read_oom_kill :: "string option \<Rightarrow> int option" where
  "read_oom_kill events = (case events of None \<Rightarrow> None | Some text \<Rightarrow> oom_of_lines (py_splitlines text))"

section \<open>Worker identities in command lines\<close>

text \<open>The regular expression \<open>worker_(\d+)\.lean\<close>, matched at the head of a string.\<close>

definition match_worker :: "string \<Rightarrow> int option" where
  "match_worker s =
     (if prefix_of ''worker_'' s
      then (let r = drop 7 s; ds = takeWhile (\<lambda>c. char_digit c \<noteq> None) r
            in if ds \<noteq> [] \<and> prefix_of ''.lean'' (drop (length ds) r)
               then map_option int (read_digits 0 False ds) else None)
      else None)"

fun search_worker :: "string \<Rightarrow> int option" where
  "search_worker [] = None"
| "search_worker (c # cs) =
     (case match_worker (c # cs) of Some n \<Rightarrow> Some n | None \<Rightarrow> search_worker cs)"

definition worker_of_cmdline :: "string \<Rightarrow> int option" where
  "worker_of_cmdline raw =
     (let cmdline = map (\<lambda>c. if c = CHR 0x00 then CHR '' '' else c) raw
      in if substring ''--worker'' cmdline then search_worker cmdline else None)"

text \<open>\<open>_lean_worker_pids\<close> over the descendants in their order: a later process wins.\<close>

fun lean_worker_pids :: "(int \<Rightarrow> string option) \<Rightarrow> int list \<Rightarrow> (int, int) dict \<Rightarrow> (int, int) dict" where
  "lean_worker_pids cmdline_of [] result = result"
| "lean_worker_pids cmdline_of (pid # pids) result =
     (case cmdline_of pid of
        None \<Rightarrow> lean_worker_pids cmdline_of pids result
      | Some raw \<Rightarrow>
          (case worker_of_cmdline raw of
             None \<Rightarrow> lean_worker_pids cmdline_of pids result
           | Some w \<Rightarrow> lean_worker_pids cmdline_of pids (dict_set w pid result)))"

section \<open>Orphaned Lean processes\<close>

text \<open>An entry of \<open>/proc\<close>: its name, its command line and its \<open>stat\<close> file.\<close>

type_synonym proc_entry = "string \<times> string option \<times> string option"

definition is_lean_cmdline :: "string \<Rightarrow> bool" where
  "is_lean_cmdline cmdline \<longleftrightarrow>
     substring ''lean'' (py_lower (basename (hd (split_on (CHR 0x00) cmdline))))
     \<and> (substring ''--server'' cmdline \<or> substring ''--worker'' cmdline)"

definition parent_pid :: "string \<Rightarrow> int option" where
  "parent_pid stat = (let f = split_on (CHR '' '') stat in if 3 < length f then py_int (f ! 3) else None)"

definition orphan_of_entry :: "proc_entry \<Rightarrow> int option" where
  "orphan_of_entry entry =
     (case entry of (name, cmdline, stat) \<Rightarrow>
       if \<not> is_ascii_digits name then None else
       (case (py_int name, cmdline) of
          (Some pid, Some cl) \<Rightarrow>
            if is_lean_cmdline cl
            then (case stat of
                    Some st \<Rightarrow> if parent_pid st = Some 1 then Some pid else None
                  | None \<Rightarrow> None)
            else None
        | _ \<Rightarrow> None))"

definition find_orphaned_lean :: "proc_entry list \<Rightarrow> int list" where
  "find_orphaned_lean entries = remdups (List.map_filter orphan_of_entry entries)"

section \<open>Properties\<close>

lemma takeWhile_digits_show_nat:
  "char_digit c = None \<Longrightarrow> takeWhile (\<lambda>c. char_digit c \<noteq> None) (show_nat n @ c # s) = show_nat n"
proof -
  assume c: "char_digit c = None"
  have "\<forall>d \<in> set (show_nat n). char_digit d \<noteq> None"
    using show_nat_chars [of _ n] by (auto simp: char_digit_def Let_def)
  with c show ?thesis by (simp add: takeWhile_append2)
qed

lemma match_worker_name: "match_worker (''worker_'' @ show_nat n @ ''.lean'' @ s) = Some (int n)"
proof -
  have "char_digit (CHR ''.'') = None" by (simp add: char_digit_def)
  from takeWhile_digits_show_nat [OF this, of n "''lean'' @ s"] show ?thesis
    by (simp add: match_worker_def prefix_of_def Let_def read_digits_show_nat)
qed

lemma prefix_of_Nil [simp]: "prefix_of p [] \<longleftrightarrow> p = []"
  by (auto simp: prefix_of_def)

lemma prefix_of_Cons [simp]:
  "prefix_of [] s" "prefix_of (a # p) (b # s) \<longleftrightarrow> a = b \<and> prefix_of p s"
  by (auto simp: prefix_of_def)

text \<open>No earlier occurrence can overlap the name: \<open>w\<close> occurs only at the head of \<open>worker_\<close>.\<close>

lemma no_overlap:
  "\<not> prefix_of ''worker_'' (c # b) \<Longrightarrow> \<not> prefix_of ''worker_'' ((c # b) @ ''worker_'' @ s)"
proof -
  assume n: "\<not> prefix_of ''worker_'' (c # b)"
  consider "b = []" | d where "b = [d]" | d e where "b = [d, e]" | d e f where "b = [d, e, f]"
    | d e f g where "b = [d, e, f, g]" | d e f g h where "b = [d, e, f, g, h]"
    | d e f g h i t where "b = d # e # f # g # h # i # t"
    by (metis list.exhaust)
  then show ?thesis using n by cases auto
qed

lemma search_worker_name:
  "\<not> substring ''worker_'' base \<Longrightarrow>
     search_worker (base @ ''worker_'' @ show_nat n @ ''.lean'' @ s) = Some (int n)"
proof (induction base)
  case Nil
  show ?case using match_worker_name [of n s] by simp
next
  case (Cons c b)
  then have "\<not> prefix_of ''worker_'' (c # b)" and "\<not> substring ''worker_'' b" by simp_all
  then have "match_worker ((c # b) @ ''worker_'' @ show_nat n @ ''.lean'' @ s) = None"
    using no_overlap [of c b "show_nat n @ ''.lean'' @ s"] by (simp add: match_worker_def del: prefix_of_Cons)
  with Cons.IH [OF \<open>\<not> substring ''worker_'' b\<close>] show ?case by simp
qed

lemma substring_append: "substring p s \<Longrightarrow> substring p (a @ s @ b)"
  unfolding substring_iff by (metis append.assoc)

text \<open>
  The identity of a worker survives the trip through the process table: the command line of a
  Lean worker that serves the document \<open>base + "worker_N.lean"\<close> is read back as worker \<open>N\<close>, with any
  arguments around it, as long as what precedes the file name does not itself contain \<open>worker_\<close>.
\<close>

theorem worker_name_round_trip:
  assumes "CHR 0x00 \<notin> set (args @ base @ rest)"
    and "substring ''--worker'' args" and "\<not> substring ''worker_'' (args @ base)"
  shows "worker_of_cmdline (args @ base @ ''worker_'' @ show_nat n @ ''.lean'' @ rest) = Some (int n)"
proof -
  let ?f = "\<lambda>c. if c = CHR 0x00 then CHR '' '' else c"
  have id: "map ?f t = t" if "CHR 0x00 \<notin> set t" for t
    using that by (induction t) auto
  have "CHR 0x00 \<notin> set (show_nat n)" using show_nat_chars [of "CHR 0x00" n] by auto
  with assms(1) have nul: "CHR 0x00 \<notin> set (args @ base @ ''worker_'' @ show_nat n @ ''.lean'' @ rest)" by auto
  define cl where "cl = args @ base @ ''worker_'' @ show_nat n @ ''.lean'' @ rest"
  have "map ?f cl = cl" unfolding cl_def by (rule id [OF nul])
  moreover have "substring ''--worker'' cl"
    using substring_append [OF assms(2), of "[]" "base @ ''worker_'' @ show_nat n @ ''.lean'' @ rest"]
    by (simp add: cl_def)
  moreover have "search_worker cl = Some (int n)"
    using search_worker_name [OF assms(3), of n rest] by (simp add: cl_def)
  ultimately have "worker_of_cmdline cl = Some (int n)" by (simp add: worker_of_cmdline_def Let_def)
  then show ?thesis by (simp add: cl_def)
qed

theorem worker_name_round_trip_witness:
  "worker_of_cmdline (''lean --worker '' @ ''file:///p/workers/'' @ ''worker_'' @ show_nat 12 @ ''.lean'' @ '''')
     = Some (int 12)"
  by (rule worker_name_round_trip) (simp_all add: prefix_of_def)

lemma map_filter_mem: "y \<in> set (List.map_filter f xs) \<longleftrightarrow> (\<exists>x \<in> set xs. f x = Some y)"
  by (induction xs) (auto split: option.splits)

lemma orphan_of_entry_Some:
  "orphan_of_entry (name, cl, st) = Some pid \<longleftrightarrow>
     (\<exists>c s. cl = Some c \<and> st = Some s \<and> is_ascii_digits name \<and> py_int name = Some pid
        \<and> is_lean_cmdline c \<and> parent_pid s = Some 1)"
  by (cases cl; cases st; cases "py_int name") (simp_all add: orphan_of_entry_def)

text \<open>
  The last-resort scan kills by substring: a process that is reparented to init and runs any
  program whose name contains \<open>lean\<close> (for instance \<open>clean --server\<close>) is collected as an orphan,
  and nothing else than such a process ever is.
\<close>

theorem orphan_scan_is_by_substring:
  "(pid \<in> set (find_orphaned_lean entries) \<longleftrightarrow>
     (\<exists>name cl st. (name, Some cl, Some st) \<in> set entries \<and> is_ascii_digits name \<and> py_int name = Some pid
        \<and> is_lean_cmdline cl \<and> parent_pid st = Some 1))
   \<and> find_orphaned_lean [(''77'', Some ''/usr/bin/clean --server'', Some ''77 (clean) S 1 77'')] = [77]"
proof
  show "find_orphaned_lean [(''77'', Some ''/usr/bin/clean --server'', Some ''77 (clean) S 1 77'')] = [77]"
    by code_simp
  show "pid \<in> set (find_orphaned_lean entries) \<longleftrightarrow>
     (\<exists>name cl st. (name, Some cl, Some st) \<in> set entries \<and> is_ascii_digits name \<and> py_int name = Some pid
        \<and> is_lean_cmdline cl \<and> parent_pid st = Some 1)"
    unfolding find_orphaned_lean_def set_remdups map_filter_mem Bex_def split_paired_Ex orphan_of_entry_Some
    by blast
qed

lemma lean_worker_pids_lookup:
  "dict_get (lean_worker_pids cl pids r) w = Some p \<Longrightarrow>
     dict_get r w = Some p \<or> (p \<in> set pids \<and> (\<exists>raw. cl p = Some raw \<and> worker_of_cmdline raw = Some w))"
proof (induction pids arbitrary: r)
  case (Cons pid pids)
  show ?case
  proof (cases "Option.bind (cl pid) worker_of_cmdline")
    case None
    then show ?thesis using Cons by (auto split: option.splits)
  next
    case (Some w')
    then obtain raw where raw: "cl pid = Some raw" "worker_of_cmdline raw = Some w'"
      by (auto simp: bind_eq_Some_conv)
    then have "dict_get (lean_worker_pids cl pids (dict_set w' pid r)) w = Some p"
      using Cons.prems by simp
    from Cons.IH [OF this] raw show ?thesis by (cases "w' = w") (auto simp: dict_simps)
  qed
qed simp

end
