(* ===== verification/Worklist.thy ===== *)
theory Worklist imports Main "HOL-Library.While_Combinator" begin

text \<open>
  Two loops of the program are worklist searches: the collection of a process's descendants, which
  pops from the end and marks a node when it is pushed, and the closure of a source's imports, which
  pops from the front and marks a node when it is popped. This theory states once what makes such
  a loop compute the nodes reachable from where it starts, and makes it stop when they are finite.
\<close>

inductive_set closure :: "('a \<Rightarrow> 'a set) \<Rightarrow> 'a set \<Rightarrow> 'a set" for succ A where
  base: "x \<in> A \<Longrightarrow> x \<in> closure succ A"
| step: "x \<in> closure succ A \<Longrightarrow> y \<in> succ x \<Longrightarrow> y \<in> closure succ A"

lemma closure_least:
  assumes "A \<subseteq> X" and "\<And>x. x \<in> X \<Longrightarrow> succ x \<subseteq> X"
  shows "closure succ A \<subseteq> X"
proof
  fix x
  assume "x \<in> closure succ A"
  then show "x \<in> X" by induction (use assms in auto)
qed

lemma closure_finite:
  assumes "finite X" and "A \<subseteq> X" and "\<And>x. x \<in> X \<Longrightarrow> succ x \<subseteq> X"
  shows "finite (closure succ A)"
  using closure_least [of A X succ] assms by (meson finite_subset)

locale worklist =
  fixes succ :: "'a \<Rightarrow> 'a set"
    and pending :: "'s \<Rightarrow> 'a set"
    and expanded :: "'s \<Rightarrow> 'a set"
    and weight :: "'s \<Rightarrow> nat"
    and inv :: "'s \<Rightarrow> bool"
    and more :: "'s \<Rightarrow> bool"
    and advance :: "'s \<Rightarrow> 's"
  assumes more_iff: "inv s \<Longrightarrow> more s \<longleftrightarrow> pending s \<noteq> {}"
    and inv_advance: "inv s \<Longrightarrow> more s \<Longrightarrow> inv (advance s)"
    and advance_law: "inv s \<Longrightarrow> more s \<Longrightarrow> \<exists>x \<in> pending s.
        expanded (advance s) = insert x (expanded s)
      \<and> pending (advance s) \<subseteq> pending s \<union> succ x
      \<and> pending s \<union> succ x \<subseteq> pending (advance s) \<union> expanded (advance s)
      \<and> (x \<notin> expanded s \<or> weight (advance s) < weight s)"
begin

text \<open>What holds between two rounds of a search that started from \<open>A\<close>.\<close>

definition searching :: "'a set \<Rightarrow> 's \<Rightarrow> bool" where
  "searching A s \<longleftrightarrow> inv s \<and> pending s \<union> expanded s \<subseteq> closure succ A
     \<and> A \<subseteq> pending s \<union> expanded s \<and> (\<forall>x \<in> expanded s. succ x \<subseteq> pending s \<union> expanded s)"

lemma searching_start: "inv s \<Longrightarrow> expanded s = {} \<Longrightarrow> searching (pending s) s"
  by (auto simp: searching_def intro: closure.base)

lemma searching_advance:
  assumes "searching A s" and "more s"
  shows "searching A (advance s)"
proof -
  from assms have inv: "inv s" and sub: "pending s \<union> expanded s \<subseteq> closure succ A"
    and A: "A \<subseteq> pending s \<union> expanded s" and cl: "\<forall>x \<in> expanded s. succ x \<subseteq> pending s \<union> expanded s"
    by (auto simp: searching_def)
  from advance_law [OF inv assms(2)] obtain x where x: "x \<in> pending s"
    "expanded (advance s) = insert x (expanded s)"
    "pending (advance s) \<subseteq> pending s \<union> succ x"
    "pending s \<union> succ x \<subseteq> pending (advance s) \<union> expanded (advance s)" by blast
  from x(1) sub have "x \<in> closure succ A" by blast
  then have "succ x \<subseteq> closure succ A" by (blast intro: closure.step)
  with x(1-3) sub have "pending (advance s) \<union> expanded (advance s) \<subseteq> closure succ A"
    by (metis (no_types) Un_least Un_upper1 Un_upper2 insert_subset subset_iff subset_trans)
  moreover have grow: "pending s \<union> expanded s \<subseteq> pending (advance s) \<union> expanded (advance s)"
    using x(2,4) by auto
  moreover have "A \<subseteq> pending (advance s) \<union> expanded (advance s)" using A grow by (rule subset_trans)
  moreover have "\<forall>y \<in> expanded (advance s). succ y \<subseteq> pending (advance s) \<union> expanded (advance s)"
  proof
    fix y
    assume "y \<in> expanded (advance s)"
    then consider "y = x" | "y \<in> expanded s" using x(2) by auto
    then show "succ y \<subseteq> pending (advance s) \<union> expanded (advance s)"
    proof cases
      case 1
      then show ?thesis using x(4) by simp
    next
      case 2
      with cl have "succ y \<subseteq> pending s \<union> expanded s" by simp
      then show ?thesis using grow by (rule subset_trans)
    qed
  qed
  ultimately show ?thesis using inv_advance [OF inv assms(2)] by (simp add: searching_def)
qed

lemma searching_done:
  assumes "searching A s" and "\<not> more s"
  shows "expanded s = closure succ A"
proof -
  from assms have "pending s = {}" by (auto simp: searching_def more_iff)
  with assms(1) have "expanded s \<subseteq> closure succ A" "A \<subseteq> expanded s" "\<And>x. x \<in> expanded s \<Longrightarrow> succ x \<subseteq> expanded s"
    by (auto simp: searching_def)
  with closure_least [of A "expanded s" succ] show ?thesis by auto
qed

lemma result:
  assumes "inv s" and "expanded s = {}" and "while_option more advance s = Some t"
  shows "inv t \<and> \<not> more t \<and> expanded t = closure succ (pending s)"
proof -
  have t: "searching (pending s) t"
    by (rule while_option_rule [where P = "searching (pending s)" and b = more and c = advance and s = s])
      (use assms(3) searching_start [OF assms(1,2)] in \<open>auto intro: searching_advance\<close>)
  from while_option_stop [OF assms(3)] have nm: "\<not> more t" .
  with t searching_done [OF t nm] show ?thesis by (simp add: searching_def)
qed

lemma terminates:
  assumes "inv s" and "expanded s = {}" and fin: "finite (closure succ (pending s))"
  shows "\<exists>t. while_option more advance s = Some t"
proof -
  let ?C = "closure succ (pending s)" and ?P = "searching (pending s)"
  let ?m = "\<lambda>s. card (?C - expanded s)"
  have "{(t, s). (?P s \<and> more s) \<and> t = advance s} \<subseteq> measures [?m, weight]"
  proof (rule subsetI, clarify)
    fix u
    assume P: "?P u" and m: "more u"
    from advance_law [OF _ m] P obtain x where x: "x \<in> pending u"
      "expanded (advance u) = insert x (expanded u)"
      "x \<notin> expanded u \<or> weight (advance u) < weight u" by (auto simp: searching_def)
    from x(1) P have xC: "x \<in> ?C" by (auto simp: searching_def)
    show "(advance u, u) \<in> measures [?m, weight]"
    proof (cases "x \<in> expanded u")
      case True
      with x show ?thesis by (auto simp: insert_absorb)
    next
      case False
      then have "?C - insert x (expanded u) \<subset> ?C - expanded u" using xC by blast
      then have "?m (advance u) < ?m u" using fin x(2) by (simp add: psubset_card_mono)
      then show ?thesis by simp
    qed
  qed
  then have wf: "wf {(t, s). (?P s \<and> more s) \<and> t = advance s}"
    by (rule wf_subset [OF wf_measures])
  show ?thesis
    by (rule wf_while_option_Some [OF wf])
      (auto intro: searching_advance searching_start [OF assms(1,2)])
qed

end

end
