(* ===== verification/ProcessTree.thy ===== *)
theory ProcessTree imports ProcFs Worklist begin

text \<open>
  Collecting and killing the process tree under the Lean server (\<open>_collect_descendants\<close> and
  \<open>_kill_process_tree\<close> of \<open>pyleaner/watchdog.py\<close>). \<open>pgrep p\<close> is what \<open>pgrep -P p\<close> prints,
  \<open>None\<close> when running it raises. The loop is a \<open>while_option\<close>: \<open>None\<close> would be a loop that
  never ends.
\<close>

section \<open>Descendants\<close>

definition children_of :: "(int \<Rightarrow> string option) \<Rightarrow> int \<Rightarrow> int list" where
  "children_of pgrep p =
     (let out = (case pgrep p of Some text \<Rightarrow> text | None \<Rightarrow> '''')
      in List.map_filter py_int (py_split out))"

text \<open>The frontier is a stack with its top at the end of the list.\<close>

record dsearch =
  frontier :: "int list"
  seen :: "int set"
  descendants :: "int list"

fun add_children :: "int list \<Rightarrow> dsearch \<Rightarrow> dsearch" where
  "add_children [] s = s"
| "add_children (c # cs) s =
     (if c \<in> seen s then add_children cs s
      else add_children cs (s\<lparr>seen := insert c (seen s), descendants := descendants s @ [c],
                              frontier := frontier s @ [c]\<rparr>))"

definition collect_round :: "(int \<Rightarrow> string option) \<Rightarrow> dsearch \<Rightarrow> dsearch" where
  "collect_round pgrep s =
     add_children (children_of pgrep (last (frontier s))) (s\<lparr>frontier := butlast (frontier s)\<rparr>)"

definition collect_descendants :: "(int \<Rightarrow> string option) \<Rightarrow> int \<Rightarrow> int list option" where
  "collect_descendants pgrep rt =
     map_option descendants
       (while_option (\<lambda>s. frontier s \<noteq> []) (collect_round pgrep)
          \<lparr>frontier = [rt], seen = {rt}, descendants = []\<rparr>)"

text \<open>Between rounds: what is seen is the root and the descendants, and the stack holds part of it.\<close>

definition dsearch_inv :: "int \<Rightarrow> dsearch \<Rightarrow> bool" where
  "dsearch_inv rt s \<longleftrightarrow> distinct (frontier s) \<and> set (frontier s) \<subseteq> seen s
     \<and> distinct (descendants s) \<and> seen s = insert rt (set (descendants s)) \<and> rt \<notin> set (descendants s)"

lemma add_children_effect:
  "dsearch_inv rt s \<Longrightarrow>
     dsearch_inv rt (add_children cs s)
   \<and> seen (add_children cs s) = seen s \<union> set cs
   \<and> set (frontier (add_children cs s)) = set (frontier s) \<union> (set cs - seen s)"
proof (induction cs arbitrary: s)
  case (Cons c cs)
  show ?case
  proof (cases "c \<in> seen s")
    case True
    with Cons show ?thesis by auto
  next
    case False
    let ?s = "s\<lparr>seen := insert c (seen s), descendants := descendants s @ [c], frontier := frontier s @ [c]\<rparr>"
    from False Cons.prems have "dsearch_inv rt ?s" by (auto simp: dsearch_inv_def)
    from Cons.IH [OF this] False show ?thesis by auto
  qed
qed simp

lemma dsearch_inv_pop: "dsearch_inv rt s \<Longrightarrow> dsearch_inv rt (s\<lparr>frontier := butlast (frontier s)\<rparr>)"
  by (auto simp: dsearch_inv_def distinct_butlast dest: in_set_butlastD)

lemma pop_set: "distinct xs \<Longrightarrow> xs \<noteq> [] \<Longrightarrow> set (butlast xs) = set xs - {last xs}"
  by (induction xs rule: rev_induct) auto

lemma collect_round_effect:
  assumes "dsearch_inv rt s" and "frontier s \<noteq> []"
  shows "dsearch_inv rt (collect_round pgrep s)"
    and "seen (collect_round pgrep s) = seen s \<union> set (children_of pgrep (last (frontier s)))"
    and "set (frontier (collect_round pgrep s)) =
           (set (frontier s) - {last (frontier s)}) \<union> (set (children_of pgrep (last (frontier s))) - seen s)"
proof -
  have "distinct (frontier s)" using assms(1) by (simp add: dsearch_inv_def)
  note p = pop_set [OF this assms(2)]
  note e = add_children_effect [OF dsearch_inv_pop [OF assms(1)], of "children_of pgrep (last (frontier s))"]
  show "dsearch_inv rt (collect_round pgrep s)"
    and "seen (collect_round pgrep s) = seen s \<union> set (children_of pgrep (last (frontier s)))"
    and "set (frontier (collect_round pgrep s)) =
           (set (frontier s) - {last (frontier s)}) \<union> (set (children_of pgrep (last (frontier s))) - seen s)"
    using e p by (simp_all add: collect_round_def)
qed

interpretation pt: worklist "\<lambda>p. set (children_of pgrep p)" "\<lambda>s. set (frontier s)"
  "\<lambda>s. seen s - set (frontier s)" "\<lambda>s. length (frontier s)" "dsearch_inv rt"
  "\<lambda>s. frontier s \<noteq> []" "collect_round pgrep"
  for pgrep :: "int \<Rightarrow> string option" and rt :: int
proof unfold_locales
  fix s
  assume i: "dsearch_inv rt s"
  show "frontier s \<noteq> [] \<longleftrightarrow> set (frontier s) \<noteq> {}" by simp
  assume m: "frontier s \<noteq> []"
  note e = collect_round_effect [OF i m, of pgrep]
  show "dsearch_inv rt (collect_round pgrep s)" by (rule e(1))
  let ?x = "last (frontier s)" and ?t = "collect_round pgrep s"
  have x: "?x \<in> set (frontier s)" using m by simp
  have sub: "set (frontier s) \<subseteq> seen s" using i unfolding dsearch_inv_def by blast
  with x have xs: "?x \<in> seen s" by auto
  have "seen ?t - set (frontier ?t) = insert ?x (seen s - set (frontier s))"
    using e(2,3) x xs sub by auto
  moreover have "set (frontier ?t) \<subseteq> set (frontier s) \<union> set (children_of pgrep ?x)"
    using e(3) by auto
  moreover have "set (frontier s) \<union> set (children_of pgrep ?x)
      \<subseteq> set (frontier ?t) \<union> (seen ?t - set (frontier ?t))"
    using e(2) sub by auto
  moreover have "?x \<notin> seen s - set (frontier s)" using x by simp
  ultimately show "\<exists>x \<in> set (frontier s).
      seen ?t - set (frontier ?t) = insert x (seen s - set (frontier s))
    \<and> set (frontier ?t) \<subseteq> set (frontier s) \<union> set (children_of pgrep x)
    \<and> set (frontier s) \<union> set (children_of pgrep x) \<subseteq> set (frontier ?t) \<union> (seen ?t - set (frontier ?t))
    \<and> (x \<notin> seen s - set (frontier s) \<or> length (frontier ?t) < length (frontier s))"
    using x by blast
qed

text \<open>The processes below \<open>rt\<close> in the forest that \<open>pgrep\<close> describes, \<open>rt\<close> included.\<close>

definition process_tree :: "(int \<Rightarrow> string option) \<Rightarrow> int \<Rightarrow> int set" where
  "process_tree pgrep rt = closure (\<lambda>p. set (children_of pgrep p)) {rt}"

lemma collect_start_inv: "dsearch_inv rt \<lparr>frontier = [rt], seen = {rt}, descendants = []\<rparr>"
  by (simp add: dsearch_inv_def)

lemma collect_descendants_sound:
  assumes "collect_descendants pgrep rt = Some ds"
  shows "distinct ds \<and> set ds = process_tree pgrep rt - {rt}"
proof -
  let ?s = "\<lparr>frontier = [rt], seen = {rt}, descendants = []\<rparr>"
  from assms obtain t where w: "while_option (\<lambda>s. frontier s \<noteq> []) (collect_round pgrep) ?s = Some t"
    and ds: "ds = descendants t" by (auto simp: collect_descendants_def)
  from pt.result [where pgrep = pgrep, OF collect_start_inv _ w]
  have t: "dsearch_inv rt t" "frontier t = []" "seen t - set (frontier t) = process_tree pgrep rt"
    unfolding process_tree_def by simp_all (metis Diff_empty list.set(1))
  then show ?thesis by (auto simp: dsearch_inv_def ds)
qed

lemma collect_descendants_ends:
  assumes "finite (process_tree pgrep rt)"
  obtains ds where "collect_descendants pgrep rt = Some ds"
proof -
  let ?s = "\<lparr>frontier = [rt], seen = {rt}, descendants = []\<rparr>"
  from pt.terminates [where pgrep = pgrep, OF collect_start_inv [of rt]] assms
  obtain t where "while_option (\<lambda>s. frontier s \<noteq> []) (collect_round pgrep) ?s = Some t"
    by (auto simp: process_tree_def)
  then have "collect_descendants pgrep rt = Some (descendants t)" by (simp add: collect_descendants_def)
  then show thesis by (rule that)
qed

text \<open>
  C36: When finitely many processes hang below the server, the collection of its descendants stops,
  lists every one of them exactly once, and nothing else: cycles in what \<open>pgrep\<close> reports, lines that
  are not numbers and runs of \<open>pgrep\<close> that fail do no harm.
\<close>

theorem collect_descendants_complete:
  assumes "finite (process_tree pgrep rt)"
  shows "\<exists>ds. collect_descendants pgrep rt = Some ds \<and> distinct ds
           \<and> set ds = process_tree pgrep rt - {rt}"
proof -
  from assms obtain ds where ds: "collect_descendants pgrep rt = Some ds" by (rule collect_descendants_ends)
  with collect_descendants_sound [OF ds] show ?thesis by blast
qed

definition demo_pgrep :: "int \<Rightarrow> string option" where
  "demo_pgrep p = (if p = 10 then Some ''11 x 12'' else if p = 11 then Some ''13 10''
     else if p = 12 then None else Some '''')"

lemma demo_children:
  "children_of demo_pgrep p = (if p = 10 then [11, 12] else if p = 11 then [13, 10] else [])"
proof -
  have "List.map_filter py_int (py_split ''11 x 12'') = [11, 12]"
    and "List.map_filter py_int (py_split ''13 10'') = [13, 10]"
    and "List.map_filter py_int (py_split '''') = []" by code_simp+
  then show ?thesis by (simp add: children_of_def demo_pgrep_def)
qed

lemma demo_tree: "process_tree demo_pgrep 10 = {10, 11, 12, 13}"
proof
  show "process_tree demo_pgrep 10 \<subseteq> {10, 11, 12, 13}"
    unfolding process_tree_def by (rule closure_least) (auto simp: demo_children split: if_splits)
  let ?t = "process_tree demo_pgrep 10"
  have a: "10 \<in> ?t" unfolding process_tree_def by (rule closure.base) simp
  then have b: "11 \<in> ?t" and c: "12 \<in> ?t"
    unfolding process_tree_def by (auto intro: closure.step simp: demo_children)
  have "13 \<in> ?t" using b unfolding process_tree_def by (rule closure.step) (simp add: demo_children)
  with a b c show "{10, 11, 12, 13} \<subseteq> ?t" by simp
qed

theorem collect_descendants_complete_witness:
  "\<exists>ds. collect_descendants demo_pgrep 10 = Some ds \<and> distinct ds \<and> set ds = {11, 12, 13}"
proof -
  have "finite (process_tree demo_pgrep 10)" by (simp add: demo_tree)
  from collect_descendants_complete [OF this] show ?thesis by (auto simp: demo_tree)
qed

text \<open>
  The state of the operating system the routine sees: the root's pid (\<open>None\<close> when \<open>proc.pid\<close>
  raises), what \<open>proc.poll()\<close> says when it is first asked and when it is asked again after the
  children were killed, and the process table. Signals that fail are ignored by the code, so the
  outcome is the list of signals it sends, in order.
\<close>

record os_view =
  os_root :: "int option"
  os_pgrep :: "int \<Rightarrow> string option"
  os_alive_before :: bool
  os_alive_after :: bool
  os_proc :: "proc_entry list"

datatype os_action = KillPid int | KillRoot | WaitRoot

definition kill_targets :: "os_view \<Rightarrow> int set \<Rightarrow> int \<Rightarrow> int list option" where
  "kill_targets os known_pids rt =
     (case collect_descendants (os_pgrep os) rt of
        None \<Rightarrow> None
      | Some ds \<Rightarrow>
          (let t1 = set ds;
               t2 = (if t1 = {} \<and> known_pids \<noteq> {} then known_pids - {rt} else t1);
               t3 = (if t2 = {} \<and> \<not> os_alive_before os then set (find_orphaned_lean (os_proc os)) else t2)
           in Some (sorted_list_of_set t3)))"

definition kill_process_tree :: "os_view \<Rightarrow> int set \<Rightarrow> os_action list option" where
  "kill_process_tree os known_pids =
     (case os_root os of
        None \<Rightarrow> Some []
      | Some rt \<Rightarrow>
          (case kill_targets os known_pids rt of
             None \<Rightarrow> None
           | Some targets \<Rightarrow>
               Some (map KillPid targets @ (if os_alive_after os then [KillRoot] else []) @ [WaitRoot])))"

lemma kill_targets_live:
  assumes "finite (process_tree (os_pgrep os) rt)" and "process_tree (os_pgrep os) rt \<noteq> {rt}"
  shows "kill_targets os known rt = Some (sorted_list_of_set (process_tree (os_pgrep os) rt - {rt}))"
proof -
  from assms(1) obtain ds where ds: "collect_descendants (os_pgrep os) rt = Some ds"
    by (rule collect_descendants_ends)
  from collect_descendants_sound [OF ds] have all: "set ds = process_tree (os_pgrep os) rt - {rt}" by simp
  have "rt \<in> process_tree (os_pgrep os) rt"
    unfolding process_tree_def by (rule closure.base) simp
  with assms(2) have "process_tree (os_pgrep os) rt - {rt} \<noteq> {}" by auto
  then show ?thesis by (simp add: kill_targets_def ds all Let_def)
qed

text \<open>
  Killing a running server leaves no Lean process behind: while \<open>pgrep\<close> still sees children,
  every process of the tree gets a \<open>SIGKILL\<close>, each exactly once, all descendants before the root,
  and no process outside the tree is signalled, whatever stale pids the caller passes.
\<close>

theorem kill_process_tree_kills_tree:
  assumes "os_root os = Some rt" and "finite (process_tree (os_pgrep os) rt)"
    and "process_tree (os_pgrep os) rt \<noteq> {rt}" and "os_alive_after os"
  shows "\<exists>ks. kill_process_tree os known = Some (map KillPid ks @ [KillRoot, WaitRoot])
           \<and> distinct ks \<and> sorted ks \<and> set ks = process_tree (os_pgrep os) rt - {rt}"
proof -
  let ?T = "process_tree (os_pgrep os) rt - {rt}"
  have "finite ?T" using assms(2) by simp
  then have "distinct (sorted_list_of_set ?T)" "sorted (sorted_list_of_set ?T)" "set (sorted_list_of_set ?T) = ?T"
    by simp_all
  moreover have "kill_process_tree os known = Some (map KillPid (sorted_list_of_set ?T) @ [KillRoot, WaitRoot])"
    using kill_targets_live [OF assms(2,3)] assms(1,4) by (simp add: kill_process_tree_def)
  ultimately show ?thesis by blast
qed

definition demo_os :: os_view where
  "demo_os = \<lparr>os_root = Some 10, os_pgrep = demo_pgrep, os_alive_before = True, os_alive_after = True, os_proc = []\<rparr>"

theorem kill_process_tree_kills_tree_witness:
  "\<exists>ks. kill_process_tree demo_os {99} = Some (map KillPid ks @ [KillRoot, WaitRoot]) \<and> 11 \<in> set ks \<and> 99 \<notin> set ks"
proof -
  have "\<exists>ks. kill_process_tree demo_os {99} = Some (map KillPid ks @ [KillRoot, WaitRoot])
      \<and> distinct ks \<and> sorted ks \<and> set ks = process_tree demo_pgrep 10 - {10}"
    using kill_process_tree_kills_tree [of demo_os 10 "{99}"] by (simp add: demo_os_def demo_tree)
  then show ?thesis by (auto simp: demo_tree)
qed

text \<open>The fallbacks: a root that is already dead, with and without a snapshot of its tree.\<close>

lemma kill_targets_dead_root:
  assumes "collect_descendants (os_pgrep os) rt = Some []" and "finite known"
  shows "kill_targets os known rt =
     Some (if known - {rt} \<noteq> {} then sorted_list_of_set (known - {rt})
           else if os_alive_before os then []
           else sorted_list_of_set (set (find_orphaned_lean (os_proc os))))"
  using assms by (auto simp: kill_targets_def Let_def)

end
