(* ===== verification/Recovery.thy ===== *)
theory Recovery imports Routing Watchdog Monitor ProcessTree begin

text \<open>
  Online recovery (\<open>_receive_events\<close>, \<open>_recover_with_retry\<close>, \<open>_restart\<close>, \<open>_teardown_pool_state\<close>,
  \<open>_inflight_tasks\<close> of \<open>pyleaner/watchdog.py\<close>, with \<open>connect\<close>, \<open>create_pool\<close> and \<open>initialize_worker_pool\<close> of
  \<open>pyleaner/client.py\<close>): attribute the failure, wake everybody who waits for the old server, kill it, build
  a new one. The operating system and the new server's behaviour during one attempt are an argument.
\<close>

section \<open>State and environment\<close>

record system =
  dog :: watchdog
  shared :: io
  lsp :: client
  routes :: routing
  server_pid :: "int option"
  signals :: "os_action list"
  stale_pools :: "pool list" \<comment> \<open>that the client has let go of; their threads go on\<close>

text \<open>
  One attempt: the old process, the outcome of starting the new one, the notifications that will reach each
  document, and what \<open>attach_worker_guards\<close> reads.
\<close>

record attempt =
  a_now :: real
  a_os :: os_view
  a_popen :: "exn + int"
  a_monitor_alive :: bool
  a_monitor_start :: "exn option" \<comment> \<open>what starting a new monitor process raises\<close>
  a_server_alive :: bool
  a_arrivals :: "string \<Rightarrow> (real \<times> value) list"
  a_readings :: "(int, int) dict list"
  a_adopt :: "int \<Rightarrow> int \<Rightarrow> exn + (string \<times> string)"
  a_oom :: "string \<Rightarrow> int option"

section \<open>Attribution\<close>

definition inflight_tasks :: "pool option \<Rightarrow> (worker \<times> task) list" where
  "inflight_tasks p =
     (case p of None \<Rightarrow> []
      | Some p \<Rightarrow> List.map_filter (\<lambda>w. map_option (Pair w) (current_task w)) (workers p))"

text \<open>Triggers that name their culprits; for the others every task in flight is suspect.\<close>

definition precise_trigger :: "string \<Rightarrow> bool" where
  "precise_trigger trigger \<longleftrightarrow> trigger \<in> {''deadline'', ''memory'', ''worker_death'', ''watchdog_death''}"

definition culprit_ids :: "string \<Rightarrow> int set \<Rightarrow> pool option \<Rightarrow> int set" where
  "culprit_ids trigger culprits p =
     (if precise_trigger trigger then culprits else set (map (worker_id \<circ> fst) (inflight_tasks p)))"

definition mark_culprit :: "int set \<Rightarrow> string \<Rightarrow> worker \<Rightarrow> worker" where
  "mark_culprit ids reason w =
     (case current_task w of
        Some t \<Rightarrow>
          if worker_id w \<in> ids
          then w\<lparr>current_task := Some (t\<lparr>t_culprit := True, t_culprit_reason := Some reason\<rparr>)\<rparr> else w
      | None \<Rightarrow> w)"

definition poison_notification :: "value" where
  "poison_notification = JObj [(''method'', JStr POISON_METHOD)]"

definition poison_worker :: "real \<Rightarrow> worker \<Rightarrow> worker" where
  "poison_worker t w = (if current_task w = None then w else put_notification t poison_notification w)"

section \<open>Teardown\<close>

definition map_workers :: "(worker \<Rightarrow> worker) \<Rightarrow> routing \<Rightarrow> routing" where
  "map_workers f r = r\<lparr>worker_pool := map_option (\<lambda>p. p\<lparr>workers := map f (workers p)\<rparr>) (worker_pool r)\<rparr>"

definition wake_pending :: "client \<Rightarrow> client" where
  "wake_pending c =
     c\<lparr>pending_requests := [],
       response_queues := fold (\<lambda>(i, q) rq. rq(q := q_put Poisoned (rq q))) (pending_requests c) (response_queues c)\<rparr>"

definition teardown_pool_state :: "system \<Rightarrow> system" where
  "teardown_pool_state s =
     (let r = routes s;
          r1 = r\<lparr>worker_pool := map_option (\<lambda>p. p\<lparr>keep_alive_running := False\<rparr>) (worker_pool r)\<rparr>
      in s\<lparr>routes := map_workers (\<lambda>w. w\<lparr>w_rpc := invalidate (w_rpc w)\<rparr>) r1, lsp := wake_pending (lsp s)\<rparr>)"

section \<open>Rebuilding\<close>

text \<open>\<open>LspClient.connect\<close>: start the process, shake hands, start the watchdog.\<close>

definition connect_lsp :: "string \<Rightarrow> attempt \<Rightarrow> system \<Rightarrow> system \<times> (exn + unit)" where
  "connect_lsp root_uri a s =
     (case a_popen a of
        Inl e \<Rightarrow> (s, Inl e)
      | Inr pid \<Rightarrow>
          (let s1 = s\<lparr>server_pid := Some pid, lsp := (lsp s)\<lparr>process_up := True\<rparr>\<rparr>
           in case initialize_client root_uri (lsp s1) of
                (c, Inl e) \<Rightarrow> (s1\<lparr>lsp := c\<rparr>, Inl e)
              | (c, Inr _) \<Rightarrow>
                  (case initialized_client c of
                     (c', Inl e) \<Rightarrow> (s1\<lparr>lsp := c'\<rparr>, Inl e)
                   | (c', Inr _) \<Rightarrow>
                       (let (d, w, r) = start_watchdog (a_monitor_alive a) (a_monitor_start a)
                                          (if a_server_alive a then Some pid else None) (dog s1) (shared s1)
                        in (s1\<lparr>lsp := c', dog := d, shared := w\<rparr>, r)))))"

definition pool_of :: "nat \<Rightarrow> string \<Rightarrow> attempt \<Rightarrow> pool" where
  "pool_of n uri a =
     (let p = new_pool n uri (a_now a)
      in p\<lparr>workers := map (\<lambda>w. w\<lparr>w_doc := (w_doc w)\<lparr>inbox := a_arrivals a (doc_uri (w_doc w))\<rparr>\<rparr>) (workers p)\<rparr>)"

text \<open>A new pool takes the place of the one before; nothing stops the threads of that one.\<close>

definition let_go :: "system \<Rightarrow> system" where
  "let_go s = s\<lparr>stale_pools := (case worker_pool (routes s) of None \<Rightarrow> [] | Some p \<Rightarrow> [p]) @ stale_pools s\<rparr>"

definition initialize_worker_pool ::
  "nat \<Rightarrow> string \<Rightarrow> string \<Rightarrow> attempt \<Rightarrow> system \<Rightarrow> system \<times> (exn + unit)" where
  "initialize_worker_pool n uri init_text a s =
     (if n = 0 then (s, Inl (ValueError ''max_workers must be greater than 0'')) else
      let r0 = fold (\<lambda>i. register_init_uri (worker_uri uri i)) [1..<Suc n] (routes s);
          buffered = (\<lambda>u. snd (drain_init_buffer u r0));
          (p, c, res) = initialize_all_workers init_text buffered (pool_of n uri a) (lsp s);
          r1 = fold (\<lambda>i r. fst (drain_init_buffer (worker_uri uri i) r)) [1..<Suc n] r0
      in ((let_go s)\<lparr>lsp := c, routes := r1\<lparr>worker_pool := Some p\<rparr>\<rparr>, res))"

definition create_pool :: "string \<Rightarrow> nat \<Rightarrow> string \<Rightarrow> attempt \<Rightarrow> system \<Rightarrow> system \<times> (exn + unit)" where
  "create_pool uri n init_text a s =
     (case initialize_worker_pool n uri init_text a s of
        (s1, Inl e) \<Rightarrow> (s1, Inl e)
      | (s1, Inr _) \<Rightarrow>
          (case attach_worker_guards (a_server_alive a) (a_readings a) (a_adopt a) (a_oom a)
                  (arm init_text n (dog s1)) (shared s1) of
             (d, w, r) \<Rightarrow> (s1\<lparr>dog := d, shared := w\<rparr>, r)))"

section \<open>Restart\<close>

definition recovery_event :: "string \<Rightarrow> string \<Rightarrow> (string, value) dict \<Rightarrow> event" where
  "recovery_event kind outcome details = (new_event kind details)\<lparr>ev_outcome := Some outcome\<rparr>"

text \<open>Everything before the old server is killed; nothing here can fail.\<close>

definition begin_restart :: "string \<Rightarrow> string \<Rightarrow> int set \<Rightarrow> real \<Rightarrow> system \<Rightarrow> system" where
  "begin_restart trigger reason culprits t s =
     (let ids = culprit_ids trigger culprits (worker_pool (routes s));
          ev = recovery_event ''recovery_started'' ''infrastructure_error''
                 [(''trigger'', JStr trigger), (''reason'', JStr reason),
                  (''culprit_worker_ids'', JArr (map JInt (sorted_list_of_set culprits)))];
          s1 = s\<lparr>dog := (dog s)\<lparr>server_ready := False\<rparr>, shared := pause_monitor (emit ev (shared s)),
                 routes := map_workers (poison_worker t \<circ> mark_culprit ids reason) (routes s)\<rparr>
      in teardown_pool_state s1)"

text \<open>\<open>None\<close> when collecting an infinite process tree would not end.\<close>

definition kill_server :: "attempt \<Rightarrow> system \<Rightarrow> system option" where
  "kill_server a s =
     (let known = (case os_root (a_os a) of
                     None \<Rightarrow> Some {}
                   | Some rt \<Rightarrow> map_option (\<lambda>ds. insert rt (set ds)) (collect_descendants (os_pgrep (a_os a)) rt))
      in case known of
           None \<Rightarrow> None
         | Some ks \<Rightarrow>
             map_option
               (\<lambda>acts. s\<lparr>signals := signals s @ acts, dog := stop_worker_scopes (dog s)\<rparr>)
               (kill_process_tree (a_os a) ks))"

definition rebuild :: "string \<Rightarrow> string \<Rightarrow> attempt \<Rightarrow> system \<Rightarrow> system \<times> (exn + unit)" where
  "rebuild root_uri trigger a s =
     (case connect_lsp root_uri a s of
        (s1, Inl e) \<Rightarrow> (s1, Inl e)
      | (s1, Inr _) \<Rightarrow>
          (case (if armed (dog s1)
                 then create_pool (root_uri @ ''/workers/'') (pool_size (dog s1)) (base_text (dog s1)) a s1
                 else (s1, Inr ())) of
             (s2, Inl e) \<Rightarrow> (s2, Inl e)
           | (s2, Inr _) \<Rightarrow>
               (s2\<lparr>dog := (dog s2)\<lparr>server_ready := True\<rparr>,
                   shared := emit (recovery_event ''recovery_completed'' ''success'' [(''trigger'', JStr trigger)])
                               (shared s2)\<rparr>, Inr ())))"

definition restart ::
  "string \<Rightarrow> string \<Rightarrow> string \<Rightarrow> int set \<Rightarrow> attempt \<Rightarrow> system \<Rightarrow> (system \<times> (exn + unit)) option" where
  "restart root_uri trigger reason culprits a s =
     (if restart_locked (dog s) then Some (s, Inr ())
      else (case kill_server a (begin_restart trigger reason culprits (a_now a) s) of
              None \<Rightarrow> None
            | Some s1 \<Rightarrow> Some (rebuild root_uri trigger a s1)))"

text \<open>
  The retry loop over the attempts the environment allows. The waits between them are returned with
  the outcome: \<open>True\<close> when an attempt succeeded.
\<close>

definition retry_delay :: "nat \<Rightarrow> real" where
  "retry_delay k = min 30 (2 ^ min (k - 1) 5)"

fun recover_with_retry ::
  "string \<Rightarrow> string \<Rightarrow> string \<Rightarrow> int set \<Rightarrow> nat \<Rightarrow> attempt list \<Rightarrow> system \<Rightarrow> (system \<times> real list \<times> (exn + bool)) option" where
  "recover_with_retry root_uri trigger reason culprits k [] s = Some (s, [], Inr False)"
| "recover_with_retry root_uri trigger reason culprits k (a # as) s =
     (if stopping (dog s) then Some (s, [], Inr False)
      else (case restart root_uri trigger reason culprits a s of
              None \<Rightarrow> None
            | Some (s1, Inr _) \<Rightarrow> Some (s1, [], Inr True)
            | Some (s1, Inl e) \<Rightarrow>
                if is_Exception e
                then map_option (\<lambda>(s2, ds, r). (s2, retry_delay (k + 1) # ds, r))
                       (recover_with_retry root_uri trigger reason culprits (k + 1) as s1)
                else Some (s1, [], Inl e)))"

text \<open>One event from the monitor.\<close>

definition receive_event ::
  "string \<Rightarrow> attempt list \<Rightarrow> monitor_event \<Rightarrow> system \<Rightarrow> (system \<times> real list \<times> (exn + bool)) option" where
  "receive_event root_uri as ev s =
     (case ev of
        EventStop \<Rightarrow> Some (s, [], Inr False)
      | GuardReplaced gen w old g \<Rightarrow>
          Some (s\<lparr>dog := accept_replacement_guard gen w old g (shared s) (dog s)\<rparr>, [], Inr True)
      | Trigger gen trigger reason ws \<Rightarrow>
          if gen \<noteq> generation (shared s) then Some (s, [], Inr True)
          else recover_with_retry root_uri trigger reason (set ws) 0 as s)"

section \<open>Attribution is exact\<close>

lemma map_workers_pool [simp]:
  "worker_pool (map_workers f r) = map_option (\<lambda>p. p\<lparr>workers := map f (workers p)\<rparr>) (worker_pool r)"
  by (simp add: map_workers_def)

lemma begin_restart_pool:
  "worker_pool (routes (begin_restart trigger reason culprits t s)) =
     map_option (\<lambda>p. p\<lparr>keep_alive_running := False,
        workers := map (\<lambda>w. (poison_worker t (mark_culprit (culprit_ids trigger culprits (worker_pool (routes s))) reason w))
                              \<lparr>w_rpc := invalidate (w_rpc w)\<rparr>) (workers p)\<rparr>)
       (worker_pool (routes s))"
proof -
  have "w_rpc (poison_worker t (mark_culprit ids reason w)) = w_rpc w" for ids w
    by (simp add: poison_worker_def mark_culprit_def put_notification_def split: option.split)
  then show ?thesis
    by (simp add: begin_restart_def teardown_pool_state_def Let_def option.map_comp comp_def)
qed

lemma inflight_ids:
  "set (map (worker_id \<circ> fst) (inflight_tasks (Some p))) = {worker_id w | w. w \<in> set (workers p) \<and> current_task w \<noteq> None}"
  by (force simp: inflight_tasks_def List.map_filter_def image_iff)

lemma culprit_ids_member:
  assumes "w \<in> set (workers p)" and "current_task w \<noteq> None"
  shows "worker_id w \<in> culprit_ids trigger culprits (Some p) \<longleftrightarrow> \<not> precise_trigger trigger \<or> worker_id w \<in> culprits"
  using assms inflight_ids [of p] by (auto simp: culprit_ids_def)

lemma restart_worker_frame [frame_simps]:
  "worker_id ((poison_worker t (mark_culprit ids reason w))\<lparr>w_rpc := x\<rparr>) = worker_id w"
  "task_queue ((poison_worker t (mark_culprit ids reason w))\<lparr>w_rpc := x\<rparr>) = task_queue w"
  "task_started_at ((poison_worker t (mark_culprit ids reason w))\<lparr>w_rpc := x\<rparr>) = task_started_at w"
  "ready ((poison_worker t (mark_culprit ids reason w))\<lparr>w_rpc := x\<rparr>) = ready w"
  "exited ((poison_worker t (mark_culprit ids reason w))\<lparr>w_rpc := x\<rparr>) = exited w"
  by (simp_all add: poison_worker_def mark_culprit_def put_notification_def split: option.split)

text \<open>
  C5: Toxicity is attributed exactly. When a restart begins, a task in flight is marked as a culprit, with the
  reason, if the trigger names its worker, or if the trigger cannot name anybody (a fatal message, the death
  of the server); every other task keeps its mark. Exactly the workers with a task in flight are poisoned,
  behind what they have already received; an idle worker receives nothing.
\<close>
theorem culprits_marked_exactly:
  assumes "worker_pool (routes s) = Some p"
    and "begin_restart trigger reason culprits t s = s'"
  shows "\<exists>p'. worker_pool (routes s') = Some p' \<and> length (workers p') = length (workers p) \<and>
    (\<forall>i < length (workers p).
       worker_id (workers p' ! i) = worker_id (workers p ! i) \<and>
       (case current_task (workers p ! i) of
          None \<Rightarrow> current_task (workers p' ! i) = None \<and> w_doc (workers p' ! i) = w_doc (workers p ! i)
        | Some u \<Rightarrow>
            current_task (workers p' ! i) =
              Some (if \<not> precise_trigger trigger \<or> worker_id (workers p ! i) \<in> culprits
                    then u\<lparr>t_culprit := True, t_culprit_reason := Some reason\<rparr> else u)
            \<and> inbox (w_doc (workers p' ! i)) = inbox (w_doc (workers p ! i)) @ [(t, poison_notification)]))"
  using assms
  by (auto simp: begin_restart_pool frame_simps culprit_ids_member poison_worker_def mark_culprit_def
      put_notification_def split: option.split)

lemma fold_wake:
  "distinct (map snd ps) \<Longrightarrow>
     fold (\<lambda>(i, q) rq. rq(q := q_put Poisoned (rq q))) ps rq q =
       (if q \<in> set (map snd ps) then q_put Poisoned (rq q) else rq q)"
proof (induction ps arbitrary: rq)
  case (Cons x ps)
  obtain i p where x: "x = (i, p)" by fastforce
  have "p \<notin> set (map snd ps)" using Cons.prems x by simp
  with Cons x show ?case by (auto simp del: set_map)
qed simp

lemma begin_restart_lsp: "lsp (begin_restart trigger reason culprits t s) = wake_pending (lsp s)"
  by (simp add: begin_restart_def teardown_pool_state_def Let_def)

text \<open>
  Nobody waits for a server that is gone. When a restart begins, every request and RPC call that was
  waiting for the old server finds \<open>ServiceUnavailable\<close> at the end of its response queue, nothing is
  pending any more, and every session is disconnected, so that none of it reaches the new server.
\<close>
theorem restart_wakes_everyone:
  assumes "distinct (map snd (pending_requests (lsp s)))"
    and "dict_get (pending_requests (lsp s)) i = Some q"
  shows "response_queues (lsp (begin_restart trigger reason culprits t s)) q
      = response_queues (lsp s) q @ [Poisoned]
    \<and> pending_requests (lsp (begin_restart trigger reason culprits t s)) = []
    \<and> (\<forall>p w. worker_pool (routes (begin_restart trigger reason culprits t s)) = Some p \<and> w \<in> set (workers p)
          \<longrightarrow> session_id (w_rpc w) = None \<and> \<not> connected (w_rpc w))"
proof -
  have "q \<in> set (map snd (pending_requests (lsp s)))"
    using assms(2) dict_get_in by force
  then have "response_queues (lsp (begin_restart trigger reason culprits t s)) q = response_queues (lsp s) q @ [Poisoned]"
    using fold_wake [OF assms(1)] by (simp add: begin_restart_lsp wake_pending_def) (simp add: q_put_def)
  moreover have "pending_requests (lsp (begin_restart trigger reason culprits t s)) = []"
    by (simp add: begin_restart_lsp wake_pending_def)
  moreover have "\<forall>p w. worker_pool (routes (begin_restart trigger reason culprits t s)) = Some p \<and> w \<in> set (workers p)
      \<longrightarrow> session_id (w_rpc w) = None \<and> \<not> connected (w_rpc w)"
    by (auto simp: begin_restart_pool invalidate_def)
  ultimately show ?thesis by blast
qed

section \<open>What an attempt leaves behind\<close>

lemma stop_worker_scopes_frame [frame_simps]:
  "server_ready (stop_worker_scopes d) = server_ready d" "restart_locked (stop_worker_scopes d) = restart_locked d"
  by (simp_all add: stop_worker_scopes_def frame_simps)

lemma start_watchdog_frame:
  assumes "start_watchdog b f sp d w = (d', w', r)"
  shows "server_ready d' = server_ready d" and "restart_locked d' = restart_locked d"
  using assms by (auto simp: start_watchdog_def Let_def split: if_splits option.splits)

lemma attach_frame:
  assumes "attach_worker_guards b rd ad oom d w = (d', w', r)"
  shows "server_ready d' = server_ready d" and "restart_locked d' = restart_locked d"
  using assms by (auto simp: attach_worker_guards_def Let_def frame_simps split: if_splits sum.splits)

lemma connect_frame:
  assumes "connect_lsp root_uri a s = (s', r)"
  shows "server_ready (dog s') = server_ready (dog s)" and "restart_locked (dog s') = restart_locked (dog s)"
  using assms start_watchdog_frame by (auto simp: connect_lsp_def Let_def split: sum.splits prod.splits)

lemma initialize_pool_frame:
  assumes "initialize_worker_pool n uri txt0 a s = (s', r)"
  shows "dog s' = dog s" and "shared s' = shared s"
  using assms by (auto simp: initialize_worker_pool_def let_go_def Let_def split: prod.splits if_splits)

lemma create_pool_frame:
  assumes "create_pool uri n txt0 a s = (s', r)"
  shows "server_ready (dog s') = server_ready (dog s)" and "restart_locked (dog s') = restart_locked (dog s)"
  using assms initialize_pool_frame attach_frame
  by (auto simp: create_pool_def arm_def split: sum.splits prod.splits)

lemma kill_server_frame:
  assumes "kill_server a s = Some s'"
  shows "server_ready (dog s') = server_ready (dog s)" and "restart_locked (dog s') = restart_locked (dog s)"
    and "shared s' = shared s" and "armed (dog s') = armed (dog s)"
  using assms by (auto simp: kill_server_def stop_worker_scopes_def frame_simps split: option.splits)

lemma rebuild_ready:
  assumes "rebuild root_uri trigger a s = (s', r)"
  shows "server_ready (dog s') = (server_ready (dog s) \<or> r = Inr ())"
    and "restart_locked (dog s') = restart_locked (dog s)"
  using assms connect_frame create_pool_frame by (auto simp: rebuild_def split: sum.splits prod.splits if_splits)

lemma begin_restart_dog: "dog (begin_restart trigger reason culprits t s) = (dog s)\<lparr>server_ready := False\<rparr>"
  by (simp add: begin_restart_def teardown_pool_state_def Let_def)

lemma restart_cases:
  assumes "restart root_uri trigger reason culprits a s = Some (s', r)" and "\<not> restart_locked (dog s)"
  obtains s1 where "kill_server a (begin_restart trigger reason culprits (a_now a) s) = Some s1"
    "rebuild root_uri trigger a s1 = (s', r)"
  using assms by (auto simp: restart_def split: option.splits)

lemma ready_iff_restarted_lemma:
  assumes "restart root_uri trigger reason culprits a s = Some (s', r)" and "\<not> restart_locked (dog s)"
  shows "(server_ready (dog s') \<longleftrightarrow> r = Inr ()) \<and> \<not> restart_locked (dog s')"
proof (rule restart_cases [OF assms])
  fix s1
  assume k: "kill_server a (begin_restart trigger reason culprits (a_now a) s) = Some s1"
    and b: "rebuild root_uri trigger a s1 = (s', r)"
  from kill_server_frame(1,2) [OF k] rebuild_ready [OF b] assms(2) show ?thesis
    by (simp add: begin_restart_dog)
qed

text \<open>
  C17: Callers are let in exactly when a server is there for them. An attempt that succeeds ends with
  \<open>server_ready\<close> set; one that fails, at whatever step, ends with it cleared and the restart lock free, so
  that the next attempt can begin and nobody submits to a half-built server.
\<close>
theorem ready_iff_restarted:
  assumes "restart root_uri trigger reason culprits a s = Some (s', r)" and "\<not> restart_locked (dog s)"
  shows "(server_ready (dog s') \<longleftrightarrow> r = Inr ()) \<and> \<not> restart_locked (dog s')"
  using assms by (rule ready_iff_restarted_lemma)

section \<open>Generations\<close>

text \<open>The servers announced on the command queue are numbered upwards, up to the current generation.\<close>

definition gens_ok :: "io \<Rightarrow> bool" where
  "gens_ok w \<longleftrightarrow> sorted_wrt (<) (0 # root_gens (commands w)) \<and> (\<forall>g \<in> set (root_gens (commands w)). g \<le> generation w)"

lemma root_gens_append [simp]: "root_gens (cs @ ds) = root_gens cs @ root_gens ds"
  by (induction cs rule: root_gens.induct) auto

lemma gens_ok_send: "gens_ok w \<Longrightarrow> \<forall>pid g. c \<noteq> CRoot pid g \<Longrightarrow> gens_ok (send_command c w)"
  by (cases c) (auto simp: gens_ok_def frame_simps)

lemma gens_ok_emit [simp]: "gens_ok (emit ev w) = gens_ok w"
  by (simp add: gens_ok_def frame_simps)

lemma gens_ok_root: "gens_ok w \<Longrightarrow> gens_ok (set_root_process pid w)"
  by (fastforce simp: gens_ok_def set_root_process_def frame_simps Let_def sorted_wrt_append)

lemma set_root_generation [simp]: "generation (set_root_process pid w) = Suc (generation w)"
  by (simp add: set_root_process_def frame_simps Let_def)

lemma start_watchdog_gens:
  assumes "start_watchdog b f sp d w = (d', w', r)" and "gens_ok w"
  shows "gens_ok w'" and "r = Inr () \<Longrightarrow> generation w' = (case sp of None \<Rightarrow> generation w | Some p \<Rightarrow> Suc (generation w))"
proof -
  have "gens_ok (w\<lparr>monitor_up := True, commands := []\<rparr>)" by (simp add: gens_ok_def)
  with assms gens_ok_root show "gens_ok w'"
    by (auto simp: start_watchdog_def Let_def split: if_splits option.splits)
  from assms(1) show "r = Inr () \<Longrightarrow> generation w' = (case sp of None \<Rightarrow> generation w | Some p \<Rightarrow> Suc (generation w))"
    by (auto simp: start_watchdog_def Let_def split: if_splits option.splits)
qed

lemma attach_gens:
  assumes "attach_worker_guards b rd ad oom d w = (d', w', r)" and "gens_ok w"
  shows "gens_ok w'" and "generation w' = generation w"
  using assms gens_ok_send by (auto simp: attach_worker_guards_def Let_def frame_simps split: if_splits sum.splits)

lemma connect_gens:
  assumes "connect_lsp root_uri a s = (s', r)" and "gens_ok (shared s)"
  shows "gens_ok (shared s')" and "r = Inr () \<Longrightarrow> a_server_alive a \<Longrightarrow> generation (shared s') = Suc (generation (shared s))"
  using assms start_watchdog_gens by (auto simp: connect_lsp_def Let_def split: sum.splits prod.splits)

lemma create_pool_gens:
  assumes "create_pool uri n txt0 a s = (s', r)" and "gens_ok (shared s)"
  shows "gens_ok (shared s')" and "generation (shared s') = generation (shared s)"
  using assms initialize_pool_frame(2) attach_gens
  by (auto simp: create_pool_def split: sum.splits prod.splits)

lemma rebuild_gens:
  assumes "rebuild root_uri trigger a s = (s', r)" and "gens_ok (shared s)"
  shows "gens_ok (shared s')" and "r = Inr () \<Longrightarrow> a_server_alive a \<Longrightarrow> generation (shared s') = Suc (generation (shared s))"
proof -
  obtain s1 r1 where 1: "connect_lsp root_uri a s = (s1, r1)" by fastforce
  note C = connect_gens [OF 1 assms(2)]
  obtain s2 r2 where 2: "(if armed (dog s1)
      then create_pool (root_uri @ ''/workers/'') (pool_size (dog s1)) (base_text (dog s1)) a s1 else (s1, Inr ())) = (s2, r2)"
    by fastforce
  then have P: "gens_ok (shared s2)" "generation (shared s2) = generation (shared s1)"
    using create_pool_gens C(1) by (auto split: if_splits)
  show "gens_ok (shared s')" and "r = Inr () \<Longrightarrow> a_server_alive a \<Longrightarrow> generation (shared s') = Suc (generation (shared s))"
    using assms(1) 1 2 C P by (auto simp: rebuild_def frame_simps split: sum.splits)
qed

text \<open>
  Every restart starts a new generation. The servers announced to the monitor stay numbered upwards,
  which is what its at-most-once guarantee rests on, and a restart that succeeds moves the generation on by
  one, which makes every trigger of the old server stale.
\<close>
theorem restart_starts_new_generation:
  assumes "restart root_uri trigger reason culprits a s = Some (s', r)" and "\<not> restart_locked (dog s)"
    and "gens_ok (shared s)"
  shows "gens_ok (shared s') \<and>
    (r = Inr () \<and> a_server_alive a \<longrightarrow> generation (shared s') = Suc (generation (shared s))
       \<and> receive_event root_uri as (Trigger (generation (shared s)) tr rs ws) s' = Some (s', [], Inr True))"
proof (rule restart_cases [OF assms(1,2)])
  fix s1
  assume k: "kill_server a (begin_restart trigger reason culprits (a_now a) s) = Some s1"
    and b: "rebuild root_uri trigger a s1 = (s', r)"
  have "gens_ok (shared (begin_restart trigger reason culprits (a_now a) s))"
    "generation (shared (begin_restart trigger reason culprits (a_now a) s)) = generation (shared s)"
    using assms(3) gens_ok_send [of _ CPause]
    by (simp_all add: begin_restart_def teardown_pool_state_def pause_monitor_def frame_simps Let_def)
  with kill_server_frame(3) [OF k] rebuild_gens [OF b] show ?thesis by (auto simp: receive_event_def)
qed

section \<open>Retrying\<close>

text \<open>
  C18: Recovery does not give up. Every attempt that ends in an \<open>Exception\<close> is followed by the next one, on the
  system as the failed one left it, unless the watchdog has been stopped in between or the environment allows no
  more; the loop ends with the first attempt that succeeds, with \<open>server_ready\<close> set, or with the first exception that
  is worse. It waits one second after the first failure, twice as long after each further one, and never longer than
  thirty.
\<close>
theorem recovery_persists:
  assumes "recover_with_retry root_uri trigger reason culprits k as s = Some (s', ds, r)"
    and "\<not> restart_locked (dog s)"
  shows "ds = map retry_delay [Suc k..<Suc k + length ds] \<and> (\<forall>d \<in> set ds. 1 \<le> d \<and> d \<le> 30) \<and> length ds \<le> length as
    \<and> (\<exists>ss. length ss = Suc (length ds) \<and> ss ! 0 = s
         \<and> (\<forall>i < length ds. \<not> stopping (dog (ss ! i))
              \<and> (\<exists>e. is_Exception e \<and> restart root_uri trigger reason culprits (as ! i) (ss ! i) = Some (ss ! Suc i, Inl e)))
         \<and> (case r of
              Inr True \<Rightarrow> length ds < length as \<and> server_ready (dog s')
                \<and> restart root_uri trigger reason culprits (as ! length ds) (ss ! length ds) = Some (s', Inr ())
            | Inr False \<Rightarrow> s' = ss ! length ds \<and> (stopping (dog s') \<or> length ds = length as)
            | Inl e \<Rightarrow> length ds < length as \<and> \<not> is_Exception e \<and> \<not> server_ready (dog s')
                \<and> restart root_uri trigger reason culprits (as ! length ds) (ss ! length ds) = Some (s', Inl e)))"
  using assms
proof (induction as arbitrary: k s ds)
  case Nil
  then show ?case by (intro conjI exI [of _ "[s]"]) auto
next
  case (Cons a as)
  show ?case
  proof (cases "stopping (dog s)")
    case True
    with Cons.prems show ?thesis by (intro conjI exI [of _ "[s]"]) auto
  next
    case False
    obtain s1 r1 where 1: "restart root_uri trigger reason culprits a s = Some (s1, r1)"
      using Cons.prems(1) False by (auto split: option.splits)
    note R = ready_iff_restarted_lemma [OF 1 Cons.prems(2)]
    consider "r1 = Inr ()" | e where "r1 = Inl e" "\<not> is_Exception e" | e where "r1 = Inl e" "is_Exception e"
      by (cases r1) auto
    then show ?thesis
    proof cases
      case 3
      then obtain ds' where d: "recover_with_retry root_uri trigger reason culprits (Suc k) as s1 = Some (s', ds', r)"
        "ds = retry_delay (Suc k) # ds'"
        using Cons.prems(1) False 1 by (auto split: option.splits)
      have "1 \<le> retry_delay (Suc k)" "retry_delay (Suc k) \<le> 30"
        by (simp_all add: retry_delay_def)
      moreover have "[Suc k..<Suc k + length ds] = Suc k # [Suc (Suc k)..<Suc (Suc k) + length ds']"
        using d(2) upt_conv_Cons [of "Suc k" "Suc k + length ds"] by (simp del: upt_Suc)
      moreover obtain ss where ss: "length ss = Suc (length ds')" "ss ! 0 = s1"
        "\<forall>i < length ds'. \<not> stopping (dog (ss ! i))
           \<and> (\<exists>e. is_Exception e \<and> restart root_uri trigger reason culprits (as ! i) (ss ! i) = Some (ss ! Suc i, Inl e))"
        "case r of
            Inr True \<Rightarrow> length ds' < length as \<and> server_ready (dog s')
              \<and> restart root_uri trigger reason culprits (as ! length ds') (ss ! length ds') = Some (s', Inr ())
          | Inr False \<Rightarrow> s' = ss ! length ds' \<and> (stopping (dog s') \<or> length ds' = length as)
          | Inl e \<Rightarrow> length ds' < length as \<and> \<not> is_Exception e \<and> \<not> server_ready (dog s')
              \<and> restart root_uri trigger reason culprits (as ! length ds') (ss ! length ds') = Some (s', Inl e)"
        using Cons.IH [OF d(1)] R by blast
      moreover have "\<forall>i < length ds. \<not> stopping (dog ((s # ss) ! i))
           \<and> (\<exists>e. is_Exception e \<and> restart root_uri trigger reason culprits ((a # as) ! i) ((s # ss) ! i) = Some ((s # ss) ! Suc i, Inl e))"
        using ss(2,3) 1 3 False d(2) by (auto simp: less_Suc_eq_0_disj)
      ultimately show ?thesis
        using Cons.IH [OF d(1)] R d(2) by (intro conjI exI [of _ "s # ss"]) (auto split: sum.splits bool.splits)
    qed (use Cons.prems(1) False 1 R in \<open>auto intro!: exI [of _ "[s]"]\<close>)
  qed
qed

section \<open>A recovery\<close>

text \<open>
  Two workers, one at work and one idle, and a request waiting on queue 0; the server never came up, so there
  is nothing to kill; the next one starts as process 60 and answers \<open>initialize\<close>.
\<close>

definition busy_pool :: pool where
  "busy_pool = \<lparr>workers = [(idle_worker 1 ''a'')\<lparr>current_task := Some (demo_task ''ping'' 4)\<rparr>, idle_worker 2 ''b''],
     overall_queue = [], selection_cursor = 0, keep_alive_running = True\<rparr>"

definition demo_system :: system where
  "demo_system = \<lparr>dog = demo_watchdog\<lparr>armed := False\<rparr>, shared = demo_shared,
     lsp = demo_client\<lparr>pending_requests := [(5, 0)], waits := [Some (Response (JObj [(''result'', JObj [])]))]\<rparr>,
     routes = \<lparr>worker_pool = Some busy_pool, init_buffers = []\<rparr>, server_pid = None, signals = [], stale_pools = []\<rparr>"

definition demo_attempt :: attempt where
  "demo_attempt = \<lparr>a_now = 0, a_os = demo_os\<lparr>os_root := None\<rparr>, a_popen = Inr 60, a_monitor_alive = True,
     a_monitor_start = None, a_server_alive = True, a_arrivals = (\<lambda>u. []), a_readings = [], a_adopt = (\<lambda>p w. Inl (RuntimeError [])),
     a_oom = (\<lambda>c. None)\<rparr>"

definition failing_attempt :: attempt where
  "failing_attempt = demo_attempt\<lparr>a_popen := Inl (OSError 2 ''No such file or directory'')\<rparr>"

lemma demo_lock: "\<not> restart_locked (dog demo_system)"
  by (simp add: demo_system_def demo_watchdog_def)

lemma demo_connect:
  assumes "waits (lsp s) = [Some (Response (JObj [(''result'', JObj [])]))]" and "faults (lsp s) = []" and "a_popen a = Inr pid"
    and "a_monitor_start a = None"
  shows "\<exists>s'. connect_lsp ''file:///p'' a s = (s', Inr ()) \<and> process_up (lsp s') \<and> faults (lsp s') = []
    \<and> armed (dog s') = armed (dog s) \<and> pool_size (dog s') = pool_size (dog s) \<and> memory_max (dog s') = memory_max (dog s)"
proof -
  have "\<exists>c. initialize_client ''file:///p'' ((lsp s)\<lparr>process_up := True\<rparr>) = (c, Inr (JObj [])) \<and> process_up c \<and> faults c = []"
    using assms(1,2) by (simp add: initialize_client_def request_def fresh_queue_def register_pending_def send_message_def
        await_reply_def drop_pending_def response_error_def response_result_def Let_def)
  with assms(3,4) show ?thesis
    by (auto simp: connect_lsp_def initialized_client_def notify_def send_message_def start_watchdog_def Let_def)
qed

lemma demo_rebuild:
  assumes "waits (lsp s) = [Some (Response (JObj [(''result'', JObj [])]))]" and "faults (lsp s) = []" and "\<not> armed (dog s)"
  shows "\<exists>s'. rebuild ''file:///p'' trigger demo_attempt s = (s', Inr ())"
proof -
  have "a_popen demo_attempt = Inr 60" "a_monitor_start demo_attempt = None" by (simp_all add: demo_attempt_def)
  from demo_connect [OF assms(1,2) this] assms(3) show ?thesis by (auto simp: rebuild_def)
qed

lemma stop_units_memory [frame_simps]: "memory_max (fold (\<lambda>(w, g). stop_unit (g_unit g)) gs d) = memory_max d"
  by (induction gs arbitrary: d) (simp_all add: stop_unit_def case_prod_beta)

lemma demo_killed:
  assumes "os_root (a_os a) = None"
  shows "\<exists>s'. kill_server a (begin_restart trigger reason culprits t s) = Some s' \<and> waits (lsp s') = waits (lsp s)
    \<and> faults (lsp s') = faults (lsp s) \<and> armed (dog s') = armed (dog s) \<and> pool_size (dog s') = pool_size (dog s)
    \<and> memory_max (dog s') = memory_max (dog s)"
  using assms
  by (simp add: kill_server_def kill_process_tree_def begin_restart_lsp wake_pending_def begin_restart_dog
      stop_worker_scopes_def frame_simps)

lemma demo_restart:
  "\<exists>s'. restart ''file:///p'' trigger reason culprits demo_attempt demo_system = Some (s', Inr ())"
proof -
  have "os_root (a_os demo_attempt) = None" by (simp add: demo_attempt_def)
  from demo_killed [OF this] obtain s1
    where k: "kill_server demo_attempt (begin_restart trigger reason culprits (a_now demo_attempt) demo_system) = Some s1"
      and "waits (lsp s1) = waits (lsp demo_system)" "faults (lsp s1) = faults (lsp demo_system)"
        "armed (dog s1) = armed (dog demo_system)" by blast
  then have "waits (lsp s1) = [Some (Response (JObj [(''result'', JObj [])]))]" "faults (lsp s1) = []" "\<not> armed (dog s1)"
    by (simp_all add: demo_system_def demo_client_def)
  from demo_rebuild [OF this] k demo_lock show ?thesis by (auto simp: restart_def)
qed

theorem culprits_marked_exactly_witness:
  "\<exists>p'. worker_pool (routes (begin_restart ''deadline'' ''r'' {1} 0 demo_system)) = Some p'
     \<and> current_task (workers p' ! 0) = Some ((demo_task ''ping'' 4)\<lparr>t_culprit := True, t_culprit_reason := Some ''r''\<rparr>)
     \<and> current_task (workers p' ! 1) = None"
proof -
  obtain s' where s': "begin_restart ''deadline'' ''r'' {1} 0 demo_system = s'" by simp
  have p: "worker_pool (routes demo_system) = Some busy_pool"
    by (simp add: demo_system_def)
  from culprits_marked_exactly [OF p s'] obtain p' where
    w: "worker_pool (routes s') = Some p'" and
    a: "\<forall>i < length (workers busy_pool). worker_id (workers p' ! i) = worker_id (workers busy_pool ! i) \<and>
       (case current_task (workers busy_pool ! i) of
          None \<Rightarrow> current_task (workers p' ! i) = None \<and> w_doc (workers p' ! i) = w_doc (workers busy_pool ! i)
        | Some u \<Rightarrow>
            current_task (workers p' ! i) =
              Some (if \<not> precise_trigger ''deadline'' \<or> worker_id (workers busy_pool ! i) \<in> {1}
                    then u\<lparr>t_culprit := True, t_culprit_reason := Some ''r''\<rparr> else u)
            \<and> inbox (w_doc (workers p' ! i)) = inbox (w_doc (workers busy_pool ! i)) @ [(0, poison_notification)])" by auto
  have "current_task (workers p' ! 0) = Some ((demo_task ''ping'' 4)\<lparr>t_culprit := True, t_culprit_reason := Some ''r''\<rparr>)"
    using a [rule_format, of 0] by (simp add: busy_pool_def idle_worker_def new_worker_def)
  moreover have "current_task (workers p' ! 1) = None"
    using a [rule_format, of 1] by (simp add: busy_pool_def idle_worker_def new_worker_def)
  ultimately show ?thesis using w s' by blast
qed

theorem restart_wakes_everyone_witness:
  "response_queues (lsp (begin_restart ''death'' ''r'' {} 0 demo_system)) 0 = [Poisoned]"
  using restart_wakes_everyone [of demo_system 5 0 "''death''" "''r''" "{}" 0]
  by (simp add: demo_system_def demo_client_def)

theorem ready_iff_restarted_witness:
  "\<exists>s'. restart ''file:///p'' ''deadline'' ''r'' {1} demo_attempt demo_system = Some (s', Inr ()) \<and> server_ready (dog s')"
  using demo_restart ready_iff_restarted [OF _ demo_lock] by blast

theorem restart_starts_new_generation_witness:
  "\<exists>s'. restart ''file:///p'' ''deadline'' ''r'' {1} demo_attempt demo_system = Some (s', Inr ())
     \<and> generation (shared s') = 4"
proof -
  have "gens_ok (shared demo_system)" by (simp add: demo_system_def demo_shared_def gens_ok_def)
  with demo_restart restart_starts_new_generation [OF _ demo_lock] show ?thesis
    by (fastforce simp: demo_attempt_def demo_system_def demo_shared_def)
qed

lemma demo_failure:
  "\<exists>s'. restart ''file:///p'' ''death'' ''r'' {} failing_attempt demo_system = Some (s', Inl (OSError 2 ''No such file or directory''))"
  using demo_lock
  by (simp add: restart_def kill_server_def failing_attempt_def demo_attempt_def kill_process_tree_def rebuild_def
      connect_lsp_def)

theorem recovery_persists_witness:
  "\<exists>s' e. recover_with_retry ''file:///p'' ''death'' ''r'' {} 0 [failing_attempt] demo_system = Some (s', [1], Inr False)
     \<and> is_Exception e \<and> restart ''file:///p'' ''death'' ''r'' {} failing_attempt demo_system = Some (s', Inl e)"
proof -
  obtain s' where s': "restart ''file:///p'' ''death'' ''r'' {} failing_attempt demo_system
      = Some (s', Inl (OSError 2 ''No such file or directory''))" using demo_failure by blast
  have "\<not> stopping (dog demo_system)" by (simp add: demo_system_def demo_watchdog_def)
  with s' have r: "recover_with_retry ''file:///p'' ''death'' ''r'' {} 0 [failing_attempt] demo_system
      = Some (s', [retry_delay (Suc 0)], Inr False)" by simp
  from recovery_persists [OF r demo_lock] r show ?thesis by (auto simp: retry_delay_def)
qed

end
