(* ===== verification/TimeoutPolicy.thy ===== *)
theory TimeoutPolicy imports Errors begin

text \<open>
  Sample-scoped timeout accounting, \<open>pyleaner/timeout_policy.py\<close>. The state dictionary of a
  sample and the submission marker of a tool call are mutable Python objects reached through
  context variables, so they live in a store: \<open>states\<close> and \<open>markers\<close> map references to
  objects, \<open>sample\<close> and \<open>tool\<close> are the two context variables. A callback is any function
  of this world. The disk holds what a reader finds after a crash: data a process has written
  but not synced is not durable.
\<close>

section \<open>State\<close>

record feedback =
  fb_status :: string
  fb_success :: bool
  fb_error :: string
  fb_consecutive_timeouts :: int
  fb_timeout_limit :: int
  fb_timeout_exhausted :: bool
  fb_instruction :: string

record journal =
  consecutive :: int
  limit :: int
  timeouts :: "(string, feedback) dict"

text \<open>
  A durable file is a complete journal, or torn: it was truncated, and the data written since
  (if any) is still in a buffer.
\<close>

datatype jfile = Journal journal | Torn "journal option"

record tp_world =
  sample :: "(string \<times> nat) option"
  tool :: "nat option"
  states :: "nat \<Rightarrow> journal"
  markers :: "nat \<Rightarrow> bool"
  next_ref :: nat
  disk :: "string \<Rightarrow> jfile option"
  fs_fault :: "(nat \<times> exn) option" \<comment> \<open>the file operation that raises, counted from 0\<close>

definition fresh_journal :: "int \<Rightarrow> journal" where
  "fresh_journal cap = \<lparr>consecutive = 0, limit = cap, timeouts = []\<rparr>"

definition alloc_state :: "journal \<Rightarrow> tp_world \<Rightarrow> tp_world \<times> nat" where
  "alloc_state j w = (w\<lparr>states := (states w)(next_ref w := j), next_ref := Suc (next_ref w)\<rparr>, next_ref w)"

definition alloc_marker :: "tp_world \<Rightarrow> tp_world \<times> nat" where
  "alloc_marker w = (w\<lparr>markers := (markers w)(next_ref w := False), next_ref := Suc (next_ref w)\<rparr>, next_ref w)"

definition note_lean_submission :: "tp_world \<Rightarrow> tp_world" where
  "note_lean_submission w =
     (case tool w of None \<Rightarrow> w | Some m \<Rightarrow> w\<lparr>markers := (markers w)(m := True)\<rparr>)"

section \<open>The journal on disk\<close>

text \<open>\<open>Path.with_suffix('.tmp')\<close>: the last suffix of the file name, if it has one, is replaced.\<close>

definition path_name :: "string \<Rightarrow> string" where
  "path_name p = rev (takeWhile (\<lambda>c. c \<noteq> CHR ''/'') (rev p))"

definition path_dir :: "string \<Rightarrow> string" where
  "path_dir p = rev (dropWhile (\<lambda>c. c \<noteq> CHR ''/'') (rev p))"

definition name_stem :: "string \<Rightarrow> string" where
  "name_stem name =
     (let ext = rev (takeWhile (\<lambda>c. c \<noteq> CHR ''.'') (rev name));
          upto = rev (dropWhile (\<lambda>c. c \<noteq> CHR ''.'') (rev name))
      in if 1 < length upto \<and> ext \<noteq> [] then butlast upto else name)"

definition with_suffix_tmp :: "string \<Rightarrow> string" where
  "with_suffix_tmp p = path_dir p @ name_stem (path_name p) @ ''.tmp''"

datatype fs_step =
    Mkdir string
  | OpenTrunc string
  | DumpFlush string journal
  | Fsync string
  | Replace string string

fun fs_apply :: "fs_step \<Rightarrow> (string \<Rightarrow> jfile option) \<Rightarrow> (string \<Rightarrow> jfile option)" where
  "fs_apply (Mkdir p) d = d"
| "fs_apply (OpenTrunc p) d = d(p := Some (Torn None))"
| "fs_apply (DumpFlush p j) d = d(p := Some (Torn (Some j)))"
| "fs_apply (Fsync p) d =
     (case d p of Some (Torn (Some j)) \<Rightarrow> d(p := Some (Journal j)) | _ \<Rightarrow> d)"
| "fs_apply (Replace p q) d = (if p = q then d else (d(q := d p))(p := None))"

definition persist_steps :: "string \<Rightarrow> journal \<Rightarrow> fs_step list" where
  "persist_steps path j =
     [Mkdir (path_dir path), OpenTrunc (with_suffix_tmp path), DumpFlush (with_suffix_tmp path) j,
      Fsync (with_suffix_tmp path), Replace (with_suffix_tmp path) path]"

text \<open>The steps run in order; an operation that raises leaves the effects of those before it.\<close>

definition persist :: "string \<Rightarrow> journal \<Rightarrow> tp_world \<Rightarrow> tp_world \<times> (exn + unit)" where
  "persist path j w =
     (case fs_fault w of
        Some (k, e) \<Rightarrow>
          if k < length (persist_steps path j)
          then (w\<lparr>disk := fold fs_apply (take k (persist_steps path j)) (disk w)\<rparr>, Inl e)
          else (w\<lparr>disk := fold fs_apply (persist_steps path j) (disk w)\<rparr>, Inr ())
      | None \<Rightarrow> (w\<lparr>disk := fold fs_apply (persist_steps path j) (disk w)\<rparr>, Inr ()))"

section \<open>The tool boundary\<close>

text \<open>\<open>if key\<close>: neither \<open>None\<close> nor the empty string.\<close>

definition truthy_key :: "string option \<Rightarrow> string option" where
  "truthy_key key = (case key of Some k \<Rightarrow> if k = [] then None else Some k | None \<Rightarrow> None)"

definition receipt :: "string option \<Rightarrow> journal \<Rightarrow> feedback option" where
  "receipt key j = (case truthy_key key of None \<Rightarrow> None | Some k \<Rightarrow> dict_get (timeouts j) k)"

definition timeout_feedback :: "string \<Rightarrow> journal \<Rightarrow> feedback" where
  "timeout_feedback msg j = \<lparr>
     fb_status = ''lean_timeout'', fb_success = False, fb_error = msg,
     fb_consecutive_timeouts = consecutive j, fb_timeout_limit = limit j,
     fb_timeout_exhausted = (limit j \<le> consecutive j),
     fb_instruction = ''Lean timed out. Simplify the proof or reduce case enumeration before retrying.''\<rparr>"

definition count_timeout :: "string option \<Rightarrow> string \<Rightarrow> journal \<Rightarrow> journal \<times> feedback" where
  "count_timeout key msg j =
     (let j1 = j\<lparr>consecutive := consecutive j + 1\<rparr>; fb = timeout_feedback msg j1
      in (case truthy_key key of
            Some k \<Rightarrow> (j1\<lparr>timeouts := dict_set k fb (timeouts j1)\<rparr>, fb)
          | None \<Rightarrow> (j1, fb)))"

text \<open>Store the journal under its reference and, in a sample scope, persist it.\<close>

definition save_state ::
  "(string \<times> nat) option \<Rightarrow> nat \<Rightarrow> journal \<Rightarrow> tp_world \<Rightarrow> tp_world \<times> (exn + unit)" where
  "save_state policy ref j w =
     (let w' = w\<lparr>states := (states w)(ref := j)\<rparr>
      in case policy of Some (path, _) \<Rightarrow> persist path j w' | None \<Rightarrow> (w', Inr ()))"

type_synonym 'a callback = "tp_world \<Rightarrow> tp_world \<times> (exn + 'a)"

text \<open>What follows the callback, up to the \<open>finally\<close>: \<open>m\<close> is the marker, \<open>ref\<close> the state.\<close>

definition after_callback ::
  "(string \<times> nat) option \<Rightarrow> nat \<Rightarrow> nat \<Rightarrow> string option \<Rightarrow> tp_world \<Rightarrow> exn + 'a
     \<Rightarrow> tp_world \<times> (exn + 'a option \<times> feedback option)" where
  "after_callback policy ref m key w r =
     (case r of
        Inl (LeanTaskTimeout msg) \<Rightarrow>
          (let (j, fb) = count_timeout key msg (states w ref)
           in case save_state policy ref j w of
                (w', Inl e) \<Rightarrow> (w', Inl e)
              | (w', Inr _) \<Rightarrow> (w', Inr (None, Some fb)))
      | Inl e \<Rightarrow> (w, Inl e)
      | Inr v \<Rightarrow>
          if markers w m \<and> consecutive (states w ref) \<noteq> 0
          then (case save_state policy ref ((states w ref)\<lparr>consecutive := 0\<rparr>) w of
                  (w', Inl e) \<Rightarrow> (w', Inl e)
                | (w', Inr _) \<Rightarrow> (w', Inr (Some v, None)))
          else (w, Inr (Some v, None)))"

definition run_lean_tool ::
  "'a callback \<Rightarrow> string option \<Rightarrow> tp_world \<Rightarrow> tp_world \<times> (exn + 'a option \<times> feedback option)" where
  "run_lean_tool callback key w =
     (let policy = sample w;
          (w0, ref) = (case policy of Some (path, r) \<Rightarrow> (w, r) | None \<Rightarrow> alloc_state (fresh_journal 3) w)
      in case receipt key (states w0 ref) of
           Some fb \<Rightarrow> (w0, Inr (None, Some fb))
         | None \<Rightarrow>
             (let token = tool w0;
                  (w1, m) = alloc_marker w0;
                  (w2, r) = callback (w1\<lparr>tool := Some m\<rparr>);
                  (w3, res) = after_callback policy ref m key w2 r
              in (w3\<lparr>tool := token\<rparr>, res)))"

definition finish_timeout_feedback :: "feedback option \<Rightarrow> exn + unit" where
  "finish_timeout_feedback fb =
     (case fb of
        Some f \<Rightarrow> if fb_timeout_exhausted f
          then Inl (LeanTimeoutExhausted (show_int (fb_consecutive_timeouts f) @ '' consecutive Lean tool timeouts''))
          else Inr ()
      | None \<Rightarrow> Inr ())"

definition load_journal :: "string \<Rightarrow> tp_world \<Rightarrow> exn + journal" where
  "load_journal path w =
     (case disk w path of
        None \<Rightarrow> Inr (fresh_journal 0)
      | Some (Journal j) \<Rightarrow> Inr j
      | Some (Torn b) \<Rightarrow> Inl (ValueError ''not a JSON document''))"

text \<open>The \<open>with\<close> statement around a body: the context variable is reset on every exit.\<close>

definition sample_timeout_scope ::
  "string \<Rightarrow> int \<Rightarrow> 'a callback \<Rightarrow> tp_world \<Rightarrow> tp_world \<times> (exn + 'a)" where
  "sample_timeout_scope path cap body w =
     (if cap < 1 then (w, Inl (ValueError ''Lean consecutive timeout limit must be positive''))
      else case load_journal path w of
        Inl e \<Rightarrow> (w, Inl e)
      | Inr j0 \<Rightarrow>
          (let j = j0\<lparr>limit := cap\<rparr>;
               (w1, ref) = alloc_state j w;
               token = sample w1;
               w2 = w1\<lparr>sample := Some (path, ref)\<rparr>;
               (w3, r) = (if cap \<le> consecutive j
                  then (w2, Inl (LeanTimeoutExhausted
                         (show_int (consecutive j) @ '' consecutive Lean tool timeouts'')))
                  else body w2)
           in (w3\<lparr>sample := token\<rparr>, r)))"

section \<open>Durability\<close>

lemma with_suffix_tmp_ends: "\<exists>q. with_suffix_tmp p = q @ ''.tmp''"
  by (rule exI [of _ "path_dir p @ name_stem (path_name p)"]) (simp add: with_suffix_tmp_def)

lemma tmp_differs: "\<nexists>q. p = q @ ''.tmp'' \<Longrightarrow> with_suffix_tmp p \<noteq> p"
  using with_suffix_tmp_ends [of p] by metis

lemma persist_steps_length [simp]: "length (persist_steps path j) = 5"
  by (simp add: persist_steps_def)

lemma persist_steps_all:
  "with_suffix_tmp path \<noteq> path \<Longrightarrow> fold fs_apply (persist_steps path j) d path = Some (Journal j)"
  by (simp add: persist_steps_def)

lemma persist_steps_prefix:
  assumes "with_suffix_tmp path \<noteq> path" and "k < 5"
  shows "fold fs_apply (take k (persist_steps path j)) d path = d path"
proof -
  from assms(2) consider "k = 0" | "k = 1" | "k = 2" | "k = 3" | "k = 4" by linarith
  then show ?thesis
    by cases (use assms(1) in \<open>simp_all add: persist_steps_def split: option.splits jfile.splits\<close>)
qed

lemma persist_frame [frame_simps]:
  "sample (fst (persist path j w)) = sample w" "tool (fst (persist path j w)) = tool w"
  "states (fst (persist path j w)) = states w" "markers (fst (persist path j w)) = markers w"
  "next_ref (fst (persist path j w)) = next_ref w" "fs_fault (fst (persist path j w)) = fs_fault w"
  by (simp_all add: persist_def split: option.splits)

lemma persist_ok:
  assumes "fs_fault w = None" and "with_suffix_tmp path \<noteq> path"
  obtains d where "persist path j w = (w\<lparr>disk := d\<rparr>, Inr ())" and "d path = Some (Journal j)"
  using assms by (simp add: persist_def persist_steps_all)

text \<open>
  C27: Replacing the journal is atomic: whichever of its file operations raises (or is the last
  one before the process dies), the sample's durable file is either untouched or the complete
  new journal, and it is the new journal whenever the operation returns.
\<close>

theorem persist_atomic:
  assumes "\<nexists>q. path = q @ ''.tmp''" and "persist path j w = (w', r)"
  shows "if r = Inr () then disk w' path = Some (Journal j) else disk w' path = disk w path"
proof -
  note t = tmp_differs [OF assms(1)]
  show ?thesis
    using assms(2) t
    by (auto simp: persist_def persist_steps_all persist_steps_prefix split: option.splits if_splits)
qed

theorem persist_atomic_witness:
  "\<exists>w' r. persist ''a/s.json'' (fresh_journal 3)
      \<lparr>sample = None, tool = None, states = \<lambda>_. fresh_journal 3, markers = \<lambda>_. False, next_ref = 0,
       disk = Map.empty, fs_fault = Some (3, OSError 28 ''No space left'')\<rparr> = (w', r)
    \<and> disk w' ''a/s.json'' = None"
proof -
  let ?w = "\<lparr>sample = None, tool = None, states = \<lambda>_. fresh_journal 3, markers = \<lambda>_. False, next_ref = 0,
       disk = Map.empty, fs_fault = Some (3, OSError 28 ''No space left'')\<rparr>"
  obtain w' r where p: "persist ''a/s.json'' (fresh_journal 3) ?w = (w', r)" by fastforce
  have s: "\<nexists>q. ''a/s.json'' = q @ ''.tmp''"
  proof
    assume "\<exists>q. ''a/s.json'' = q @ ''.tmp''"
    then obtain q where "''a/s.json'' = q @ ''.tmp''" by blast
    then have "rev ''a/s.json'' = rev (q @ ''.tmp'')" by (rule arg_cong)
    then show False by simp
  qed
  from p have "r = Inl (OSError 28 ''No space left'')"
    by (simp add: persist_def)
  with persist_atomic [OF s p] p show ?thesis by auto
qed

section \<open>One tool call\<close>

lemma save_state_frame [frame_simps]:
  "sample (fst (save_state pol ref j w)) = sample w" "tool (fst (save_state pol ref j w)) = tool w"
  "states (fst (save_state pol ref j w)) = (states w)(ref := j)"
  "next_ref (fst (save_state pol ref j w)) = next_ref w"
  "fs_fault (fst (save_state pol ref j w)) = fs_fault w"
  by (simp_all add: save_state_def Let_def persist_frame split: option.splits prod.splits)

lemma count_timeout_facts:
  assumes "count_timeout key msg j = (j', fb)"
  shows "consecutive j' = consecutive j + 1" and "limit j' = limit j"
    and "fb = timeout_feedback msg (j\<lparr>consecutive := consecutive j + 1\<rparr>)"
    and "truthy_key key = Some k \<Longrightarrow> timeouts j' = dict_set k fb (timeouts j)"
  using assms by (auto simp: count_timeout_def Let_def split: option.splits)

lemma after_callback_frame [frame_simps]:
  "sample (fst (after_callback pol ref m key w r)) = sample w"
  "tool (fst (after_callback pol ref m key w r)) = tool w"
  "next_ref (fst (after_callback pol ref m key w r)) = next_ref w"
  "fs_fault (fst (after_callback pol ref m key w r)) = fs_fault w"
proof -
  have s: "sample w' = sample w \<and> tool w' = tool w \<and> next_ref w' = next_ref w \<and> fs_fault w' = fs_fault w"
    if "save_state pol ref j w = (w', x)" for j w' x
    using save_state_frame [of pol ref j w] that by simp
  show "sample (fst (after_callback pol ref m key w r)) = sample w"
    "tool (fst (after_callback pol ref m key w r)) = tool w"
    "next_ref (fst (after_callback pol ref m key w r)) = next_ref w"
    "fs_fault (fst (after_callback pol ref m key w r)) = fs_fault w"
    by (auto simp: after_callback_def split: sum.splits exn.splits prod.splits dest!: s)
qed

text \<open>
  A tool call that is replayed (its key already has a receipt) runs nothing and counts
  nothing: whatever the callback, the world is unchanged and the original receipt is returned.
\<close>

theorem replayed_timeout_is_not_recounted:
  assumes "sample w = Some (path, ref)" and "key \<noteq> []"
    and "dict_get (timeouts (states w ref)) key = Some fb"
  shows "run_lean_tool callback (Some key) w = (w, Inr (None, Some fb))"
  using assms by (simp add: run_lean_tool_def receipt_def truthy_key_def)

definition demo_world :: tp_world where
  "demo_world = \<lparr>sample = Some (''s'', 0), tool = None,
     states = (\<lambda>_. (fresh_journal 3)\<lparr>timeouts := [(''k'', timeout_feedback ''m'' (fresh_journal 3))]\<rparr>),
     markers = (\<lambda>_. False), next_ref = 1, disk = Map.empty, fs_fault = None\<rparr>"

theorem replayed_timeout_is_not_recounted_witness:
  "run_lean_tool (\<lambda>w. (note_lean_submission w, Inr ())) (Some ''k'') demo_world
     = (demo_world, Inr (None, Some (timeout_feedback ''m'' (fresh_journal 3))))"
  by (rule replayed_timeout_is_not_recounted [where path = "''s''" and ref = 0])
     (simp_all add: demo_world_def)

text \<open>The submission marker is scoped to the tool call, on every exit of every callback.\<close>

lemma run_lean_tool_restores_marker: "tool (fst (run_lean_tool callback key w)) = tool w"
  by (simp add: run_lean_tool_def Let_def alloc_state_def alloc_marker_def
      split: option.splits prod.splits)

text \<open>A call inside a sample scope, given what its callback did.\<close>

lemma run_lean_tool_in_scope:
  assumes "sample w = Some (path, ref)" and "receipt key (states w ref) = None"
    and "alloc_marker w = (w1, m)" and "callback (w1\<lparr>tool := Some m\<rparr>) = (w2, r)"
  shows "run_lean_tool callback key w =
     (case after_callback (Some (path, ref)) ref m key w2 r of (w3, res) \<Rightarrow> (w3\<lparr>tool := tool w\<rparr>, res))"
  using assms by (simp add: run_lean_tool_def)

text \<open>
  A callback that ends in any exception but the task deadline leaves through the tool
  boundary unchanged, and neither the streak nor the journal on disk is touched.
\<close>

theorem other_errors_pass_through:
  fixes callback :: "'a callback"
  assumes "sample w = Some (path, ref)" and "receipt key (states w ref) = None"
    and "callback (w\<lparr>markers := (markers w)(next_ref w := False), next_ref := Suc (next_ref w),
                     tool := Some (next_ref w)\<rparr>) = (w2, Inl e)"
    and "\<nexists>m. e = LeanTaskTimeout m"
  shows "run_lean_tool callback key w = (w2\<lparr>tool := tool w\<rparr>, Inl e)"
proof -
  have "after_callback (Some (path, ref)) ref m key w2 (Inl e :: exn + 'a) = (w2, Inl e)" for m
    using assms(4) by (cases e) (simp_all add: after_callback_def)
  then show ?thesis
    using run_lean_tool_in_scope [OF assms(1,2), of _ _ callback w2 "Inl e"] assms(3)
    by (simp add: alloc_marker_def)
qed

theorem other_errors_pass_through_witness:
  "snd (run_lean_tool ((\<lambda>w. (note_lean_submission w, Inl (OSError 111 ''service down''))) :: unit callback)
     (Some ''new'') demo_world) = Inl (OSError 111 ''service down'')"
proof -
  have "sample demo_world = Some (''s'', 0)" by (simp add: demo_world_def)
  moreover have "receipt (Some ''new'') (states demo_world 0) = None"
    by (simp add: demo_world_def receipt_def truthy_key_def)
  ultimately show ?thesis
    using other_errors_pass_through [of demo_world "''s''" 0 "Some ''new''"
        "(\<lambda>w. (note_lean_submission w, Inl (OSError 111 ''service down''))) :: unit callback"]
    by simp
qed

section \<open>The streak over many calls and resumes\<close>

text \<open>A tool call that submits a Lean task and times out.\<close>

definition timing_out :: "string \<Rightarrow> unit callback" where
  "timing_out msg w = (note_lean_submission w, Inl (LeanTaskTimeout msg))"

definition tool_ready :: "string \<Rightarrow> nat \<Rightarrow> tp_world \<Rightarrow> bool" where
  "tool_ready path ref w \<longleftrightarrow>
     sample w = Some (path, ref) \<and> fs_fault w = None \<and> with_suffix_tmp path \<noteq> path"

lemma run_times_out:
  fixes callback :: "'a callback"
  assumes "tool_ready path ref w" and "receipt key (states w ref) = None"
    and "run_lean_tool callback key w = (w', res)"
    and "count_timeout key msg (states w ref) = (j, fb)"
    and "\<And>x. callback x = (note_lean_submission x, Inl (LeanTaskTimeout msg))"
  shows "res = Inr (None, Some fb)" and "states w' ref = j"
    and "disk w' path = Some (Journal j)" and "tool_ready path ref w'"
proof -
  define u where "u = note_lean_submission (fst (alloc_marker w)\<lparr>tool := Some (next_ref w)\<rparr>)"
  have u: "states u = states w" "fs_fault u = None" "sample u = sample w"
    using assms(1) by (simp_all add: u_def note_lean_submission_def alloc_marker_def tool_ready_def)
  have run: "run_lean_tool callback key w =
      (case after_callback (Some (path, ref)) ref (next_ref w) key u (Inl (LeanTaskTimeout msg)) of
         (w3, r) \<Rightarrow> (w3\<lparr>tool := tool w\<rparr>, r))"
    using run_lean_tool_in_scope [of w path ref key "fst (alloc_marker w)" "next_ref w" callback]
      assms(1,2,5) by (simp add: tool_ready_def alloc_marker_def u_def)
  define v where "v = u\<lparr>states := (states u)(ref := j)\<rparr>"
  have "fs_fault v = None" and t: "with_suffix_tmp path \<noteq> path"
    using u(2) assms(1) by (simp_all add: v_def tool_ready_def)
  then obtain d where p: "persist path j v = (v\<lparr>disk := d\<rparr>, Inr ())" and d: "d path = Some (Journal j)"
    by (rule persist_ok)
  have save: "save_state (Some (path, ref)) ref j u = persist path j v"
    by (simp add: save_state_def v_def)
  have "after_callback (Some (path, ref)) ref (next_ref w) key u (Inl (LeanTaskTimeout msg) :: exn + 'a)
      = (v\<lparr>disk := d\<rparr>, Inr (None, Some fb))"
    by (simp add: after_callback_def u(1) assms(4) save p)
  with run assms(3) have w': "w' = v\<lparr>disk := d, tool := tool w\<rparr>" and r: "res = Inr (None, Some fb)"
    by simp_all
  show "res = Inr (None, Some fb)" by (rule r)
  show "states w' ref = j" by (simp add: w' v_def)
  show "disk w' path = Some (Journal j)" using d by (simp add: w')
  show "tool_ready path ref w'"
    using assms(1) u by (simp add: w' frame_simps v_def tool_ready_def)
qed

fun streak :: "string \<Rightarrow> string list \<Rightarrow> tp_world \<Rightarrow> tp_world" where
  "streak msg [] w = w"
| "streak msg (k # ks) w = streak msg ks (fst (run_lean_tool (timing_out msg) (Some k) w))"

lemma streak_counts:
  assumes "tool_ready path ref w" and "distinct ks" and "[] \<notin> set ks"
    and "\<forall>k \<in> set ks. dict_get (timeouts (states w ref)) k = None"
  shows "tool_ready path ref (streak msg ks w)
    \<and> consecutive (states (streak msg ks w) ref) = consecutive (states w ref) + int (length ks)
    \<and> limit (states (streak msg ks w) ref) = limit (states w ref)
    \<and> (ks \<noteq> [] \<longrightarrow> disk (streak msg ks w) path = Some (Journal (states (streak msg ks w) ref)))"
  using assms
proof (induction ks arbitrary: w)
  case (Cons k ks)
  obtain w' res where run: "run_lean_tool (timing_out msg) (Some k) w = (w', res)" by fastforce
  obtain j fb where c: "count_timeout (Some k) msg (states w ref) = (j, fb)" by fastforce
  have tk: "truthy_key (Some k) = Some k" using Cons.prems(3) by (auto simp: truthy_key_def)
  have rec: "receipt (Some k) (states w ref) = None"
    using Cons.prems(4) by (simp add: receipt_def tk)
  note step = run_times_out [OF Cons.prems(1) rec run c timing_out_def]
  note cf = count_timeout_facts [OF c]
  have "\<forall>k' \<in> set ks. dict_get (timeouts (states w' ref)) k' = None"
    using Cons.prems(2,4) by (auto simp: step(2) cf(4) [OF tk] dict_get_set)
  then have IH: "tool_ready path ref (streak msg ks w')
    \<and> consecutive (states (streak msg ks w') ref) = consecutive j + int (length ks)
    \<and> limit (states (streak msg ks w') ref) = limit j
    \<and> (ks \<noteq> [] \<longrightarrow> disk (streak msg ks w') path = Some (Journal (states (streak msg ks w') ref)))"
    using Cons.IH [OF step(4)] Cons.prems(2,3) step(2) by simp
  moreover have "disk (streak msg ks w') path = Some (Journal (states (streak msg ks w') ref))" if "ks = []"
    using that step(2,3) by simp
  ultimately show ?case using run cf(1,2) by auto
qed simp

definition scope_entry :: "string \<Rightarrow> int \<Rightarrow> journal \<Rightarrow> tp_world \<Rightarrow> tp_world" where
  "scope_entry path cap j w =
     (fst (alloc_state (j\<lparr>limit := cap\<rparr>) w))\<lparr>sample := Some (path, next_ref w)\<rparr>"

lemma scope_entry_fields [simp]:
  "sample (scope_entry path cap j w) = Some (path, next_ref w)"
  "states (scope_entry path cap j w) (next_ref w) = j\<lparr>limit := cap\<rparr>"
  "fs_fault (scope_entry path cap j w) = fs_fault w" "disk (scope_entry path cap j w) = disk w"
  by (simp_all add: scope_entry_def alloc_state_def)

lemma scope_enters:
  assumes "1 \<le> cap" and "load_journal path w = Inr j" and "consecutive j < cap"
  shows "sample_timeout_scope path cap body w =
           (case body (scope_entry path cap j w) of (w3, r) \<Rightarrow> (w3\<lparr>sample := sample w\<rparr>, r))"
  using assms by (simp add: sample_timeout_scope_def scope_entry_def alloc_state_def Let_def)

lemma scope_refuses:
  assumes "1 \<le> cap" and "load_journal path w = Inr j" and "cap \<le> consecutive j"
  shows "snd (sample_timeout_scope path cap body w) =
     Inl (LeanTimeoutExhausted (show_int (consecutive j) @ '' consecutive Lean tool timeouts''))"
  using assms by (simp add: sample_timeout_scope_def alloc_state_def Let_def)

text \<open>
  C28: The streak is durable. A sample that starts afresh and times out, under distinct keys, at
  least as often as its limit allows can not be resumed: entering its scope again raises
  \<open>LeanTimeoutExhausted\<close> with the exact count, whatever the body, which is not run.
\<close>

theorem exhausted_sample_is_not_resumed:
  assumes "1 \<le> cap" and "disk w path = None" and "fs_fault w = None"
    and "\<nexists>q. path = q @ ''.tmp''"
    and "distinct ks" and "[] \<notin> set ks" and "cap \<le> int (length ks)"
    and "sample_timeout_scope path cap (\<lambda>u. (streak msg ks u, Inr ())) w = (w1, r1)"
  shows "snd (sample_timeout_scope path cap body w1) =
     Inl (LeanTimeoutExhausted (show_int (int (length ks)) @ '' consecutive Lean tool timeouts''))"
proof -
  let ?body1 = "\<lambda>u. (streak msg ks u, Inr ())"
  have l: "load_journal path w = Inr (fresh_journal 0)"
    using assms(2) by (simp add: load_journal_def)
  moreover have "consecutive (fresh_journal 0) < cap"
    using assms(1) by (simp add: fresh_journal_def)
  moreover define w2 ref where "w2 = scope_entry path cap (fresh_journal 0) w" and "ref = next_ref w"
  ultimately have w2: "(w1, r1) = ((streak msg ks w2)\<lparr>sample := sample w\<rparr>, Inr ())"
    "sample w2 = Some (path, ref)" "states w2 ref = (fresh_journal 0)\<lparr>limit := cap\<rparr>" "fs_fault w2 = None"
    using scope_enters [OF assms(1) l, of ?body1] assms(3,8) by simp_all
  have r: "tool_ready path ref w2"
    using w2 tmp_differs [OF assms(4)] by (simp add: tool_ready_def)
  have "\<forall>k \<in> set ks. dict_get (timeouts (states w2 ref)) k = None"
    by (simp add: w2(3) fresh_journal_def)
  note sc = streak_counts [OF r assms(5,6) this, of msg]
  from assms(1,7) have "ks \<noteq> []" by auto
  with sc have st: "consecutive (states (streak msg ks w2) ref) = int (length ks)"
    "disk (streak msg ks w2) path = Some (Journal (states (streak msg ks w2) ref))"
    by (simp_all add: w2(3) fresh_journal_def)
  then have "load_journal path w1 = Inr (states (streak msg ks w2) ref)"
    using w2(1) by (simp add: load_journal_def)
  from scope_refuses [OF assms(1) this] st(1) assms(7) show ?thesis by simp
qed

theorem exhausted_sample_is_not_resumed_witness:
  "\<exists>w1 r1. sample_timeout_scope ''s.json'' 3
       (\<lambda>u. (streak ''deadline'' [''a'', ''b'', ''c''] u, Inr ())) (demo_world\<lparr>sample := None\<rparr>) = (w1, r1)
     \<and> snd (sample_timeout_scope ''s.json'' 3 (\<lambda>u. (u, Inr (1::nat))) w1)
       = Inl (LeanTimeoutExhausted (show_int 3 @ '' consecutive Lean tool timeouts''))"
proof -
  obtain w1 r1 where s: "sample_timeout_scope ''s.json'' 3
       (\<lambda>u. (streak ''deadline'' [''a'', ''b'', ''c''] u, Inr ())) (demo_world\<lparr>sample := None\<rparr>) = (w1, r1)"
    by fastforce
  have "\<nexists>q. ''s.json'' = q @ ''.tmp''"
  proof
    assume "\<exists>q. ''s.json'' = q @ ''.tmp''"
    then obtain q where "''s.json'' = q @ ''.tmp''" by blast
    then have "rev ''s.json'' = rev (q @ ''.tmp'')" by (rule arg_cong)
    then show False by simp
  qed
  from exhausted_sample_is_not_resumed [OF _ _ _ this _ _ _ s] s show ?thesis
    by (simp add: demo_world_def)
qed

text \<open>
  A tool call that completes resets the streak exactly when it submitted a Lean task; an
  auxiliary call that never reached Lean leaves streak and journal as they were.
\<close>

theorem completed_call_resets_iff_submitted:
  fixes callback :: "'a callback"
  assumes "sample w = Some (path, ref)" and "receipt key (states w ref) = None"
    and "callback (w\<lparr>markers := (markers w)(next_ref w := False), next_ref := Suc (next_ref w),
                     tool := Some (next_ref w)\<rparr>) = (w2, Inr v)"
    and "fs_fault w2 = None" and "\<nexists>q. path = q @ ''.tmp''"
    and "run_lean_tool callback key w = (w3, res)"
  shows "res = Inr (Some v, None)
    \<and> states w3 ref = (if markers w2 (next_ref w) then (states w2 ref)\<lparr>consecutive := 0\<rparr> else states w2 ref)
    \<and> (if markers w2 (next_ref w) \<and> consecutive (states w2 ref) \<noteq> 0
       then disk w3 path = Some (Journal (states w3 ref)) else disk w3 = disk w2)"
proof -
  have run: "run_lean_tool callback key w =
      (case after_callback (Some (path, ref)) ref (next_ref w) key w2 (Inr v) of
         (w3, r) \<Rightarrow> (w3\<lparr>tool := tool w\<rparr>, r))"
    using run_lean_tool_in_scope [OF assms(1,2), of _ _ callback w2 "Inr v"] assms(3)
    by (simp add: alloc_marker_def)
  let ?j = "(states w2 ref)\<lparr>consecutive := 0\<rparr>"
  define v2 where "v2 = w2\<lparr>states := (states w2)(ref := ?j)\<rparr>"
  have "fs_fault v2 = None" using assms(4) by (simp add: v2_def)
  then obtain d where p: "persist path ?j v2 = (v2\<lparr>disk := d\<rparr>, Inr ())" and d: "d path = Some (Journal ?j)"
    using persist_ok [OF _ tmp_differs [OF assms(5)]] by blast
  have save: "save_state (Some (path, ref)) ref ?j w2 = (v2\<lparr>disk := d\<rparr>, Inr ())"
    using p by (simp add: save_state_def v2_def)
  show ?thesis
  proof (cases "markers w2 (next_ref w) \<and> consecutive (states w2 ref) \<noteq> 0")
    case True
    then have "(w3, res) = (v2\<lparr>disk := d, tool := tool w\<rparr>, Inr (Some v, None))"
      using run assms(6) by (simp add: after_callback_def save)
    with True d show ?thesis by (simp add: v2_def)
  next
    case False
    then have "(w3, res) = (w2\<lparr>tool := tool w\<rparr>, Inr (Some v, None))"
      using run assms(6) by (simp only: after_callback_def sum.case if_False) simp
    with False show ?thesis by auto
  qed
qed

theorem completed_call_resets_iff_submitted_witness:
  "\<exists>w3 res. run_lean_tool ((\<lambda>w. (note_lean_submission w, Inr ())) :: unit callback) (Some ''new'')
       (demo_world\<lparr>states := (\<lambda>_. (fresh_journal 3)\<lparr>consecutive := 2\<rparr>)\<rparr>) = (w3, res)
     \<and> consecutive (states w3 0) = 0"
proof -
  let ?w = "demo_world\<lparr>states := (\<lambda>_. (fresh_journal 3)\<lparr>consecutive := 2\<rparr>)\<rparr>"
  let ?cb = "(\<lambda>w. (note_lean_submission w, Inr ())) :: unit callback"
  obtain w3 res where run: "run_lean_tool ?cb (Some ''new'') ?w = (w3, res)" by fastforce
  have n: "\<nexists>q. ''s'' = q @ ''.tmp''" by (auto simp: append_eq_Cons_conv)
  show ?thesis
    using completed_call_resets_iff_submitted [OF _ _ _ _ n run, of 0]  run
    by (auto simp: demo_world_def receipt_def truthy_key_def fresh_journal_def note_lean_submission_def)
qed

end
