(* ===== verification/Resilient.thy ===== *)
theory Resilient imports Pool Monitor TimeoutPolicy begin

text \<open>
  \<open>_submit_resilient\<close> of \<open>pyleaner/client.py\<close>: submit, wait, and decide between returning, raising and
  submitting again. What the workers and the watchdog do with each submission is a script, one entry for
  each time the loop goes round; a script that ends while the loop still wants a response stands for
  a caller that is still waiting.
\<close>

section \<open>Judging a response\<close>

definition is_dead_server_error :: "(exn \<Rightarrow> string) \<Rightarrow> exn \<Rightarrow> bool" where
  "is_dead_server_error str e =
     ((case e of BrokenPipeError m \<Rightarrow> True | ConnectionResetError m \<Rightarrow> True
       | OSError n m \<Rightarrow> n = 32 \<or> n = 104 | _ \<Rightarrow> False)
      \<or> substring ''Broken pipe'' (str e) \<or> substring ''Errno 32'' (str e))"

text \<open>The two ways to go round again: at once, or when \<open>server_ready\<close> has been seen cleared.\<close>

datatype verdict = Return "value" | Raise exn | Retry string | RetryWhenDown

definition is_deadline_reason :: "string \<Rightarrow> bool" where
  "is_deadline_reason reason \<longleftrightarrow>
     substring ''deadline'' (py_lower reason) \<or> prefix_of ''task exceeded '' (py_lower reason)"

text \<open>\<open>x or y\<close> on an optional text.\<close>

definition text_or :: "string option \<Rightarrow> string \<Rightarrow> string" where
  "text_or x y = (case x of None \<Rightarrow> y | Some t \<Rightarrow> if t = [] then y else t)"

definition judge :: "(exn \<Rightarrow> string) \<Rightarrow> (exn \<Rightarrow> string) \<Rightarrow> string \<Rightarrow> string \<Rightarrow> response \<Rightarrow> verdict" where
  "judge str repr ttype input_text resp =
     (case resp of
        Ok v \<Rightarrow> Return v
      | Failed e toxic reason \<Rightarrow>
          if e = ServiceUnavailable
          then (if toxic
                then (if is_deadline_reason (text_or reason [])
                      then Raise (LeanTaskTimeout (text_or reason []))
                      else Raise (ToxicTaskError ttype (text_or reason ''crashed/wedged the server'') input_text))
                else Retry ''service_unavailable'')
          else if is_dead_server_error str e then RetryWhenDown
          else (case e of
                  LeanTaskTimeout m \<Rightarrow> Raise e
                | RpcTimeoutError m t \<Rightarrow> Raise (LeanTaskTimeout (str e))
                | _ \<Rightarrow> Raise (RuntimeError (if str e = [] then repr e else str e))))"

section \<open>The loop\<close>

definition effective_timeout :: "real \<Rightarrow> real" where
  "effective_timeout t = max t RESILIENT_RESPONSE_TIMEOUT"

definition input_text_of :: "kwargs \<Rightarrow> value" where
  "input_text_of kw = (case dict_get kw ''text'' of Some v \<Rightarrow> v | None \<Rightarrow> JStr [])"

text \<open>
  What one submission meets: whether the wait for \<open>server_ready\<close> ends, a pool or none, the response within the
  timeout, if any, and, should the pipe have broken, what \<open>is_set\<close> says at each half second afterwards. A flag that is
  never seen cleared keeps the caller waiting.
\<close>

record meeting =
  admitted :: bool
  pool_there :: bool
  meets :: "response option"
  flag_reads :: "bool list"

definition flag_falls :: "meeting \<Rightarrow> bool" where
  "flag_falls m \<longleftrightarrow> False \<in> set (flag_reads m)"

record submission =
  sub_type :: string
  sub_kwargs :: kwargs
  sub_request_id :: string
  sub_context :: "(string, value) dict"

definition resilient_event :: "submission \<Rightarrow> string \<Rightarrow> (string, value) dict \<Rightarrow> event" where
  "resilient_event s kind details =
     (new_event kind details)\<lparr>ev_request_id := Some (sub_request_id s), ev_task_type := Some (sub_type s),
        ev_outcome := Some ''infrastructure_error''\<rparr>"

text \<open>The task of one attempt; its response queue is new each time.\<close>

definition task_of :: "submission \<Rightarrow> nat \<Rightarrow> task" where
  "task_of s q = \<lparr>t_type = sub_type s, t_result_q = Some q, t_kwargs = sub_kwargs s,
     t_request_id = Some (sub_request_id s), t_task_id = None, t_context = sub_context s,
     t_culprit = False, t_culprit_reason = None\<rparr>"

text \<open>
  \<open>n\<close> attempts have been made. The result is the tasks submitted from here on, the environment, and the
  outcome, \<open>None\<close> while the caller waits.
\<close>

definition retry_event :: "submission \<Rightarrow> nat \<Rightarrow> string \<Rightarrow> event" where
  "retry_event s n why =
     resilient_event s ''resilient_retry'' [(''attempt'', JInt (int (Suc n))), (''reason'', JStr why)]"

fun resilient_loop ::
  "observer \<Rightarrow> (exn \<Rightarrow> string) \<Rightarrow> string \<Rightarrow> submission \<Rightarrow> nat \<Rightarrow> meeting list \<Rightarrow> io
     \<Rightarrow> task list \<times> io \<times> (exn + value) option" where
  "resilient_loop obs repr txt0 s n [] w = ([], w, None)"
| "resilient_loop obs repr txt0 s n (m # ms) w =
     (if \<not> admitted m then ([], w, None)
      else if \<not> pool_there m then ([], w, Some (Inl (RuntimeError ''Worker pool not initialized'')))
      else
        (let t = task_of s n
         in case meets m of
              None \<Rightarrow>
                ([t], emit (resilient_event s ''resilient_wait_expired'' [(''attempt'', JInt (int (Suc n)))]) w,
                 Some (Inl (LeanTaskTimeout (''Lean task '' @ sub_type s
                   @ '' exceeded its response deadline; revise the input before retrying.''))))
            | Some resp \<Rightarrow>
                (case judge (str_of obs) repr (sub_type s) txt0 resp of
                   Return v \<Rightarrow> ([t], w, Some (Inr v))
                 | Raise e \<Rightarrow> ([t], w, Some (Inl e))
                 | Retry why \<Rightarrow>
                     (case resilient_loop obs repr txt0 s (Suc n) ms (emit (retry_event s n why) w) of
                        (ts, w', r) \<Rightarrow> (t # ts, w', r))
                 | RetryWhenDown \<Rightarrow>
                     (let w1 = emit (retry_event s n ''dead_server'') w
                      in if \<not> flag_falls m then ([t], w1, None)
                         else (case resilient_loop obs repr txt0 s (Suc n) ms w1 of
                                 (ts, w', r) \<Rightarrow> (t # ts, w', r))))))"

definition text_string :: "value \<Rightarrow> string" where
  "text_string v = (case v of JStr t \<Rightarrow> t | _ \<Rightarrow> [])"

text \<open>
  The whole function. \<open>inherited\<close> is the client's current context, \<open>fresh\<close> a new correlation id; the
  submission is noted at the tool boundary first.
\<close>

definition submission_of ::
  "(string, value) dict \<Rightarrow> string \<Rightarrow> string \<Rightarrow> kwargs \<Rightarrow> string option \<Rightarrow> (string, value) dict option \<Rightarrow> submission" where
  "submission_of inherited fresh ttype kw request_id context =
     \<lparr>sub_type = ttype, sub_kwargs = kw, sub_request_id = text_or request_id fresh,
      sub_context = dict_merge inherited (case context of None \<Rightarrow> [] | Some c \<Rightarrow> c)\<rparr>"

definition submit_resilient ::
  "observer \<Rightarrow> (exn \<Rightarrow> string) \<Rightarrow> (string, value) dict \<Rightarrow> string \<Rightarrow> string \<Rightarrow> kwargs \<Rightarrow> string option
     \<Rightarrow> (string, value) dict option \<Rightarrow> meeting list \<Rightarrow> tp_world \<Rightarrow> io
     \<Rightarrow> tp_world \<times> task list \<times> io \<times> (exn + value) option" where
  "submit_resilient obs repr inherited fresh ttype kw request_id context script tp w =
     (note_lean_submission tp,
      resilient_loop obs repr (text_string (input_text_of kw))
        (submission_of inherited fresh ttype kw request_id context) 0 script w)"

section \<open>Innocent and toxic\<close>

definition innocent :: "(exn \<Rightarrow> string) \<Rightarrow> response \<Rightarrow> bool" where
  "innocent str resp = (case resp of Ok v \<Rightarrow> False
     | Failed e toxic reason \<Rightarrow> if e = ServiceUnavailable then \<not> toxic else is_dead_server_error str e)"

definition retried :: "observer \<Rightarrow> meeting \<Rightarrow> bool" where
  "retried obs m \<longleftrightarrow> pool_there m \<and> (\<exists>resp. meets m = Some resp \<and> innocent (str_of obs) resp)"

lemma judge_cases:
  "innocent str resp \<Longrightarrow> judge str repr tt txt0 resp =
     (case resp of Ok v \<Rightarrow> Return v
      | Failed e toxic reason \<Rightarrow> if e = ServiceUnavailable then Retry ''service_unavailable'' else RetryWhenDown)"
  "\<not> innocent str resp \<Longrightarrow> (\<exists>v. judge str repr tt txt0 resp = Return v) \<or> (\<exists>e. judge str repr tt txt0 resp = Raise e)"
  by (auto simp: judge_def innocent_def split: response.split exn.split)

text \<open>
  The interruptions that are not the task's fault: it was in flight, unmarked, when a restart began, or the
  pipe to the server went away under it.
\<close>

fun pipe_gone :: "exn \<Rightarrow> bool" where
  "pipe_gone (BrokenPipeError m) = True"
| "pipe_gone (ConnectionResetError m) = True"
| "pipe_gone (OSError n m) = (n \<in> {32, 104})"
| "pipe_gone e = False"

definition blameless :: "meeting \<Rightarrow> bool" where
  "blameless m \<longleftrightarrow> pool_there m \<and> (case meets m of
     Some (Failed e toxic reason) \<Rightarrow> if e = ServiceUnavailable then \<not> toxic else pipe_gone e
   | _ \<Rightarrow> False)"

lemma pipe_gone_dead: "pipe_gone e \<Longrightarrow> is_dead_server_error str e"
  by (cases e) (auto simp: is_dead_server_error_def)

lemma blameless_retried: "blameless m \<Longrightarrow> retried obs m"
  by (auto simp: blameless_def retried_def innocent_def pipe_gone_dead split: option.splits response.splits if_splits)

text \<open>What ends the waits of a retried meeting: the server is ready, and after a broken pipe its restart is noticed.\<close>

definition comes_back :: "meeting \<Rightarrow> bool" where
  "comes_back m \<longleftrightarrow> admitted m \<and>
     (case meets m of Some (Failed e toxic reason) \<Rightarrow> e \<noteq> ServiceUnavailable \<longrightarrow> flag_falls m | _ \<Rightarrow> True)"

text \<open>What a meeting that is not retried ends in.\<close>

definition last_word :: "observer \<Rightarrow> (exn \<Rightarrow> string) \<Rightarrow> string \<Rightarrow> submission \<Rightarrow> meeting \<Rightarrow> exn + value" where
  "last_word obs repr txt0 s m =
     (if \<not> pool_there m then Inl (RuntimeError ''Worker pool not initialized'')
      else (case meets m of
              None \<Rightarrow> Inl (LeanTaskTimeout (''Lean task '' @ sub_type s
                        @ '' exceeded its response deadline; revise the input before retrying.''))
            | Some resp \<Rightarrow> (case judge (str_of obs) repr (sub_type s) txt0 resp of Return v \<Rightarrow> Inr v
                 | Raise e \<Rightarrow> Inl e | _ \<Rightarrow> Inl ServiceUnavailable)))"

text \<open>The loop stops at the first response that is not innocent; what follows it is never looked at.\<close>

declare resilient_loop.simps(2) [simp del]

lemma resilient_loop_retries:
  assumes "retried obs a"
  shows "comes_back a \<Longrightarrow> \<exists>w1. resilient_loop obs repr txt0 s n (a # ms) w =
      (case resilient_loop obs repr txt0 s (Suc n) ms w1 of (ts, w', r) \<Rightarrow> (task_of s n # ts, w', r))"
    and "\<not> comes_back a \<Longrightarrow> \<exists>w1. resilient_loop obs repr txt0 s n (a # ms) w =
      (if admitted a then [task_of s n] else [], w1, None)"
proof -
  from assms obtain resp where a: "pool_there a" "meets a = Some resp" "innocent (str_of obs) resp"
    by (auto simp: retried_def)
  then obtain e toxic reason where r: "resp = Failed e toxic reason" by (cases resp) (auto simp: innocent_def)
  from judge_cases(1) [OF a(3), of repr "sub_type s" txt0] a(1,2) r
  show "comes_back a \<Longrightarrow> \<exists>w1. resilient_loop obs repr txt0 s n (a # ms) w =
      (case resilient_loop obs repr txt0 s (Suc n) ms w1 of (ts, w', r) \<Rightarrow> (task_of s n # ts, w', r))"
    and "\<not> comes_back a \<Longrightarrow> \<exists>w1. resilient_loop obs repr txt0 s n (a # ms) w =
      (if admitted a then [task_of s n] else [], w1, None)"
    by (auto simp: comes_back_def resilient_loop.simps(2) Let_def)
qed

lemma resilient_loop_ends:
  assumes "\<not> retried obs m" and "admitted m"
  shows "\<exists>w'. resilient_loop obs repr txt0 s n (m # ms) w =
     (if pool_there m then [task_of s n] else [], w', Some (last_word obs repr txt0 s m))"
proof (cases "pool_there m")
  case True
  show ?thesis
  proof (cases "meets m")
    case None
    with True assms(2) show ?thesis by (simp add: last_word_def resilient_loop.simps(2) Let_def)
  next
    case (Some resp)
    with True assms have "\<not> innocent (str_of obs) resp" by (simp add: retried_def)
    from judge_cases(2) [OF this, of repr "sub_type s" txt0] True Some assms(2) show ?thesis
      by (auto simp: last_word_def resilient_loop.simps(2))
  qed
qed (use assms(2) in \<open>simp add: last_word_def resilient_loop.simps(2)\<close>)

lemma resilient_loop_stops:
  assumes "\<not> retried obs m" and "admitted m"
  shows "\<forall>m' \<in> set pre. retried obs m' \<and> comes_back m' \<Longrightarrow>
    \<exists>w'. resilient_loop obs repr txt0 s n (pre @ m # post) w =
     (map (task_of s) [n..<n + length pre + (if pool_there m then 1 else 0)], w', Some (last_word obs repr txt0 s m))"
proof (induction pre arbitrary: n w)
  case Nil
  then show ?case using resilient_loop_ends [OF assms, of repr txt0 s n post w] by auto
next
  case (Cons a pre)
  from Cons.prems have "retried obs a" "comes_back a" by simp_all
  from resilient_loop_retries(1) [OF this] obtain w1 where
    w1: "resilient_loop obs repr txt0 s n (a # pre @ m # post) w =
       (case resilient_loop obs repr txt0 s (Suc n) (pre @ m # post) w1 of (ts, w', r) \<Rightarrow> (task_of s n # ts, w', r))"
    by blast
  from Cons.IH [of "Suc n" w1] Cons.prems obtain w' where
    "resilient_loop obs repr txt0 s (Suc n) (pre @ m # post) w1 =
      (map (task_of s) [Suc n..<Suc n + length pre + (if pool_there m then 1 else 0)], w', Some (last_word obs repr txt0 s m))"
    by auto
  moreover have "[n..<n + length (a # pre) + (if pool_there m then 1 else 0)]
      = n # [Suc n..<Suc n + length pre + (if pool_there m then 1 else 0)]"
    by (simp add: upt_conv_Cons del: upt_Suc)
  ultimately show ?case using w1 by (auto simp del: upt_Suc)
qed

text \<open>If one of the waits does not end, the caller waits there.\<close>

lemma resilient_loop_waits:
  assumes "\<not> retried obs m"
  shows "\<forall>m' \<in> set pre. retried obs m' \<Longrightarrow> \<not> ((\<forall>m' \<in> set pre. comes_back m') \<and> admitted m) \<Longrightarrow>
    \<exists>k w'. k \<le> length pre \<and> resilient_loop obs repr txt0 s n (pre @ m # post) w = (map (task_of s) [n..<n + k], w', None)"
proof (induction pre arbitrary: n w)
  case Nil
  then show ?case by (simp add: resilient_loop.simps(2))
next
  case (Cons a pre)
  from Cons.prems(1) have r: "retried obs a" by simp
  show ?case
  proof (cases "comes_back a")
    case False
    from resilient_loop_retries(2) [OF r this] obtain w1 where
      "resilient_loop obs repr txt0 s n (a # pre @ m # post) w = (if admitted a then [task_of s n] else [], w1, None)" by blast
    then have "resilient_loop obs repr txt0 s n ((a # pre) @ m # post) w
        = (map (task_of s) [n..<n + (if admitted a then 1 else 0)], w1, None)" by simp
    then show ?thesis by (intro exI [of _ "if admitted a then 1 else 0"] exI) auto
  next
    case True
    from resilient_loop_retries(1) [OF r True] obtain w1 where
      w1: "resilient_loop obs repr txt0 s n (a # pre @ m # post) w =
         (case resilient_loop obs repr txt0 s (Suc n) (pre @ m # post) w1 of (ts, w', r) \<Rightarrow> (task_of s n # ts, w', r))"
      by blast
    from Cons.IH [of "Suc n" w1] Cons.prems True obtain k w' where k: "k \<le> length pre"
      "resilient_loop obs repr txt0 s (Suc n) (pre @ m # post) w1 = (map (task_of s) [Suc n..<Suc n + k], w', None)" by auto
    have "[n..<n + Suc k] = n # [Suc n..<Suc n + k]" by (simp add: upt_conv_Cons del: upt_Suc)
    with k w1 show ?thesis by (intro exI [of _ "Suc k"] exI) (simp del: upt_Suc)
  qed
qed

text \<open>
  C6: An innocent task gets through as soon as there is a server for it, and not before. However often the server is
  restarted under it, the task is submitted again, each time the same task under the same request id, and the
  first real result is what the caller gets, provided that every wait in between ends: \<open>server_ready\<close> is set before each
  submission, and after each broken pipe the flag is seen cleared. Otherwise the caller waits for ever, without a
  result and without an exception.
\<close>
theorem innocent_task_gets_through:
  assumes "\<forall>m \<in> set pre. blameless m" and "pool_there m" and "meets m = Some (Ok v)"
    and "submit_resilient obs repr inherited fresh ttype kw rid ctx (pre @ m # post) tp w = (tp', ts, w', r)"
  shows "(if (\<forall>a \<in> set pre. comes_back a) \<and> admitted m
          then r = Some (Inr v) \<and> length ts = Suc (length pre) else r = None \<and> length ts \<le> length pre)
    \<and> (\<forall>t \<in> set ts. t_type t = ttype \<and> t_kwargs t = kw \<and> t_request_id t = Some (text_or rid fresh))"
proof -
  have n: "\<not> retried obs m" using assms(3) by (simp add: retried_def innocent_def)
  have r: "\<forall>a \<in> set pre. retried obs a" using assms(1) blameless_retried by blast
  let ?s = "submission_of inherited fresh ttype kw rid ctx" and ?x = "text_string (input_text_of kw)"
  show ?thesis
  proof (cases "(\<forall>a \<in> set pre. comes_back a) \<and> admitted m")
    case True
    with resilient_loop_stops [OF n, of pre repr ?x ?s 0 post w] assms(2-) r show ?thesis
      by (auto simp: submit_resilient_def last_word_def judge_def task_of_def text_or_def submission_of_def
          simp del: upt_Suc)
  next
    case False
    from resilient_loop_waits [OF n r False] obtain k w1 where
      "k \<le> length pre" "resilient_loop obs repr ?x ?s 0 (pre @ m # post) w = (map (task_of ?s) [0..<0 + k], w1, None)"
      by blast
    with False assms(4) show ?thesis
      by (auto simp: submit_resilient_def task_of_def text_or_def submission_of_def)
  qed
qed

text \<open>
  C7: A toxic task is never submitted again. The answer that marks it ends the call, in \<open>LeanTaskTimeout\<close>
  when the reason is a deadline and in \<open>ToxicTaskError\<close>, naming the task and the reason, otherwise;
  whatever the server would have said later, no further task is submitted. (If one of the waits before that answer
  does not end, the answer is not reached.)
\<close>
theorem toxic_task_not_resubmitted:
  assumes "\<forall>m \<in> set pre. blameless m" and "pool_there m"
    and "meets m = Some (Failed ServiceUnavailable True (Some reason))" and "reason \<noteq> []"
    and "submit_resilient obs repr inherited fresh ttype kw rid ctx (pre @ m # post) tp w = (tp', ts, w', r)"
  shows "if (\<forall>a \<in> set pre. comes_back a) \<and> admitted m
    then length ts = Suc (length pre)
      \<and> r = Some (Inl (if is_deadline_reason reason then LeanTaskTimeout reason
                      else ToxicTaskError ttype reason (text_string (input_text_of kw))))
    else length ts \<le> length pre \<and> r = None"
proof -
  have n: "\<not> retried obs m" using assms(3) by (simp add: retried_def innocent_def)
  have r: "\<forall>a \<in> set pre. retried obs a" using assms(1) blameless_retried by blast
  let ?s = "submission_of inherited fresh ttype kw rid ctx" and ?x = "text_string (input_text_of kw)"
  show ?thesis
  proof (cases "(\<forall>a \<in> set pre. comes_back a) \<and> admitted m")
    case True
    with resilient_loop_stops [OF n, of pre repr ?x ?s 0 post w] assms(2-) r show ?thesis
      by (auto simp: submit_resilient_def last_word_def judge_def task_of_def text_or_def submission_of_def
          simp del: upt_Suc)
  next
    case False
    from resilient_loop_waits [OF n r False] obtain k w1 where
      "k \<le> length pre" "resilient_loop obs repr ?x ?s 0 (pre @ m # post) w = (map (task_of ?s) [0..<0 + k], w1, None)"
      by blast
    with False assms(5) show ?thesis by (auto simp: submit_resilient_def)
  qed
qed

text \<open>An interrupted submission, then a result; and one that the watchdog blames.\<close>

definition interrupted :: meeting where
  "interrupted = \<lparr>admitted = True, pool_there = True, meets = Some (Failed ServiceUnavailable False None), flag_reads = []\<rparr>"

definition pipe_broken :: "bool list \<Rightarrow> meeting" where
  "pipe_broken reads = \<lparr>admitted = True, pool_there = True, meets = Some (Failed (BrokenPipeError []) False None), flag_reads = reads\<rparr>"

definition served :: "value \<Rightarrow> meeting" where
  "served v = \<lparr>admitted = True, pool_there = True, meets = Some (Ok v), flag_reads = []\<rparr>"

definition demo_script :: "meeting list" where
  "demo_script = [interrupted, pipe_broken [True, False]]"

lemma demo_script_blameless: "\<forall>m \<in> set demo_script. blameless m" "\<forall>m \<in> set demo_script. comes_back m"
  by (simp_all add: demo_script_def interrupted_def pipe_broken_def blameless_def comes_back_def flag_falls_def)

text \<open>The second caller's broken pipe is answered when the restart is already over: the flag stays set.\<close>

theorem innocent_task_gets_through_witness:
  "(\<exists>tp' ts w'. submit_resilient demo_observer exn_name [] ''id'' ''ping'' [] None None
       (demo_script @ served JNull # []) demo_world demo_io = (tp', ts, w', Some (Inr JNull)) \<and> length ts = 3)
   \<and> (\<exists>tp' ts w'. submit_resilient demo_observer exn_name [] ''id'' ''ping'' [] None None
       ([pipe_broken [True, True, True]] @ served JNull # []) demo_world demo_io = (tp', ts, w', None))"
proof -
  obtain tp' ts w' r where r: "submit_resilient demo_observer exn_name [] ''id'' ''ping'' [] None None
      (demo_script @ served JNull # []) demo_world demo_io = (tp', ts, w', r)" by (metis prod_cases4)
  have s: "pool_there (served JNull)" "meets (served JNull) = Some (Ok JNull)" "admitted (served JNull)"
    by (simp_all add: served_def)
  from innocent_task_gets_through [OF demo_script_blameless(1) s(1,2) r] demo_script_blameless(2) s(3)
  have 1: "r = Some (Inr JNull)" "length ts = 3" by (simp_all add: demo_script_def)
  obtain tp1 ts1 w1 r1 where r1: "submit_resilient demo_observer exn_name [] ''id'' ''ping'' [] None None
      ([pipe_broken [True, True, True]] @ served JNull # []) demo_world demo_io = (tp1, ts1, w1, r1)" by (metis prod_cases4)
  have b: "\<forall>m \<in> set [pipe_broken [True, True, True]]. blameless m" "\<not> comes_back (pipe_broken [True, True, True])"
    by (simp_all add: pipe_broken_def blameless_def comes_back_def flag_falls_def)
  from innocent_task_gets_through [OF b(1) s(1,2) r1] b(2) have "r1 = None" by simp
  with 1 r r1 show ?thesis by simp
qed

theorem toxic_task_not_resubmitted_witness:
  "\<exists>tp' ts w'. submit_resilient demo_observer exn_name [] ''id'' ''ping'' [] None None
       (demo_script @ interrupted\<lparr>meets := Some (Failed ServiceUnavailable True (Some ''oom''))\<rparr> # [interrupted])
       demo_world demo_io
     = (tp', ts, w', Some (Inl (ToxicTaskError ''ping'' ''oom'' []))) \<and> length ts = 3"
proof -
  let ?m = "interrupted\<lparr>meets := Some (Failed ServiceUnavailable True (Some ''oom''))\<rparr>"
  obtain tp' ts w' r where r: "submit_resilient demo_observer exn_name [] ''id'' ''ping'' [] None None
      (demo_script @ ?m # [interrupted]) demo_world demo_io = (tp', ts, w', r)" by (metis prod_cases4)
  have "\<not> is_deadline_reason ''oom''" by code_simp
  moreover have "pool_there ?m" "admitted ?m" by (simp_all add: interrupted_def)
  ultimately have
    "r = Some (Inl (ToxicTaskError ''ping'' ''oom'' []))" "length ts = 3"
    using toxic_task_not_resubmitted [OF demo_script_blameless(1) _ _ _ r] demo_script_blameless(2)
    by (simp_all add: demo_script_def input_text_of_def text_string_def)
  with r show ?thesis by simp
qed

end
