(* ===== verification/Blame.thy ===== *)
theory Blame imports Recovery Resilient begin

text \<open>
  From a trigger to the exception a caller sees: what the monitor reports, \<open>_restart\<close> turns into marks on
  tasks, the poisoned worker into an answer, \<open>_submit_resilient\<close> into an exception or a retry, and
  \<open>run_lean_tool\<close> into the timeout streak of a sample. The parts are those of the theories before.
\<close>

section \<open>Reasons\<close>

text \<open>Whether two characters stand next to each other somewhere in a text.\<close>

fun adjacent :: "'a \<Rightarrow> 'a \<Rightarrow> 'a list \<Rightarrow> bool" where
  "adjacent x y [] = False"
| "adjacent x y [c] = False"
| "adjacent x y (c # d # s) = (c = x \<and> d = y \<or> adjacent x y (d # s))"

lemma adjacent_append:
  "adjacent x y (a @ b) \<longleftrightarrow> adjacent x y a \<or> adjacent x y b \<or> a \<noteq> [] \<and> b \<noteq> [] \<and> last a = x \<and> hd b = y"
proof (induction x y a rule: adjacent.induct)
  case (2 x y c)
  then show ?case by (cases b) auto
qed auto

lemma adjacent_absent: "x \<notin> set s \<Longrightarrow> \<not> adjacent x y s"
  by (induction x y s rule: adjacent.induct) auto

lemma substring_adjacent: "substring (a @ [x, y] @ b) s \<Longrightarrow> adjacent x y s"
  by (auto simp: substring_iff adjacent_append)

lemma deadline_adjacent: "substring ''deadline'' s \<Longrightarrow> adjacent CHR ''d'' CHR ''l'' s"
  using substring_adjacent [of "''dea''" "CHR ''d''" "CHR ''l''" "''ine''" s] by simp

lemma show_int_lower:
  "CHR ''d'' \<notin> set (py_lower (show_int i))" "CHR ''l'' \<notin> set (py_lower (show_int i))" "py_lower (show_int i) \<noteq> []"
proof -
  have c: "lower_char c \<noteq> CHR ''d'' \<and> lower_char c \<noteq> CHR ''l''" if "c \<in> set (show_int i)" for c
  proof -
    have "c = CHR ''-'' \<or> (\<exists>n. c \<in> set (show_nat n))" using that by (auto simp: show_int_def split: if_splits)
    then have "(of_char c :: nat) < 65" using show_nat_chars [of c] by fastforce
    then have "lower_char c = c" by (simp add: lower_char_def)
    with \<open>(of_char c :: nat) < 65\<close> show ?thesis by auto
  qed
  then show "CHR ''d'' \<notin> set (py_lower (show_int i))" "CHR ''l'' \<notin> set (py_lower (show_int i))"
    using c by (fastforce simp: py_lower_def)+
  show "py_lower (show_int i) \<noteq> []" by (simp add: py_lower_def show_int_def)
qed

lemma py_lower_append: "py_lower (a @ b) = py_lower a @ py_lower b"
  by (simp add: py_lower_def)

text \<open>The results that systemd reports for a scope.\<close>

definition systemd_results :: "string list" where
  "systemd_results = ['''', ''success'', ''resources'', ''timeout'', ''exit-code'', ''signal'', ''core-dump'', ''oom-kill'']"

definition clean :: "string \<Rightarrow> bool" where
  "clean s \<longleftrightarrow> \<not> adjacent CHR ''d'' CHR ''l'' (py_lower s) \<and> (s = [] \<or> hd (py_lower s) \<noteq> CHR ''l'')"

lemma clean_append: "clean a \<Longrightarrow> clean b \<Longrightarrow> clean (a @ b)"
  using adjacent_append [of "CHR ''d''" "CHR ''l''" "py_lower a" "py_lower b"]
  by (cases a; cases b) (auto simp: clean_def py_lower_append py_lower_def)

lemma clean_int [simp]: "clean (show_int i)"
  using show_int_lower [of i] adjacent_absent [OF show_int_lower(1)]
  by (auto simp: clean_def) (metis hd_in_set)

lemma lower_lead: "c \<in> {CHR ''L'', CHR ''G''} \<Longrightarrow> lower_char c \<noteq> CHR ''t''"
proof -
  have "lower_char CHR ''L'' \<noteq> CHR ''t''" "lower_char CHR ''G'' \<noteq> CHR ''t''" by code_simp+
  then show "c \<in> {CHR ''L'', CHR ''G''} \<Longrightarrow> lower_char c \<noteq> CHR ''t''" by auto
qed

text \<open>A reason of the shape the monitor builds is not taken for a deadline.\<close>

lemma not_deadline_reason:
  assumes "\<not> adjacent CHR ''d'' CHR ''l'' (py_lower what)" and "what = c # cs" and "c \<in> {CHR ''L'', CHR ''G''}"
    and "clean rest"
  shows "\<not> is_deadline_reason (what @ rest)"
proof -
  have "\<not> adjacent CHR ''d'' CHR ''l'' (py_lower (what @ rest))"
    using assms(1,4) by (auto simp: clean_def py_lower_append adjacent_append py_lower_def hd_map)
  then have "\<not> substring ''deadline'' (py_lower (what @ rest))" using deadline_adjacent by blast
  moreover have "\<not> prefix_of ''task exceeded '' (py_lower (what @ rest))"
    using lower_lead [OF assms(3)] assms(2) by (simp add: prefix_of_def py_lower_def)
  ultimately show ?thesis by (simp add: is_deadline_reason_def)
qed

lemma prefix_append: "prefix_of p (p @ s)"
  by (simp add: prefix_of_def)

lemma deadline_reason_is_deadline: "is_deadline_reason (deadline_reason d)"
proof -
  have "py_lower ''task exceeded '' = ''task exceeded ''" by code_simp
  then have "prefix_of ''task exceeded '' (py_lower (deadline_reason d))"
    using prefix_append [of "''task exceeded ''"] by (simp only: deadline_reason_def py_lower_append)
  then show ?thesis by (simp add: is_deadline_reason_def)
qed

definition guard_texts :: "string list" where
  "guard_texts = [''Lean worker hit its cgroup hard memory limit'', ''Lean worker exceeded its anonymous-RSS soft limit'',
     ''Lean worker was killed by its cgroup hard memory limit'',
     ''Guarded Lean worker exited without a replacement while processing a task'']"

lemma clean_pieces:
  "clean '' (worker=''" "clean '', pid=''" "clean '')''" "clean '', rss_anon=''" "clean '', limit=''"
  "clean ''None''" "clean '', scope_result=''" "clean ''unknown''" "clean []"
  by code_simp+

lemma clean_scope:
  assumes "x \<in> set systemd_results"
  shows "clean (scope_text x)"
proof -
  have "list_all clean systemd_results" by code_simp
  with assms have "clean x" by (auto simp: list_all_iff)
  then have "clean (if x = [] then ''unknown'' else x)" by (simp only: clean_pieces split: if_split) simp
  then show ?thesis unfolding scope_text_def by (rule clean_append [OF clean_pieces(7)])
qed

lemma clean_rss: "clean (rss_text r l)"
proof -
  have "clean (case n of Some i \<Rightarrow> show_int i | None \<Rightarrow> ''None'')" for n
    by (simp only: clean_pieces clean_int split: option.split) simp
  then show ?thesis unfolding rss_text_def by (intro clean_append clean_pieces)
qed

lemma guard_reason_clean:
  assumes "what \<in> set guard_texts" and "clean extra"
  shows "\<not> is_deadline_reason (guard_reason what w g extra)"
proof -
  have "list_all (\<lambda>what. \<not> adjacent CHR ''d'' CHR ''l'' (py_lower what) \<and> what \<noteq> [] \<and> hd what \<in> {CHR ''L'', CHR ''G''}) guard_texts"
    by code_simp
  with assms(1) have w: "\<not> adjacent CHR ''d'' CHR ''l'' (py_lower what)" "what = hd what # tl what"
      "hd what \<in> {CHR ''L'', CHR ''G''}"
    by (auto simp: list_all_iff)
  show ?thesis unfolding guard_reason_def
    by (rule not_deadline_reason [OF w]) (intro clean_append clean_pieces clean_int assms(2))
qed

lemma death_reason_clean: "\<not> is_deadline_reason (''Lean server process exited (pid='' @ show_int pid @ '')'')"
  by (rule not_deadline_reason [of _ "CHR ''L''" "''ean server process exited (pid=''"])
    (code_simp, simp, simp, intro clean_append clean_pieces clean_int)

lemma no_process_reason_clean: "\<not> is_deadline_reason ''Lean server process exited (pid=None)''"
  by code_simp

text \<open>The reasons a guard gives.\<close>

definition guard_says :: "system_view \<Rightarrow> string \<Rightarrow> bool" where
  "guard_says v reason \<longleftrightarrow> (\<exists>what w g extra. what \<in> set guard_texts \<and> reason = guard_reason what w g extra
     \<and> (extra = [] \<or> (\<exists>r l. extra = rss_text r l) \<or> extra = scope_text [] \<or> (\<exists>u. extra = scope_text (scope_result v u))))"

lemma guard_texts_mem:
  "''Lean worker hit its cgroup hard memory limit'' \<in> set guard_texts"
  "''Lean worker exceeded its anonymous-RSS soft limit'' \<in> set guard_texts"
  "''Lean worker was killed by its cgroup hard memory limit'' \<in> set guard_texts"
  "''Guarded Lean worker exited without a replacement while processing a task'' \<in> set guard_texts"
  by (simp_all only: guard_texts_def list.set insert_iff simp_thms)

lemma guard_saysI:
  "what \<in> set guard_texts \<Longrightarrow> guard_says v (guard_reason what w g [])"
  "what \<in> set guard_texts \<Longrightarrow> guard_says v (guard_reason what w g (rss_text r l))"
  "what \<in> set guard_texts \<Longrightarrow> guard_says v (guard_reason what w g (scope_text (if b then [] else scope_result v u)))"
  unfolding guard_says_def by fastforce+

lemma pause_says: "Trigger gen trigger reason ws \<in> set (snd (pause_with tr r us m)) \<longleftrightarrow>
    gen = m_generation m \<and> trigger = tr \<and> reason = r \<and> ws = us"
  by (auto simp: pause_with_def)

lemma check_guard_says:
  assumes "Trigger gen trigger reason ws \<in> set (snd (check_guard cfg v w g m))"
  shows "guard_says v reason"
proof -
  have rb: "Trigger gen trigger reason ws \<notin> set (snd (rebind cfg v w g pid m))" for pid
    by (auto simp: rebind_def split: sum.splits if_splits)
  define scope where "scope = (if g_unit g = [] then [] else scope_result v (g_unit g))"
  note cg = assms [unfolded check_guard_def, folded scope_def, unfolded Let_def]
  show ?thesis
  proof (cases "overdrawn v g \<or> above_soft_limit cfg v g \<and> w \<in> set (dict_keys (tasks m))")
    case True
    with cg guard_saysI(1,2) [OF guard_texts_mem(1)] guard_saysI(2) [OF guard_texts_mem(2)] show ?thesis
      by (simp only: pause_says simp_thms if_True if_False split: if_split_asm)
  next
    case False
    then have "\<not> is_alive v (g_pid g)" using cg by (auto split: if_split_asm)
    show ?thesis
    proof (cases "scope = ''oom-kill''")
      case True
      with cg False \<open>\<not> is_alive v (g_pid g)\<close> guard_saysI(1) [OF guard_texts_mem(3)] show ?thesis
        by (simp only: pause_says simp_thms if_True if_False de_Morgan_disj)
    next
      case no_oom: False
      show ?thesis
      proof (cases "replacement_of v m w g")
        case None
        with cg False \<open>\<not> is_alive v (g_pid g)\<close> no_oom guard_saysI(3) [OF guard_texts_mem(4), of v w g "g_unit g = []" "g_unit g"]
        show ?thesis
          by (simp only: pause_says simp_thms if_True if_False de_Morgan_disj option.case snd_conv list.set empty_iff
              scope_def [symmetric] split: if_split_asm)
      next
        case (Some pid)
        with cg False \<open>\<not> is_alive v (g_pid g)\<close> no_oom rb show ?thesis
          by (simp only: simp_thms if_True if_False de_Morgan_disj option.case)
      qed
    qed
  qed
qed

lemma check_guards_say:
  assumes "check_guards cfg v gs m = (m', es)" and "Trigger gen trigger reason ws \<in> set es"
  shows "guard_says v reason" and "trigger \<noteq> ''deadline''"
proof -
  show "guard_says v reason" using assms
  proof (induction gs arbitrary: m es)
    case (Cons x gs)
    obtain w g where x: "x = (w, g)" by fastforce
    obtain m1 e1 where c: "check_guard cfg v w g m = (m1, e1)" by fastforce
    with check_guard_says [of gen trigger reason ws cfg v w g m] Cons x show ?case
      by (auto split: if_splits prod.splits)
  qed simp
  show "trigger \<noteq> ''deadline''" using guards_no_deadline [OF assms(1)] assms(2) by blast
qed

lemma guard_says_clean:
  assumes "guard_says v reason" and "\<forall>u. scope_result v u \<in> set systemd_results"
  shows "\<not> is_deadline_reason reason"
proof -
  have "[] \<in> set systemd_results" by (simp add: systemd_results_def)
  then show ?thesis
    using assms guard_reason_clean clean_rss clean_scope clean_pieces(9) unfolding guard_says_def by metis
qed

text \<open>
  C25: Only a deadline is a timeout. Of everything the monitor reports on its own observation, the caller of a
  culprit sees \<open>LeanTaskTimeout\<close> for the deadline trigger and for no other: the tests on the text of the
  reason agree with the kind of the trigger.
\<close>
theorem only_deadlines_are_timeouts:
  assumes "check_system cfg v m = (m', es)" and "Trigger gen trigger reason ws \<in> set es"
    and "\<forall>u. scope_result v u \<in> set systemd_results"
  shows "is_deadline_reason reason \<longleftrightarrow> trigger = ''deadline''"
proof -
  have "guard_says v reason \<and> trigger \<noteq> ''deadline''" if "check_guards cfg v gs m0 = (m', es)" for gs m0
    using check_guards_say [OF that assms(2)] by blast
  then consider "guard_says v reason" "trigger \<noteq> ''deadline''"
    | pid where "reason = ''Lean server process exited (pid='' @ show_int pid @ '')''" "trigger = ''death''"
    | "reason = ''Lean server process exited (pid=None)''" "trigger = ''death''"
    | "reason = deadline_reason (deadline cfg)" "trigger = ''deadline''"
    using assms(1,2) by (auto simp: check_system_def pause_with_def split: option.splits if_splits)
  then show ?thesis
  proof cases
    case 1
    with guard_says_clean assms(3) show ?thesis by blast
  next
    case (2 pid)
    with death_reason_clean [of pid] show ?thesis by (simp only:) simp
  next
    case 3
    with no_process_reason_clean show ?thesis by (simp only:) simp
  next
    case 4
    with deadline_reason_is_deadline show ?thesis by simp
  qed
qed

theorem only_deadlines_are_timeouts_witness:
  "is_deadline_reason (deadline_reason WEDGE_DEADLINE)
   \<and> \<not> is_deadline_reason (guard_reason ''Lean worker exceeded its anonymous-RSS soft limit'' 7 demo_guard
        (rss_text (Some 600) (Some 500)))"
proof -
  have c: "check_system demo_config (demo_view 1125 [50] []) wedged_watch =
      (wedged_watch\<lparr>paused := True\<rparr>, [Trigger 1 ''deadline'' (deadline_reason WEDGE_DEADLINE) [7]])"
    by (simp add: monitor_defs wedged_watch_def demo_watch_def)
  let ?v = "(demo_view 1005 [50, 70] [])\<lparr>rss_anon := \<lambda>p. Some 600\<rparr>"
  let ?r = "guard_reason ''Lean worker exceeded its anonymous-RSS soft limit'' 7 demo_guard (rss_text (Some 600) (Some 500))"
  have d: "check_system demo_config ?v (demo_watch\<lparr>last_deadline_poll := 1000\<rparr>) =
      (demo_watch\<lparr>last_deadline_poll := 1000, paused := True\<rparr>, [Trigger 1 ''memory'' ?r [7]])"
    by (simp add: monitor_defs demo_watch_def demo_guard_def)
  show ?thesis
    using only_deadlines_are_timeouts [OF c, of 1 "''deadline''"] only_deadlines_are_timeouts [OF d, of 1 "''memory''" ?r "[7]"]
    by (simp add: demo_view_def systemd_results_def)
qed

section \<open>From the mark to the exception\<close>

text \<open>The worker \<open>i\<close> of the pool after a restart has begun.\<close>

lemma begin_restart_worker:
  assumes "worker_pool (routes s) = Some p" and "i < length (workers p)"
    and "worker_pool (routes (begin_restart trigger reason culprits t s)) = Some p'"
  shows "workers p' ! i = (poison_worker t (mark_culprit (culprit_ids trigger culprits (Some p)) reason (workers p ! i)))
           \<lparr>w_rpc := invalidate (w_rpc (workers p ! i))\<rparr>"
  using assms by (auto simp: begin_restart_pool)

text \<open>
  C1: Blame reaches its caller, and nobody else. When a restart begins while a worker has a task, and the
  worker then finishes it on the poison message, the task's own queue gets one answer, on which
  \<open>_submit_resilient\<close> raises, naming the reason, if the trigger names the worker or can name nobody, and
  retries otherwise; the tasks queued behind it get an answer on which their callers retry.
\<close>
theorem blame_reaches_its_caller:
  assumes "worker_pool (routes s) = Some p" and "i < length (workers p)"
    and "current_task (workers p ! i) = Some u" and "\<not> t_culprit u" and "t_result_q u = Some q" and "reason \<noteq> []"
    and "worker_pool (routes (begin_restart trigger reason culprits t s)) = Some p'"
    and "run_finish obs t1 gen (Inl ServiceUnavailable) (workers p' ! i) io = (w', io')"
  shows "\<exists>resp. answers io' = answers io @ (q, resp) #
        rq_answers (map (\<lambda>v. (t_result_q v, Failed ServiceUnavailable False None)) (queued (workers p ! i)))
    \<and> judge str repr (t_type u) txt0 resp =
        (if \<not> precise_trigger trigger \<or> worker_id (workers p ! i) \<in> culprits
         then Raise (if is_deadline_reason reason then LeanTaskTimeout reason else ToxicTaskError (t_type u) reason txt0)
         else Retry ''service_unavailable'')
    \<and> judge str repr tt txt1 (Failed ServiceUnavailable False None) = Retry ''service_unavailable''"
proof -
  let ?w = "workers p ! i"
  let ?b = "\<not> precise_trigger trigger \<or> worker_id ?w \<in> culprits"
  have w: "workers p' ! i = (poison_worker t (mark_culprit (culprit_ids trigger culprits (Some p)) reason ?w))
           \<lparr>w_rpc := invalidate (w_rpc ?w)\<rparr>"
    using begin_restart_worker [OF assms(1,2,7)] .
  have "?w \<in> set (workers p)" using assms(2) by simp
  then have ids: "worker_id ?w \<in> culprit_ids trigger culprits (Some p) \<longleftrightarrow> ?b"
    using culprit_ids_member assms(3) by simp
  have cur: "current_task (workers p' ! i) = Some (if ?b then u\<lparr>t_culprit := True, t_culprit_reason := Some reason\<rparr> else u)"
    using assms(3) by (simp add: w poison_worker_def mark_culprit_def ids put_notification_def)
  have q: "task_queue (workers p' ! i) = task_queue ?w" by (simp add: w frame_simps)
  let ?resp = "Failed ServiceUnavailable ?b (if ?b then Some reason else t_culprit_reason u)"
  have "answers io' = answers io @ (q, ?resp) #
      rq_answers (map (\<lambda>v. (t_result_q v, Failed ServiceUnavailable False None)) (queued ?w))"
    using assms(4,5,8) cur q
    by (auto simp: run_finish_def on_service_unavailable_def end_task_def task_finished_def frame_simps Let_def
        queued_def split: if_splits)
  moreover have "judge str repr (t_type u) txt0 ?resp =
      (if ?b then Raise (if is_deadline_reason reason then LeanTaskTimeout reason else ToxicTaskError (t_type u) reason txt0)
       else Retry ''service_unavailable'')"
    using assms(6) by (simp add: judge_def text_or_def)
  moreover have "judge str repr tt txt1 (Failed ServiceUnavailable False None) = Retry ''service_unavailable''"
    by (simp add: judge_def)
  ultimately show ?thesis by blast
qed

definition demo_blamed :: system where
  "demo_blamed = begin_restart ''memory'' ''oom'' {1} 0 demo_system"

theorem blame_reaches_its_caller_witness:
  "\<exists>resp. answers (snd (run_finish demo_observer 1 3 (Inl ServiceUnavailable)
       (workers (the (worker_pool (routes demo_blamed))) ! 0) demo_shared)) = [(4, resp)]
     \<and> judge exn_name exn_name ''ping'' ''t'' resp = Raise (ToxicTaskError ''ping'' ''oom'' ''t'')"
proof -
  let ?p = "busy_pool"
  have p: "worker_pool (routes demo_system) = Some ?p" "0 < length (workers ?p)"
      "current_task (workers ?p ! 0) = Some (demo_task ''ping'' 4)" "\<not> t_culprit (demo_task ''ping'' 4)"
      "t_result_q (demo_task ''ping'' 4) = Some 4" "''oom'' \<noteq> []" "worker_id (workers ?p ! 0) = 1"
      "queued (workers ?p ! 0) = []" "t_type (demo_task ''ping'' 4) = ''ping''" "answers demo_shared = []"
    by (simp_all add: demo_system_def busy_pool_def idle_worker_def new_worker_def demo_task_def queued_def demo_shared_def
        List.map_filter_simps)
  obtain p' where p': "worker_pool (routes demo_blamed) = Some p'"
    by (simp add: demo_blamed_def begin_restart_pool p(1))
  obtain w' io' where f: "run_finish demo_observer 1 3 (Inl ServiceUnavailable) (workers p' ! 0) demo_shared = (w', io')"
    by fastforce
  have "\<not> is_deadline_reason ''oom''" by code_simp
  with blame_reaches_its_caller [OF p(1-6) p' [unfolded demo_blamed_def] f, of exn_name exn_name "''t''"] p(7-10) p' f
  show ?thesis by auto
qed

section \<open>From the exception to the streak\<close>

text \<open>A tool that submits one task and returns what comes back.\<close>

definition lean_call ::
  "observer \<Rightarrow> (exn \<Rightarrow> string) \<Rightarrow> string \<Rightarrow> string \<Rightarrow> kwargs \<Rightarrow> meeting list \<Rightarrow> io \<Rightarrow> value callback" where
  "lean_call obs repr fresh ttype kw script w tp =
     (case submit_resilient obs repr [] fresh ttype kw None None script tp w of
        (tp', ts, w', r) \<Rightarrow> (tp', case r of Some x \<Rightarrow> x | None \<Rightarrow> Inl QueueEmpty))"

text \<open>A meeting in which the watchdog's mark comes back.\<close>

definition blamed :: "string \<Rightarrow> meeting" where
  "blamed reason = interrupted\<lparr>meets := Some (Failed ServiceUnavailable True (Some reason))\<rparr>"

lemma lean_call_blamed:
  assumes "\<forall>m \<in> set pre. blameless m \<and> comes_back m" and "reason \<noteq> []"
  shows "lean_call obs repr fresh ttype kw (pre @ blamed reason # post) w tp =
    (note_lean_submission tp, Inl (if is_deadline_reason reason then LeanTaskTimeout reason
        else ToxicTaskError ttype reason (text_string (input_text_of kw))))"
proof -
  let ?s = "submission_of [] fresh ttype kw None None"
  have "\<not> retried obs (blamed reason)" "admitted (blamed reason)"
    by (simp_all add: blamed_def interrupted_def retried_def innocent_def)
  from resilient_loop_stops [OF this, of pre repr "text_string (input_text_of kw)" ?s 0 post w] blameless_retried assms
  obtain w' where "resilient_loop obs repr (text_string (input_text_of kw)) ?s 0 (pre @ blamed reason # post) w =
      (map (task_of ?s) [0..<0 + length pre + 1], w', Some (last_word obs repr (text_string (input_text_of kw)) ?s (blamed reason)))"
    by (auto simp: blamed_def interrupted_def simp del: upt_Suc)
  then show ?thesis
    using assms(2)
    by (simp add: lean_call_def submit_resilient_def last_word_def blamed_def interrupted_def judge_def text_or_def submission_of_def
        del: upt_Suc)
qed

text \<open>
  C9: A wedge is charged to the sample once, any other blame not at all. A tool call inside a sample whose
  task is, after any number of innocent interruptions from which the server came back, blamed for a restart is counted as one timeout, in memory
  and on disk, with the reason in its feedback, if the reason is a deadline; otherwise \<open>ToxicTaskError\<close>
  leaves the tool call and the streak is what it was.
\<close>
theorem wedge_is_charged_once:
  assumes "tool_ready path ref tp" and "receipt key (states tp ref) = None"
    and "\<forall>m \<in> set pre. blameless m \<and> comes_back m" and "reason \<noteq> []"
    and "run_lean_tool (lean_call obs repr fresh ttype kw (pre @ blamed reason # post) w) key tp = (tp', res)"
  shows "if is_deadline_reason reason
    then \<exists>fb. res = Inr (None, Some fb) \<and> fb_error fb = reason
           \<and> fb_consecutive_timeouts fb = consecutive (states tp ref) + 1
           \<and> disk tp' path = Some (Journal (states tp' ref)) \<and> consecutive (states tp' ref) = consecutive (states tp ref) + 1
    else res = Inl (ToxicTaskError ttype reason (text_string (input_text_of kw)))
           \<and> states tp' = states tp \<and> disk tp' = disk tp"
proof (cases "is_deadline_reason reason")
  case True
  obtain j fb where c: "count_timeout key reason (states tp ref) = (j, fb)" by fastforce
  have "lean_call obs repr fresh ttype kw (pre @ blamed reason # post) w x = (note_lean_submission x, Inl (LeanTaskTimeout reason))" for x
    using lean_call_blamed [OF assms(3,4)] True by simp
  note out = run_times_out [OF assms(1,2,5) c this]
  have "consecutive j = consecutive (states tp ref) + 1 \<and> fb_error fb = reason
      \<and> fb_consecutive_timeouts fb = consecutive (states tp ref) + 1"
    using c by (auto simp: count_timeout_def timeout_feedback_def Let_def split: option.splits)
  with out True show ?thesis by auto
next
  case False
  have call: "lean_call obs repr fresh ttype kw (pre @ blamed reason # post) w x =
      (note_lean_submission x, Inl (ToxicTaskError ttype reason (text_string (input_text_of kw))))" for x
    using lean_call_blamed [OF assms(3,4)] False by simp
  from assms(1) have "sample tp = Some (path, ref)" by (simp add: tool_ready_def)
  from run_lean_tool_in_scope [OF this assms(2) _ call] assms(5) False show ?thesis
    by (auto simp: alloc_marker_def after_callback_def note_lean_submission_def)
qed

theorem wedge_is_charged_once_witness:
  "\<exists>fb tp'. run_lean_tool (lean_call demo_observer exn_name ''id'' ''ping'' [] (demo_script @ blamed (deadline_reason 120) # []) demo_io)
      (Some ''new'') demo_world = (tp', Inr (None, Some fb)) \<and> fb_consecutive_timeouts fb = 1
      \<and> consecutive (states tp' 0) = 1"
proof -
  obtain tp' res where r: "run_lean_tool (lean_call demo_observer exn_name ''id'' ''ping'' []
      (demo_script @ blamed (deadline_reason 120) # []) demo_io) (Some ''new'') demo_world = (tp', res)" by fastforce
  have t: "tool_ready ''s'' 0 demo_world" "receipt (Some ''new'') (states demo_world 0) = None"
      "consecutive (states demo_world 0) = 0"
    by (simp_all add: tool_ready_def demo_world_def receipt_def truthy_key_def with_suffix_tmp_def path_dir_def path_name_def
        name_stem_def fresh_journal_def)
  have "deadline_reason 120 \<noteq> []" by (simp add: deadline_reason_def)
  from wedge_is_charged_once [OF t(1,2) _ this r] demo_script_blameless deadline_reason_is_deadline [of 120] t(3) r
  show ?thesis by auto
qed

end
