(* ===== verification/Json.thy ===== *)
theory Json imports PyText "HOL-Library.List_Lexorder" "HOL-Library.Char_ord" begin

text \<open>
  The canonical encoding of JSON values that \<open>fingerprint_value\<close> of \<open>pyleaner/observability.py\<close> hashes
  (\<open>json.dumps\<close> with sorted keys, no spaces and characters left as they are), and the UTF-8 encoding of
  texts. Both are shown to be unambiguous. How a float is printed is a parameter.
\<close>

section \<open>UTF-8\<close>

definition utf8_char :: "char \<Rightarrow> string" where
  "utf8_char c = (let n = (of_char c :: nat) in
     if n < 128 then [c] else [char_of (192 + n div 64), char_of (128 + n mod 64)])"

definition utf8 :: "string \<Rightarrow> string" where
  "utf8 s = concat (map utf8_char s)"

lemma utf8_char_prefix_free:
  assumes "utf8_char c @ r = utf8_char d @ r'"
  shows "c = d \<and> r = r'"
proof -
  have b: "(of_char c :: nat) < 256" "(of_char d :: nat) < 256" by simp_all
  have head: "(of_char (hd (utf8_char x)) :: nat) = (if (of_char x :: nat) < 128 then of_char x else 192 + of_char x div 64)" for x
    using less_mult_imp_div_less [of "of_char x" 4 64] nat_of_char_less_256 [of x]
    by (auto simp: utf8_char_def of_char_of Let_def)
  have ne: "utf8_char x \<noteq> []" for x by (simp add: utf8_char_def Let_def)
  have h: "hd (utf8_char c) = hd (utf8_char d)" using assms ne by (metis hd_append2)
  have small: "(of_char c :: nat) < 128 \<longleftrightarrow> (of_char d :: nat) < 128"
    using arg_cong [OF h, of "of_char :: char \<Rightarrow> nat"] unfolding head by (auto split: if_splits)
  show ?thesis
  proof (cases "(of_char c :: nat) < 128")
    case True
    with small assms show ?thesis by (simp add: utf8_char_def Let_def)
  next
    case False
    with small have 2: "utf8_char x = [char_of (192 + (of_char x :: nat) div 64), char_of (128 + (of_char x :: nat) mod 64)]"
      if "x \<in> {c, d}" for x using that by (auto simp: utf8_char_def Let_def)
    have "(192 + (of_char c :: nat) div 64) mod 256 = (192 + of_char d div 64) mod 256"
      "(128 + (of_char c :: nat) mod 64) mod 256 = (128 + of_char d mod 64) mod 256" "r = r'"
      using assms unfolding 2 [of c, simplified] 2 [of d, simplified] by auto
    moreover have "(192 + (of_char x :: nat) div 64) mod 256 = 192 + of_char x div 64" for x
      using less_mult_imp_div_less [of "of_char x" 4 64] by simp
    ultimately have "(of_char c :: nat) div 64 = of_char d div 64" "(of_char c :: nat) mod 64 = of_char d mod 64" "r = r'"
      by simp_all
    then have "(of_char c :: nat) = of_char d" by (metis div_mult_mod_eq)
    with \<open>r = r'\<close> show ?thesis by simp
  qed
qed

lemma utf8_inj: "utf8 s = utf8 t \<Longrightarrow> s = t"
proof (induction s arbitrary: t)
  case Nil
  then show ?case by (cases t) (auto simp: utf8_def utf8_char_def Let_def split: if_splits)
next
  case (Cons c s)
  then obtain d u where t: "t = d # u" by (cases t) (auto simp: utf8_def utf8_char_def Let_def split: if_splits)
  with Cons.prems have "utf8_char c @ utf8 s = utf8_char d @ utf8 u" by (simp add: utf8_def)
  from utf8_char_prefix_free [OF this] Cons.IH t show ?case by simp
qed

section \<open>Canonical JSON\<close>

definition hex_digit :: "nat \<Rightarrow> char" where
  "hex_digit n = (if n < 10 then char_of (48 + n) else char_of (87 + n))"

definition escape_char :: "char \<Rightarrow> string" where
  "escape_char c = (let n = (of_char c :: nat) in
     if c = CHR 0x22 then [CHR 0x5C, CHR 0x22]
     else if c = CHR 0x5C then [CHR 0x5C, CHR 0x5C]
     else if n = 10 then [CHR 0x5C, CHR ''n'']
     else if n = 13 then [CHR 0x5C, CHR ''r'']
     else if n = 9 then [CHR 0x5C, CHR ''t'']
     else if n = 12 then [CHR 0x5C, CHR ''f'']
     else if n = 8 then [CHR 0x5C, CHR ''b'']
     else if n < 32 then [CHR 0x5C, CHR ''u'', CHR ''0'', CHR ''0'', hex_digit (n div 16), hex_digit (n mod 16)]
     else [c])"

definition quote_string :: "string \<Rightarrow> string" where
  "quote_string s = CHR 0x22 # concat (map escape_char s) @ [CHR 0x22]"

text \<open>What follows the first element, and a whole sequence between its brackets.\<close>

definition tail_text :: "string \<Rightarrow> string list \<Rightarrow> string" where
  "tail_text close ts = concat (map (\<lambda>t. CHR '','' # t) ts) @ close"

definition seq_text :: "string \<Rightarrow> string \<Rightarrow> string list \<Rightarrow> string" where
  "seq_text open_bracket close ts = open_bracket @ (case ts of [] \<Rightarrow> close | t # us \<Rightarrow> t @ tail_text close us)"

primrec json_text :: "(real \<Rightarrow> string) \<Rightarrow> value \<Rightarrow> string" where
  "json_text fl JNull = ''null''"
| "json_text fl (JBool b) = (if b then ''true'' else ''false'')"
| "json_text fl (JInt i) = show_int i"
| "json_text fl (JReal x) = fl x"
| "json_text fl (JStr s) = quote_string s"
| "json_text fl (JArr xs) = seq_text ''['' '']'' (map (json_text fl) xs)"
| "json_text fl (JObj d) =
     seq_text (''{'') (''}'') (map (\<lambda>(k, t). quote_string k @ CHR '':'' # t) (map (map_prod id (json_text fl)) d))"

text \<open>\<open>sort_keys=True\<close>, at every level.\<close>

primrec sort_keys :: "value \<Rightarrow> value" where
  "sort_keys JNull = JNull"
| "sort_keys (JBool b) = JBool b"
| "sort_keys (JInt i) = JInt i"
| "sort_keys (JReal x) = JReal x"
| "sort_keys (JStr s) = JStr s"
| "sort_keys (JArr xs) = JArr (map sort_keys xs)"
| "sort_keys (JObj d) = JObj (sort_key fst (map (map_prod id sort_keys) d))"

definition canonical_json :: "(real \<Rightarrow> string) \<Rightarrow> value \<Rightarrow> string" where
  "canonical_json fl v = json_text fl (sort_keys v)"

section \<open>The encoding is unambiguous\<close>

lemma escape_char_cases:
  obtains (plain) "escape_char c = [c]" "c \<noteq> CHR 0x22" "c \<noteq> CHR 0x5C"
  | (short) k where "escape_char c = [CHR 0x5C, k]" "k \<noteq> CHR ''u''"
      "k = (if c = CHR 0x22 then CHR 0x22 else if c = CHR 0x5C then CHR 0x5C else if (of_char c :: nat) = 10 then CHR ''n''
            else if (of_char c :: nat) = 13 then CHR ''r'' else if (of_char c :: nat) = 9 then CHR ''t''
            else if (of_char c :: nat) = 12 then CHR ''f'' else CHR ''b'')"
      "c = CHR 0x22 \<or> c = CHR 0x5C \<or> (of_char c :: nat) \<in> {8, 9, 10, 12, 13}"
  | (long) "escape_char c = [CHR 0x5C, CHR ''u'', CHR ''0'', CHR ''0'', hex_digit (of_char c div 16), hex_digit (of_char c mod 16)]"
      "(of_char c :: nat) < 32"
proof (cases "c = CHR 0x22 \<or> c = CHR 0x5C \<or> (of_char c :: nat) \<in> {8, 9, 10, 12, 13}")
  case True
  then show thesis by (intro short) (auto simp: escape_char_def Let_def)
next
  case False
  then show thesis
    using plain long by (cases "(of_char c :: nat) < 32") (auto simp: escape_char_def Let_def)
qed

lemma hex_digit_inj: "m < 16 \<Longrightarrow> n < 16 \<Longrightarrow> hex_digit m = hex_digit n \<Longrightarrow> m = n"
  by (auto simp: hex_digit_def split: if_splits)

lemma escape_char_prefix_free:
  assumes "escape_char c @ r = escape_char d @ r'"
  shows "c = d \<and> r = r'"
proof (cases rule: escape_char_cases [of c])
  case plain
  then show ?thesis using assms by (cases rule: escape_char_cases [of d]) auto
next
  case (short k)
  note S = short
  show ?thesis
  proof (cases rule: escape_char_cases [of d])
    case plain
    then show ?thesis using assms S by auto
  next
    case (short l)
    then have "k = l" "r = r'" using assms S(1) by auto
    moreover from \<open>k = l\<close> S(3,4) short(3,4) have "c = d"
      by (auto split: if_splits) (metis char_of_char)+
    ultimately show ?thesis by simp
  next
    case long
    then show ?thesis using assms S by auto
  qed
next
  case long
  note L = long
  show ?thesis
  proof (cases rule: escape_char_cases [of d])
    case long
    then have "hex_digit (of_char c div 16) = hex_digit (of_char d div 16)"
      "hex_digit (of_char c mod 16) = hex_digit (of_char d mod 16)" "r = r'" using assms L(1) by auto
    then have "(of_char c :: nat) div 16 = of_char d div 16" "(of_char c :: nat) mod 16 = of_char d mod 16"
      using L(2) long(2) hex_digit_inj by auto
    then have "(of_char c :: nat) = of_char d" by (metis div_mult_mod_eq)
    with \<open>r = r'\<close> show ?thesis by simp
  qed (use assms L in auto)
qed

lemma escape_char_head: "\<exists>x xs. escape_char c = x # xs \<and> x \<noteq> CHR 0x22"
  by (cases rule: escape_char_cases [of c]) auto

lemma escaped_prefix_free:
  "concat (map escape_char s) @ CHR 0x22 # r = concat (map escape_char t) @ CHR 0x22 # r' \<Longrightarrow> s = t \<and> r = r'"
proof (induction s arbitrary: t)
  case Nil
  show ?case
  proof (cases t)
    case (Cons d u)
    obtain x xs where "escape_char d = x # xs" "x \<noteq> CHR 0x22" using escape_char_head by blast
    with Nil Cons show ?thesis by simp
  qed (use Nil in simp)
next
  case (Cons c s)
  show ?case
  proof (cases t)
    case Nil
    obtain x xs where "escape_char c = x # xs" "x \<noteq> CHR 0x22" using escape_char_head by blast
    with Nil Cons.prems show ?thesis by simp
  next
    case (Cons d u)
    then have "escape_char c @ concat (map escape_char s) @ CHR 0x22 # r = escape_char d @ concat (map escape_char u) @ CHR 0x22 # r'"
      using Cons.prems by simp
    from escape_char_prefix_free [OF this] Cons.IH [of u] Cons show ?thesis by simp
  qed
qed

lemma quote_prefix_free: "quote_string s @ r = quote_string t @ r' \<Longrightarrow> s = t \<and> r = r'"
  using escaped_prefix_free [of s r t r'] by (simp add: quote_string_def)

text \<open>An encoded value is followed by a comma, by a closing bracket or by nothing. Floats are left out.\<close>

definition delimited :: "string \<Rightarrow> bool" where
  "delimited r \<longleftrightarrow> r = [] \<or> hd r \<in> {CHR '','', CHR '']'', CHR ''}''}"

primrec no_floats :: "value \<Rightarrow> bool" where
  "no_floats JNull = True"
| "no_floats (JBool b) = True"
| "no_floats (JInt i) = True"
| "no_floats (JReal x) = False"
| "no_floats (JStr s) = True"
| "no_floats (JArr xs) = list_all id (map no_floats xs)"
| "no_floats (JObj d) = list_all snd (map (map_prod id no_floats) d)"

text \<open>Elements of \<open>A\<close> can be told from elements of \<open>B\<close> by what the encoding \<open>f\<close> starts with.\<close>

definition separates :: "('a \<Rightarrow> string) \<Rightarrow> 'a set \<Rightarrow> 'a set \<Rightarrow> bool" where
  "separates f A B \<longleftrightarrow> (\<forall>x \<in> A \<union> B. f x \<noteq> [] \<and> hd (f x) \<notin> {CHR '']'', CHR ''}''})
     \<and> (\<forall>x \<in> A. \<forall>y \<in> B. \<forall>r r'. delimited r \<longrightarrow> delimited r' \<longrightarrow> f x @ r = f y @ r' \<longrightarrow> x = y \<and> r = r')"

lemma separates_mono: "separates f A B \<Longrightarrow> A' \<subseteq> A \<Longrightarrow> B' \<subseteq> B \<Longrightarrow> separates f A' B'"
  unfolding separates_def by blast

lemma separatesD:
  "separates f A B \<Longrightarrow> x \<in> A \<Longrightarrow> y \<in> B \<Longrightarrow> delimited r \<Longrightarrow> delimited r' \<Longrightarrow> f x @ r = f y @ r' \<Longrightarrow> x = y \<and> r = r'"
  unfolding separates_def by blast

lemma separates_head: "separates f A B \<Longrightarrow> x \<in> A \<union> B \<Longrightarrow> \<exists>b bs. f x = b # bs \<and> b \<notin> {CHR '']'', CHR ''}''}"
  unfolding separates_def by (metis list.collapse)

lemma delimited_tail: "c \<in> {CHR '']'', CHR ''}''} \<Longrightarrow> delimited (tail_text [c] ts @ r)"
  by (cases ts) (auto simp: tail_text_def delimited_def)

lemma tail_prefix_free:
  "c \<in> {CHR '']'', CHR ''}''} \<Longrightarrow> separates f (set xs) (set ys) \<Longrightarrow>
     tail_text [c] (map f xs) @ r = tail_text [c] (map f ys) @ r' \<Longrightarrow> xs = ys \<and> r = r'"
proof (induction xs arbitrary: ys)
  case Nil
  then show ?case by (cases ys) (auto simp: tail_text_def)
next
  case (Cons x xs)
  then obtain y zs where y: "ys = y # zs" by (cases ys) (auto simp: tail_text_def)
  have e: "f x @ tail_text [c] (map f xs) @ r = f y @ tail_text [c] (map f zs) @ r'"
    using Cons.prems(3) y by (simp add: tail_text_def)
  have "x = y \<and> tail_text [c] (map f xs) @ r = tail_text [c] (map f zs) @ r'"
    by (rule separatesD [OF Cons.prems(2) _ _ delimited_tail [OF Cons.prems(1)] delimited_tail [OF Cons.prems(1)] e])
      (use y in simp_all)
  moreover have "separates f (set xs) (set zs)" using Cons.prems(2) by (rule separates_mono) (use y in auto)
  ultimately show ?case using Cons.IH [OF Cons.prems(1)] y by blast
qed

lemma seq_prefix_free:
  assumes "c \<in> {CHR '']'', CHR ''}''}" and "separates f (set xs) (set ys)"
    and "seq_text [a] [c] (map f xs) @ r = seq_text [a] [c] (map f ys) @ r'"
  shows "xs = ys \<and> r = r'"
proof -
  have h: "\<exists>b bs. f x = b # bs \<and> b \<noteq> c" if "x \<in> set xs \<union> set ys" for x
    using assms(1) separates_head [OF assms(2) that] by auto
  show ?thesis
  proof (cases xs)
    case Nil
    show ?thesis
    proof (cases ys)
      case (Cons y vs)
      with h [of y] obtain b bs where "f y = b # bs" "b \<noteq> c" by auto
      with assms(3) Nil Cons show ?thesis by (simp add: seq_text_def)
    qed (use assms(3) Nil in \<open>simp add: seq_text_def\<close>)
  next
    case (Cons x us)
    obtain y vs where y: "ys = y # vs"
    proof (cases ys)
      case Nil
      from h [of x] Cons obtain b bs where "f x = b # bs" "b \<noteq> c" by auto
      with assms(3) Nil Cons show ?thesis by (simp add: seq_text_def)
    qed
    have "f x @ tail_text [c] (map f us) @ r = f y @ tail_text [c] (map f vs) @ r'"
      using assms(3) Cons y by (simp add: seq_text_def)
    then have "x = y \<and> tail_text [c] (map f us) @ r = tail_text [c] (map f vs) @ r'"
      by (intro separatesD [OF assms(2) _ _ delimited_tail [OF assms(1)] delimited_tail [OF assms(1)]])
        (use Cons y in simp_all)
    moreover have "separates f (set us) (set vs)" using assms(2) by (rule separates_mono) (use Cons y in auto)
    ultimately show ?thesis using tail_prefix_free [OF assms(1)] Cons y by blast
  qed
qed

definition int_char :: "char \<Rightarrow> bool" where
  "int_char c \<longleftrightarrow> c = CHR ''-'' \<or> (48 \<le> (of_char c :: nat) \<and> (of_char c :: nat) \<le> 57)"

lemma show_int_chars: "c \<in> set (show_int i) \<Longrightarrow> int_char c" "show_int i \<noteq> []"
  using show_nat_chars [of c] by (auto simp: show_int_def int_char_def split: if_splits)

lemma show_int_prefix_free:
  assumes "delimited r" and "delimited r'" and "show_int i @ r = show_int j @ r'"
  shows "i = j \<and> r = r'"
proof -
  have "takeWhile int_char (show_int k @ q) = show_int k" if "delimited q" for k q
  proof -
    have "takeWhile int_char q = []" using that by (cases q) (auto simp: delimited_def int_char_def)
    then show ?thesis using show_int_chars(1) by (simp add: takeWhile_append2)
  qed
  from this [OF assms(1), of i] this [OF assms(2), of j] assms(3) have e: "show_int i = show_int j" by metis
  then have "i = j" using py_int_show_int by (metis option.inject)
  with assms(3) show ?thesis by simp
qed

lemma json_text_head:
  "no_floats v \<Longrightarrow> \<exists>b bs. json_text fl v = b # bs \<and>
     (case v of JNull \<Rightarrow> b = CHR ''n'' | JBool t \<Rightarrow> b = (if t then CHR ''t'' else CHR ''f'') | JInt i \<Rightarrow> int_char b
      | JReal x \<Rightarrow> False | JStr s \<Rightarrow> b = CHR 0x22 | JArr xs \<Rightarrow> b = CHR ''['' | JObj d \<Rightarrow> b = CHR ''{'')"
proof (cases v)
  case (JInt i)
  obtain b bs where "show_int i = b # bs" using show_int_chars(2) by (cases "show_int i") auto
  with JInt show_int_chars(1) [of b i] show ?thesis by simp
qed (simp_all add: quote_string_def seq_text_def)

lemma json_text_not_closing: "no_floats v \<Longrightarrow> json_text fl v \<noteq> [] \<and> hd (json_text fl v) \<notin> {CHR '']'', CHR ''}''}"
  using json_text_head [of v fl] by (cases v) (auto simp: int_char_def)

definition entry_text :: "(real \<Rightarrow> string) \<Rightarrow> string \<times> value \<Rightarrow> string" where
  "entry_text fl = (\<lambda>(k, v). quote_string k @ CHR '':'' # json_text fl v)"

lemma json_text_obj: "json_text fl (JObj d) = seq_text (''{'') (''}'') (map (entry_text fl) d)"
proof -
  have "map (\<lambda>(k, t). quote_string k @ CHR '':'' # t) (map (map_prod id (json_text fl)) d) = map (entry_text fl) d"
    by (induction d) (auto simp: entry_text_def)
  then show ?thesis by (simp only: json_text.simps)
qed

text \<open>
  The encoding of a value can be read off any text that starts with it: two values without floats that are
  encoded alike, up to what follows, are equal.
\<close>

lemma json_text_prefix_free:
  "no_floats v \<Longrightarrow> no_floats u \<Longrightarrow> delimited r \<Longrightarrow> delimited r' \<Longrightarrow> json_text fl v @ r = json_text fl u @ r' \<Longrightarrow> v = u \<and> r = r'"
proof (induction v arbitrary: u r r')
  case (JStr s)
  with json_text_head [of u fl] show ?case
    by (cases u) (auto simp: quote_string_def int_char_def dest: escaped_prefix_free split: if_splits)
next
  case (JInt i)
  show ?case
  proof (cases "\<exists>j. u = JInt j")
    case True
    with JInt.prems show_int_prefix_free show ?thesis by auto
  next
    case False
    obtain b bs where "show_int i = b # bs" "int_char b" using json_text_head [of "JInt i" fl] by auto
    with JInt.prems False json_text_head [of u fl] show ?thesis by (cases u) (auto simp: int_char_def split: if_splits)
  qed
next
  case (JArr xs)
  show ?case
  proof (cases "\<exists>ys. u = JArr ys")
    case True
    then obtain ys where u: "u = JArr ys" by blast
    have nf: "\<forall>v \<in> set xs \<union> set ys. no_floats v" using JArr.prems(1,2) u by (auto simp: list_all_iff)
    then have "separates (json_text fl) (set xs) (set ys)"
      using JArr.IH json_text_not_closing unfolding separates_def by blast
    from seq_prefix_free [OF _ this, of "CHR '']''" "CHR ''[''" r r'] JArr.prems(5) u show ?thesis by simp
  next
    case False
    with JArr.prems json_text_head [of u fl] show ?thesis by (cases u) (auto simp: seq_text_def int_char_def split: if_splits)
  qed
next
  case (JObj d)
  show ?case
  proof (cases "\<exists>e. u = JObj e")
    case True
    then obtain e where u: "u = JObj e" by blast
    have nf: "\<forall>x \<in> set d \<union> set e. no_floats (snd x)" using JObj.prems(1,2) u by (fastforce simp: list_all_iff)
    have "entry_text fl x @ q = entry_text fl y @ q' \<Longrightarrow> x = y \<and> q = q'"
      if "x \<in> set d" "y \<in> set e" "delimited q" "delimited q'" for x y q q'
    proof -
      assume a: "entry_text fl x @ q = entry_text fl y @ q'"
      obtain k v where x: "x = (k, v)" by fastforce
      obtain l w where y: "y = (l, w)" by fastforce
      from quote_prefix_free [of k "CHR '':'' # json_text fl v @ q" l "CHR '':'' # json_text fl w @ q'"] a x y
      have "k = l" "json_text fl v @ q = json_text fl w @ q'" by (auto simp: entry_text_def)
      moreover have "no_floats v" "no_floats w" using nf that(1,2) x y by force+
      ultimately show ?thesis using JObj.IH [of x v w q q'] that x y by auto
    qed
    then have "separates (entry_text fl) (set d) (set e)"
      unfolding separates_def by (auto simp: entry_text_def quote_string_def)
    from seq_prefix_free [OF _ this, of "CHR ''}''" "CHR ''{''" r r'] JObj.prems(5) u show ?thesis
      by (simp only: json_text_obj) simp
  next
    case False
    with JObj.prems json_text_head [of u fl] show ?thesis by (cases u) (auto simp: seq_text_def int_char_def split: if_splits)
  qed
next
  case JNull
  then show ?case using json_text_head [of u fl] by (cases u) (auto simp: int_char_def split: if_splits)
next
  case (JBool b)
  then show ?case using json_text_head [of u fl] by (cases u) (auto simp: int_char_def split: if_splits)
qed simp

end
