(* ===== verification/Environment.thy ===== *)
theory Environment imports Events Worklist Json begin

text \<open>
  The identity of a task's Lean environment (\<open>_imports\<close>, \<open>_local_module_path\<close>, \<open>_local_import_closure\<close>,
  \<open>fingerprint_lean_environment\<close>, \<open>runtime_environment_fingerprint\<close> and the two fingerprints of
  \<open>pyleaner/observability.py\<close>, with the caches of \<open>pyleaner/client.py\<close>). The file system is a
  function from paths; \<open>sha\<close> is the hexadecimal SHA-256 digest of a text's bytes, \<open>fl\<close> prints a float.
\<close>

section \<open>Fingerprints\<close>

definition fingerprint_text :: "(string \<Rightarrow> string) \<Rightarrow> string \<Rightarrow> string" where
  "fingerprint_text sha text = ''sha256:'' @ sha (utf8 text)"

text \<open>A JSON value can always be encoded, so the fallback to \<open>repr\<close> is not taken.\<close>

definition fingerprint_value :: "(real \<Rightarrow> string) \<Rightarrow> (string \<Rightarrow> string) \<Rightarrow> value \<Rightarrow> string" where
  "fingerprint_value fl sha v = ''sha256:'' @ sha (utf8 (canonical_json fl v))"

section \<open>Imports of a source\<close>

text \<open>
  The words after \<open>import\<close> in one line, up to a comment. The pattern takes the text between the
  whitespace after \<open>import\<close> and the one at the end of the line; stripping it changes none of its words, and a
  line with nothing after \<open>import\<close> has no words whether it matches or not.
\<close>

fun cut_comment :: "string \<Rightarrow> string" where
  "cut_comment [] = []"
| "cut_comment (c # cs) = (if c = CHR ''-'' \<and> cs \<noteq> [] \<and> hd cs = CHR ''-'' then [] else c # cut_comment cs)"

definition import_words :: "string \<Rightarrow> string list" where
  "import_words line =
     (let s = dropWhile is_space line
      in if prefix_of ''import'' s \<and> drop 6 s \<noteq> [] \<and> is_space (hd (drop 6 s))
         then py_split (cut_comment (py_strip (drop 6 s))) else [])"

definition add_new :: "'a \<Rightarrow> 'a list \<Rightarrow> 'a list" where
  "add_new x xs = (if x \<in> set xs then xs else xs @ [x])"

definition imports_of :: "string \<Rightarrow> string list" where
  "imports_of source = fold add_new (concat (map import_words (py_splitlines source))) []"

section \<open>Paths\<close>

text \<open>The anchor (nothing, one slash or two) and the components of a path.\<close>

type_synonym path = "string \<times> string list"

definition parse_path :: "string \<Rightarrow> path" where
  "parse_path p =
     (let n = length (takeWhile (\<lambda>c. c = CHR ''/'') p)
      in (if n = 0 then [] else if n = 2 then ''//'' else ''/'',
          filter (\<lambda>c. c \<noteq> [] \<and> c \<noteq> ''.'') (split_on (CHR ''/'') p)))"

definition join_path :: "path \<Rightarrow> path \<Rightarrow> path" where
  "join_path p q = (if fst q = [] then (fst p, snd p @ snd q) else q)"

text \<open>\<open>Path(*module.split("."))\<close>: no component contains a dot.\<close>

definition module_path :: "string \<Rightarrow> path" where
  "module_path md = fold (\<lambda>part p. join_path p (parse_path part)) (split_on (CHR ''.'') md) ([], [])"

definition with_lean_suffix :: "path \<Rightarrow> exn + path" where
  "with_lean_suffix p =
     (if snd p = [] then Inl (ValueError ''has an empty name'')
      else Inr (fst p, butlast (snd p) @ [last (snd p) @ ''.lean'']))"

definition relative_to :: "path \<Rightarrow> path \<Rightarrow> exn + path" where
  "relative_to p base =
     (if fst p = fst base \<and> prefix_of (snd base) (snd p) then Inr ([], drop (length (snd base)) (snd p))
      else Inl (ValueError ''is not in the subpath''))"

fun slash_join :: "string list \<Rightarrow> string" where
  "slash_join [] = []"
| "slash_join [c] = c"
| "slash_join (c # cs) = c @ CHR ''/'' # slash_join cs"

definition as_posix :: "path \<Rightarrow> string" where
  "as_posix p = (if fst p = [] \<and> snd p = [] then ''.'' else fst p @ slash_join (snd p))"

section \<open>The project\<close>

text \<open>
  \<open>file_at p\<close> is \<open>None\<close> when \<open>p\<close> is no file, otherwise the characters that its bytes encode; reading and decoding may
  raise. \<open>read_text\<close> gives them to the program with every line ending turned into a line feed.
\<close>

record project =
  proj_root :: path \<comment> \<open>resolved\<close>
  root_is_dir :: bool
  file_at :: "path \<Rightarrow> (exn + string) option"

fun universal_newlines :: "string \<Rightarrow> string" where
  "universal_newlines [] = []"
| "universal_newlines (c # cs) =
     (if of_char c = (13 :: nat)
      then CHR 0x0A # universal_newlines (if cs \<noteq> [] \<and> of_char (hd cs) = (10 :: nat) then tl cs else cs)
      else c # universal_newlines cs)"

definition read_text :: "project \<Rightarrow> path \<Rightarrow> (exn + string) option" where
  "read_text pr p = map_option (map_sum id universal_newlines) (file_at pr p)"

lemma read_text_None: "read_text pr p = None \<longleftrightarrow> file_at pr p = None"
  by (simp add: read_text_def)

lemma read_text_Some: "read_text pr p = Some (Inr t) \<longleftrightarrow> (\<exists>x. file_at pr p = Some (Inr x) \<and> t = universal_newlines x)"
proof -
  have "map_sum id universal_newlines v = Inr t \<longleftrightarrow> (\<exists>x. v = Inr x \<and> t = universal_newlines x)" for v :: "exn + string"
    by (cases v) auto
  then show ?thesis by (auto simp: read_text_def)
qed

definition local_module_path :: "project \<Rightarrow> string \<Rightarrow> exn + path option" where
  "local_module_path pr md =
     (case with_lean_suffix (module_path md) of
        Inl e \<Rightarrow> Inl e
      | Inr f \<Rightarrow>
          (let c1 = join_path (proj_root pr) f;
               c2 = join_path (join_path (proj_root pr) (module_path md)) ([], [''Main.lean''])
           in Inr (if file_at pr c1 \<noteq> None then Some c1 else if file_at pr c2 \<noteq> None then Some c2 else None)))"

text \<open>The body of the loop up to the source: its path below the root and its text.\<close>

definition local_source :: "project \<Rightarrow> string \<Rightarrow> exn + (string \<times> string) option" where
  "local_source pr md =
     (case local_module_path pr md of
        Inl e \<Rightarrow> Inl e
      | Inr None \<Rightarrow> Inr None
      | Inr (Some p) \<Rightarrow>
          (case read_text pr p of
             None \<Rightarrow> Inr None
           | Some (Inl e) \<Rightarrow> Inl e
           | Some (Inr text) \<Rightarrow>
               (case relative_to p (proj_root pr) of
                  Inl e \<Rightarrow> Inl e
                | Inr rel \<Rightarrow> Inr (Some (as_posix rel, text)))))"

section \<open>The closure of local imports\<close>

record import_search =
  i_pending :: "string list"
  i_seen :: "string set"
  i_files :: "(string, string) dict"
  i_error :: "exn option"

definition import_round ::
  "(string \<Rightarrow> string) \<Rightarrow> (string \<Rightarrow> exn + (string \<times> string) option) \<Rightarrow> import_search \<Rightarrow> import_search" where
  "import_round fp src s =
     (case i_pending s of
        [] \<Rightarrow> s
      | m # ms \<Rightarrow>
          if m \<in> i_seen s then s\<lparr>i_pending := ms\<rparr>
          else (let s1 = s\<lparr>i_pending := ms, i_seen := insert m (i_seen s)\<rparr>
                in case src m of
                     Inl e \<Rightarrow> s1\<lparr>i_error := Some e\<rparr>
                   | Inr None \<Rightarrow> s1
                   | Inr (Some (p, text)) \<Rightarrow>
                       s1\<lparr>i_files := dict_set p (fp text) (i_files s1),
                          i_pending := ms @ filter (\<lambda>c. c \<notin> i_seen s1) (imports_of text)\<rparr>))"

definition search_start :: "string list \<Rightarrow> import_search" where
  "search_start ms = \<lparr>i_pending = ms, i_seen = {}, i_files = [], i_error = None\<rparr>"

text \<open>\<open>None\<close> is a search that never ends.\<close>

definition local_import_closure ::
  "(string \<Rightarrow> string) \<Rightarrow> (string \<Rightarrow> exn + (string \<times> string) option) \<Rightarrow> string list
     \<Rightarrow> (exn + (string list \<times> (string, string) dict)) option" where
  "local_import_closure fp src initial =
     map_option
       (\<lambda>s. case i_error s of
              Some e \<Rightarrow> Inl e
            | None \<Rightarrow> Inr (sorted_list_of_set (i_seen s), sort_key fst (i_files s)))
       (while_option (\<lambda>s. i_pending s \<noteq> [] \<and> i_error s = None) (import_round fp src) (search_start initial))"

section \<open>The two environment fingerprints\<close>

text \<open>The loop over the configuration files, which both functions contain: files and toolchain.\<close>

definition config_names :: "string list" where
  "config_names = [''lean-toolchain'', ''lake-manifest.json'', ''lakefile.lean'', ''lakefile.toml'']"

fun config_files ::
  "(string \<Rightarrow> string) \<Rightarrow> project \<Rightarrow> string list \<Rightarrow> (string, string) dict \<Rightarrow> string option
     \<Rightarrow> exn + ((string, string) dict \<times> string option)" where
  "config_files fp pr [] files tc = Inr (files, tc)"
| "config_files fp pr (n # ns) files tc =
     (case read_text pr (join_path (proj_root pr) ([], [n])) of
        None \<Rightarrow> config_files fp pr ns files tc
      | Some (Inl e) \<Rightarrow> Inl e
      | Some (Inr text) \<Rightarrow>
          config_files fp pr ns (dict_set n (fp text) files)
            (if n = ''lean-toolchain'' then (if py_strip text = [] then None else Some (py_strip text)) else tc))"

record lean_environment =
  le_fingerprint :: string
  le_project_root :: string
  le_server_command :: "string list"
  le_toolchain :: "string option"
  le_imports :: "string list"
  le_files :: "(string, string) dict"

definition str_dict :: "(string, string) dict \<Rightarrow> value" where
  "str_dict d = JObj (map (map_prod id JStr) d)"

definition environment_payload ::
  "string list \<Rightarrow> string option \<Rightarrow> string list \<Rightarrow> (string, string) dict \<Rightarrow> value" where
  "environment_payload cmd tc ims files =
     JObj [(''schema_version'', JStr ''pyleaner.environment-fingerprint.v1''), (''server_command'', JArr (map JStr cmd)),
           (''lean_toolchain'', json_opt tc), (''imports'', JArr (map JStr ims)), (''file_fingerprints'', str_dict files)]"

definition no_root :: exn where
  "no_root = OSError 2 ''Lean project root does not exist''"

definition fingerprint_lean_environment ::
  "(real \<Rightarrow> string) \<Rightarrow> (string \<Rightarrow> string) \<Rightarrow> project \<Rightarrow> string list \<Rightarrow> string \<Rightarrow> (exn + lean_environment) option" where
  "fingerprint_lean_environment fl sha pr cmd source =
     (if \<not> root_is_dir pr then Some (Inl no_root)
      else (case config_files (fingerprint_text sha) pr config_names [] None of
              Inl e \<Rightarrow> Some (Inl e)
            | Inr (files, tc) \<Rightarrow>
                map_option
                  (\<lambda>r. case r of
                         Inl e \<Rightarrow> Inl e
                       | Inr (ims, local_files) \<Rightarrow>
                           (let fs = sort_key fst (dict_merge files local_files)
                            in Inr \<lparr>le_fingerprint = fingerprint_value fl sha (environment_payload cmd tc ims fs),
                                    le_project_root = as_posix (proj_root pr), le_server_command = cmd,
                                    le_toolchain = tc, le_imports = ims, le_files = fs\<rparr>))
                  (local_import_closure (fingerprint_text sha) (local_source pr) (imports_of source))))"

definition runtime_environment_fingerprint ::
  "(real \<Rightarrow> string) \<Rightarrow> (string \<Rightarrow> string) \<Rightarrow> project \<Rightarrow> string list \<Rightarrow> exn + string" where
  "runtime_environment_fingerprint fl sha pr cmd =
     (if \<not> root_is_dir pr then Inl no_root
      else (case config_files (fingerprint_text sha) pr config_names [] None of
              Inl e \<Rightarrow> Inl e
            | Inr (files, tc) \<Rightarrow>
                Inr (fingerprint_value fl sha
                  (JObj [(''schema_version'', JStr ''pyleaner.environment-fingerprint.v1.runtime''),
                         (''project_root'', JStr (as_posix (proj_root pr))), (''server_command'', JArr (map JStr cmd)),
                         (''lean_toolchain'', json_opt tc), (''file_fingerprints'', str_dict (sort_key fst files))]))))"

section \<open>The caches of the client\<close>

record fp_cache =
  env_cache :: "(string, string option) dict"
  runtime_cache :: "string option"

definition os_or_value_error :: "exn \<Rightarrow> bool" where
  "os_or_value_error e =
     (case e of OSError n m \<Rightarrow> True | BrokenPipeError m \<Rightarrow> True | ConnectionResetError m \<Rightarrow> True | TimeoutError m \<Rightarrow> True
      | ValueError m \<Rightarrow> True | _ \<Rightarrow> False)"

definition source_text :: "kwargs \<Rightarrow> string" where
  "source_text kw = (case dict_get kw ''text'' of Some (JStr t) \<Rightarrow> t | _ \<Rightarrow> [])"

text \<open>One thread's call; \<open>compute source\<close> is \<open>fingerprint_lean_environment\<close> on the project as it is then.\<close>

definition task_environment_fingerprint ::
  "(string \<Rightarrow> string) \<Rightarrow> (string \<Rightarrow> exn + lean_environment) \<Rightarrow> kwargs \<Rightarrow> fp_cache \<Rightarrow> fp_cache \<times> (exn + string option)" where
  "task_environment_fingerprint sha compute kw c =
     (let key = fingerprint_text sha (source_text kw)
      in case dict_get (env_cache c) key of
           Some v \<Rightarrow> (c, Inr v)
         | None \<Rightarrow>
             (case compute (source_text kw) of
                Inr env \<Rightarrow> (c\<lparr>env_cache := dict_set key (Some (le_fingerprint env)) (env_cache c)\<rparr>, Inr (Some (le_fingerprint env)))
              | Inl e \<Rightarrow> if os_or_value_error e then (c\<lparr>env_cache := dict_set key None (env_cache c)\<rparr>, Inr None)
                         else (c, Inl e)))"

definition client_runtime_fingerprint :: "exn + string \<Rightarrow> fp_cache \<Rightarrow> fp_cache \<times> (exn + string option)" where
  "client_runtime_fingerprint computed c =
     (case runtime_cache c of
        Some v \<Rightarrow> (c, Inr (Some v))
      | None \<Rightarrow>
          (case computed of
             Inr v \<Rightarrow> (c\<lparr>runtime_cache := Some v\<rparr>, Inr (Some v))
           | Inl e \<Rightarrow> if os_or_value_error e then (c, Inr None) else (c, Inl e)))"

section \<open>Trace context\<close>

text \<open>
  \<open>observation_context\<close>: the body runs with the fields that are not null merged into the context of its
  execution context, which is put back however the body ends.
\<close>

definition observation_context ::
  "(string, value) dict \<Rightarrow> ((string, value) dict \<Rightarrow> (string, value) dict \<times> 'a) \<Rightarrow> (string, value) dict
     \<Rightarrow> (string, value) dict \<times> 'a" where
  "observation_context fs body ctx =
     (case body (dict_merge ctx (filter (\<lambda>(k, v). v \<noteq> JNull) fs)) of (ctx', r) \<Rightarrow> (ctx, r))"

section \<open>What the search finds\<close>

text \<open>What a module imports, by its source; \<open>ignoring\<close> takes a source that cannot be read for one that is not there.\<close>

definition imports_via :: "(string \<Rightarrow> exn + (string \<times> string) option) \<Rightarrow> string \<Rightarrow> string set" where
  "imports_via src m = (case src m of Inr (Some (p, text)) \<Rightarrow> set (imports_of text) | _ \<Rightarrow> {})"

definition ignoring :: "(string \<Rightarrow> exn + (string \<times> string) option) \<Rightarrow> string \<Rightarrow> exn + (string \<times> string) option" where
  "ignoring src m = (case src m of Inl e \<Rightarrow> Inr None | Inr r \<Rightarrow> Inr r)"

lemma ignoring_simps [simp]:
  "ignoring src m \<noteq> Inl e" "imports_via (ignoring src) = imports_via src"
  by (auto simp: ignoring_def imports_via_def fun_eq_iff split: sum.split)

definition import_inv :: "(string \<Rightarrow> exn + (string \<times> string) option) \<Rightarrow> import_search \<Rightarrow> bool" where
  "import_inv src s \<longleftrightarrow> finite (i_seen s) \<and> i_error s = None
     \<and> (\<forall>m \<in> i_seen s. imports_via src m \<subseteq> set (i_pending s) \<union> i_seen s)"

lemma import_round_effect:
  assumes "i_pending s = m # ms"
  shows "m \<in> i_seen s \<Longrightarrow> import_round fp src s = s\<lparr>i_pending := ms\<rparr>"
    and "m \<notin> i_seen s \<Longrightarrow> i_seen (import_round fp src s) = insert m (i_seen s)"
    and "m \<notin> i_seen s \<Longrightarrow> set (i_pending (import_round fp src s)) = set ms \<union> (imports_via src m - insert m (i_seen s))"
    and "m \<notin> i_seen s \<Longrightarrow> i_error (import_round fp src s) = (case src m of Inl e \<Rightarrow> Some e | Inr r \<Rightarrow> i_error s)"
    and "m \<notin> i_seen s \<Longrightarrow> i_files (import_round fp src s)
          = (case src m of Inr (Some (p, text)) \<Rightarrow> dict_set p (fp text) (i_files s) | _ \<Rightarrow> i_files s)"
  using assms by (auto simp: import_round_def imports_via_def Let_def split: sum.split option.split)

lemma import_round_inv:
  assumes "import_inv src s" and "i_pending s \<noteq> []" and "\<And>m e. src m \<noteq> Inl e"
  shows "import_inv src (import_round fp src s)"
proof -
  obtain m ms where p: "i_pending s = m # ms" using assms(2) by (cases "i_pending s") auto
  note E = import_round_effect [OF p, of fp src]
  show ?thesis
  proof (cases "m \<in> i_seen s")
    case True
    with assms(1) p E(1) show ?thesis by (auto simp: import_inv_def)
  next
    case False
    have "i_error (import_round fp src s) = None"
      using assms(1,3) E(4) [OF False] by (auto simp: import_inv_def split: sum.split)
    with assms(1) p E(2,3) [OF False] show ?thesis by (auto simp: import_inv_def)
  qed
qed

interpretation im: worklist "imports_via src" "\<lambda>s. set (i_pending s)" i_seen "\<lambda>s. length (i_pending s)"
  "import_inv (ignoring src)" "\<lambda>s. i_pending s \<noteq> [] \<and> i_error s = None" "import_round fp (ignoring src)"
  for src :: "string \<Rightarrow> exn + (string \<times> string) option" and fp :: "string \<Rightarrow> string"
proof unfold_locales
  fix s
  assume i: "import_inv (ignoring src) s"
  show "(i_pending s \<noteq> [] \<and> i_error s = None) \<longleftrightarrow> set (i_pending s) \<noteq> {}"
    using i by (auto simp: import_inv_def)
  assume m: "i_pending s \<noteq> [] \<and> i_error s = None"
  show "import_inv (ignoring src) (import_round fp (ignoring src) s)"
    by (rule import_round_inv [OF i conjunct1 [OF m]]) simp
  obtain x ms where p: "i_pending s = x # ms" using m by (cases "i_pending s") auto
  note E = import_round_effect [OF p, of fp "ignoring src"]
  show "\<exists>x \<in> set (i_pending s).
      i_seen (import_round fp (ignoring src) s) = insert x (i_seen s)
    \<and> set (i_pending (import_round fp (ignoring src) s)) \<subseteq> set (i_pending s) \<union> imports_via src x
    \<and> set (i_pending s) \<union> imports_via src x
        \<subseteq> set (i_pending (import_round fp (ignoring src) s)) \<union> i_seen (import_round fp (ignoring src) s)
    \<and> (x \<notin> i_seen s \<or> length (i_pending (import_round fp (ignoring src) s)) < length (i_pending s))"
  proof (rule bexI [of _ x])
    show "x \<in> set (i_pending s)" using p by simp
    show "i_seen (import_round fp (ignoring src) s) = insert x (i_seen s)
      \<and> set (i_pending (import_round fp (ignoring src) s)) \<subseteq> set (i_pending s) \<union> imports_via src x
      \<and> set (i_pending s) \<union> imports_via src x
          \<subseteq> set (i_pending (import_round fp (ignoring src) s)) \<union> i_seen (import_round fp (ignoring src) s)
      \<and> (x \<notin> i_seen s \<or> length (i_pending (import_round fp (ignoring src) s)) < length (i_pending s))"
    proof (cases "x \<in> i_seen s")
      case True
      then have "imports_via src x \<subseteq> set (i_pending s) \<union> i_seen s" using i by (simp add: import_inv_def)
      with True p E(1) [OF True] show ?thesis by auto
    next
      case False
      with p E(2,3) [OF False] show ?thesis by auto
    qed
  qed
qed

text \<open>
  The loop stops at the first source that cannot be read; until then it is the loop that ignores such
  sources.
\<close>

abbreviation goes_on :: "import_search \<Rightarrow> bool" where
  "goes_on s \<equiv> i_pending s \<noteq> [] \<and> i_error s = None"

lemma round_ignoring:
  "i_error (import_round fp src s) = None \<Longrightarrow> import_round fp src s = import_round fp (ignoring src) s"
  by (auto simp: import_round_def ignoring_def Let_def split: list.split sum.splits option.split)

lemma rounds_ignoring:
  "(\<And>j. j \<le> k \<Longrightarrow> i_error ((import_round fp src ^^ j) s) = None) \<Longrightarrow>
     (import_round fp src ^^ k) s = (import_round fp (ignoring src) ^^ k) s"
proof (induction k)
  case (Suc k)
  have "i_error (import_round fp src ((import_round fp src ^^ k) s)) = None" using Suc.prems [of "Suc k"] by simp
  from round_ignoring [OF this] Suc show ?case by simp
qed simp

lemma search_terminates:
  assumes "finite (closure (imports_via src) (set ms))"
  shows "\<exists>u. while_option goes_on (import_round fp src) (search_start ms) = Some u"
proof -
  let ?s = "search_start ms"
  have "import_inv (ignoring src) ?s" "i_seen ?s = {}" "set (i_pending ?s) = set ms"
    by (simp_all add: import_inv_def search_start_def)
  with im.terminates [of src ?s fp] assms obtain t
    where "while_option goes_on (import_round fp (ignoring src)) ?s = Some t" by auto
  from while_option_stop2 [OF this] obtain k where k: "\<not> goes_on ((import_round fp (ignoring src) ^^ k) ?s)" by blast
  have "\<exists>j. \<not> goes_on ((import_round fp src ^^ j) ?s)"
  proof (cases "\<forall>j \<le> k. i_error ((import_round fp src ^^ j) ?s) = None")
    case True
    with rounds_ignoring [of k fp src ?s] k show ?thesis by metis
  qed blast
  then show ?thesis by (simp add: while_option_def)
qed

definition search_inv ::
  "(string \<Rightarrow> string) \<Rightarrow> (string \<Rightarrow> exn + (string \<times> string) option) \<Rightarrow> string set \<Rightarrow> import_search \<Rightarrow> bool" where
  "search_inv fp src A s \<longleftrightarrow> dict_ok (i_files s)
     \<and> set (i_pending s) \<union> i_seen s \<subseteq> closure (imports_via src) A
     \<and> (\<forall>p h. dict_get (i_files s) p = Some h \<longleftrightarrow> (\<exists>m \<in> i_seen s. \<exists>text. src m = Inr (Some (p, text)) \<and> h = fp text))
     \<and> (case i_error s of
          None \<Rightarrow> worklist.searching (imports_via src) (\<lambda>s. set (i_pending s)) i_seen (import_inv (ignoring src)) A s
            \<and> (\<forall>m \<in> i_seen s. \<forall>e. src m \<noteq> Inl e)
        | Some e \<Rightarrow> \<exists>m \<in> i_seen s. src m = Inl e)"

text \<open>One path, one text.\<close>

definition consistent :: "(string \<Rightarrow> exn + (string \<times> string) option) \<Rightarrow> bool" where
  "consistent src \<longleftrightarrow> (\<forall>m n p t u. src m = Inr (Some (p, t)) \<longrightarrow> src n = Inr (Some (p, u)) \<longrightarrow> t = u)"

lemma search_start_inv: "search_inv fp src (set ms) (search_start ms)"
proof -
  have "worklist.searching (imports_via src) (\<lambda>s. set (i_pending s)) i_seen (import_inv (ignoring src)) (set ms) (search_start ms)"
    using im.searching_start [of src "search_start ms"] by (simp add: import_inv_def search_start_def)
  moreover have "set ms \<subseteq> closure (imports_via src) (set ms)" by (auto intro: closure.base)
  ultimately show ?thesis by (simp add: search_inv_def search_start_def)
qed

lemma search_inv_round:
  assumes "search_inv fp src A s" and "goes_on s" and "consistent src"
  shows "search_inv fp src A (import_round fp src s)"
proof -
  obtain m ms where p: "i_pending s = m # ms" using assms(2) by (cases "i_pending s") auto
  note E = import_round_effect [OF p, of fp src]
  let ?t = "import_round fp src s"
  have S: "worklist.searching (imports_via src) (\<lambda>s. set (i_pending s)) i_seen (import_inv (ignoring src)) A s"
    using assms(1,2) by (simp add: search_inv_def)
  have T: "worklist.searching (imports_via src) (\<lambda>s. set (i_pending s)) i_seen (import_inv (ignoring src)) A ?t"
    if "i_error ?t = None"
    using im.searching_advance [OF S assms(2), of fp] round_ignoring [OF that] by simp
  have mC: "m \<in> closure (imports_via src) A" using assms(1) p by (auto simp: search_inv_def)
  then have sC: "imports_via src m \<subseteq> closure (imports_via src) A" by (auto intro: closure.step)
  show ?thesis
  proof (cases "m \<in> i_seen s")
    case True
    with assms(1,2) p E(1) T show ?thesis by (auto simp: search_inv_def)
  next
    case False
    have "dict_ok (i_files ?t)"
      using assms(1) E(5) [OF False] by (auto simp: search_inv_def dict_simps split: sum.split option.split)
    moreover have "set (i_pending ?t) \<union> i_seen ?t \<subseteq> closure (imports_via src) A"
      using assms(1) p E(2,3) [OF False] mC sC by (auto simp: search_inv_def)
    moreover have "dict_get (i_files ?t) q = Some h \<longleftrightarrow> (\<exists>n \<in> i_seen ?t. \<exists>text. src n = Inr (Some (q, text)) \<and> h = fp text)" for q h
    proof -
      have I: "dict_get (i_files s) q = Some h \<longleftrightarrow> (\<exists>n \<in> i_seen s. \<exists>text. src n = Inr (Some (q, text)) \<and> h = fp text)"
        using assms(1) by (simp add: search_inv_def)
      show ?thesis
      proof (cases "\<exists>text. src m = Inr (Some (q, text))")
        case True
        then obtain tx where t: "src m = Inr (Some (q, tx))" by blast
        with assms(3) have "\<And>n u. src n = Inr (Some (q, u)) \<Longrightarrow> u = tx" by (simp add: consistent_def)
        moreover have "dict_get (i_files ?t) q = Some (fp tx)" using E(5) [OF \<open>m \<notin> i_seen s\<close>] t by (simp add: dict_simps)
        moreover have "m \<in> i_seen ?t" using E(2) [OF \<open>m \<notin> i_seen s\<close>] by simp
        ultimately show ?thesis using t by (metis option.inject)
      next
        case False
        then have "dict_get (i_files ?t) q = dict_get (i_files s) q"
          using E(5) [OF \<open>m \<notin> i_seen s\<close>] by (auto simp: dict_simps split: sum.splits option.splits)
        with I False E(2) [OF \<open>m \<notin> i_seen s\<close>] show ?thesis by auto
      qed
    qed
    moreover have "case i_error ?t of
          None \<Rightarrow> worklist.searching (imports_via src) (\<lambda>s. set (i_pending s)) i_seen (import_inv (ignoring src)) A ?t
            \<and> (\<forall>m \<in> i_seen ?t. \<forall>e. src m \<noteq> Inl e)
        | Some e \<Rightarrow> \<exists>m \<in> i_seen ?t. src m = Inl e"
      using assms(1,2) E(2,4) [OF False] T by (auto simp: search_inv_def split: sum.splits option.split)
    ultimately show ?thesis by (simp add: search_inv_def)
  qed
qed

lemma search_ends:
  assumes "consistent src" and "finite (closure (imports_via src) (set ms))"
  obtains s where "while_option goes_on (import_round fp src) (search_start ms) = Some s"
    and "search_inv fp src (set ms) s" and "i_error s = None \<Longrightarrow> i_seen s = closure (imports_via src) (set ms)"
proof -
  obtain s where w: "while_option goes_on (import_round fp src) (search_start ms) = Some s"
    using search_terminates [OF assms(2)] by blast
  have i: "search_inv fp src (set ms) s"
    by (rule while_option_rule [where P = "search_inv fp src (set ms)", OF _ w])
      (use search_inv_round [OF _ _ assms(1)] search_start_inv in auto)
  have "\<not> goes_on s" using while_option_stop [OF w] .
  then have "i_seen s = closure (imports_via src) (set ms)" if "i_error s = None"
    using im.searching_done [of src "set ms" s] i that by (simp add: search_inv_def)
  then show thesis by (rule that [OF w i])
qed

lemma dict_get_sort: "dict_ok d \<Longrightarrow> dict_get (sort_key fst d) = dict_get d"
  unfolding dict_get_map_of dict_ok_def dict_keys_def
  by (subst map_of_inject_set) (auto simp: distinct_map)

lemma dict_ok_sort: "dict_ok d \<Longrightarrow> dict_ok (sort_key fst d)"
  by (auto simp: dict_ok_def dict_keys_def distinct_map)

lemma import_closure_lemma:
  assumes "consistent src" and "finite (closure (imports_via src) (set ms))"
    and "\<And>m e. m \<in> closure (imports_via src) (set ms) \<Longrightarrow> src m \<noteq> Inl e"
  shows "\<exists>files. local_import_closure fp src ms = Some (Inr (sorted_list_of_set (closure (imports_via src) (set ms)), files))
    \<and> dict_ok files \<and> sorted (dict_keys files)
    \<and> (\<forall>p h. dict_get files p = Some h \<longleftrightarrow>
         (\<exists>m \<in> closure (imports_via src) (set ms). \<exists>text. src m = Inr (Some (p, text)) \<and> h = fp text))"
proof -
  obtain s where w: "while_option goes_on (import_round fp src) (search_start ms) = Some s"
    and i: "search_inv fp src (set ms) s" and c: "i_error s = None \<Longrightarrow> i_seen s = closure (imports_via src) (set ms)"
    using search_ends [OF assms(1,2)] by blast
  have e: "i_error s = None"
  proof (rule ccontr)
    assume "i_error s \<noteq> None"
    with i obtain m e where "m \<in> i_seen s" "src m = Inl e" "i_seen s \<subseteq> closure (imports_via src) (set ms)"
      unfolding search_inv_def by (cases "i_error s") auto
    with assms(3) show False by blast
  qed
  have d: "dict_ok (i_files s)" using i by (simp add: search_inv_def)
  have "dict_ok (sort_key fst (i_files s))" "sorted (dict_keys (sort_key fst (i_files s)))"
    "\<forall>p h. dict_get (sort_key fst (i_files s)) p = Some h \<longleftrightarrow>
       (\<exists>m \<in> closure (imports_via src) (set ms). \<exists>text. src m = Inr (Some (p, text)) \<and> h = fp text)"
    using i c [OF e] dict_ok_sort [OF d] dict_get_sort [OF d] by (simp_all add: search_inv_def dict_keys_def)
  moreover have "local_import_closure fp src ms
      = Some (Inr (sorted_list_of_set (closure (imports_via src) (set ms)), sort_key fst (i_files s)))"
    using w e c [OF e] by (simp add: local_import_closure_def)
  ultimately show ?thesis by blast
qed

text \<open>
  C30: The import search computes the closure. From the imports of a source it returns exactly the modules
  that are reached through local files, sorted, and for each of these files the fingerprint of its text; it
  ends although modules may import each other in cycles.
\<close>
theorem import_closure_correct:
  assumes "consistent src" and "finite (closure (imports_via src) (set ms))"
    and "\<And>m e. m \<in> closure (imports_via src) (set ms) \<Longrightarrow> src m \<noteq> Inl e"
  shows "\<exists>files. local_import_closure fp src ms = Some (Inr (sorted_list_of_set (closure (imports_via src) (set ms)), files))
    \<and> dict_ok files \<and> sorted (dict_keys files)
    \<and> (\<forall>p h. dict_get files p = Some h \<longleftrightarrow>
         (\<exists>m \<in> closure (imports_via src) (set ms). \<exists>text. src m = Inr (Some (p, text)) \<and> h = fp text))"
  using assms by (rule import_closure_lemma)

section \<open>Paths below the root\<close>

lemma split_slash_join:
  "cs \<noteq> [] \<Longrightarrow> \<forall>c \<in> set cs. CHR ''/'' \<notin> set c \<Longrightarrow> split_on (CHR ''/'') (slash_join cs) = cs"
proof (induction cs rule: slash_join.induct)
  case (2 c)
  have "CHR ''/'' \<notin> set c \<Longrightarrow> split_on (CHR ''/'') c = [c]" by (induction c) auto
  with 2 show ?case by simp
next
  case (3 c d cs)
  have "CHR ''/'' \<notin> set c \<Longrightarrow> split_on (CHR ''/'') (c @ CHR ''/'' # s) = c # split_on (CHR ''/'') s" for s
    by (induction c) auto
  with 3 show ?case by simp
qed simp

lemma split_on_pieces: "p \<in> set (split_on c s) \<Longrightarrow> c \<notin> set p \<and> set p \<subseteq> set s"
proof (induction s arbitrary: p)
  case (Cons x xs)
  show ?case
  proof (cases "x = c")
    case False
    obtain q qs where q: "split_on c xs = q # qs" by (cases "split_on c xs") auto
    with Cons.prems False consider "p = x # q" | "p \<in> set qs" by auto
    then show ?thesis
    proof cases
      case 1
      with Cons.IH [of q] q False show ?thesis by auto
    next
      case 2
      with Cons.IH [of p] q show ?thesis by auto
    qed
  qed (use Cons in auto)
qed simp

text \<open>Components of a module's path, before and after the suffix is added.\<close>

definition component :: "string \<Rightarrow> bool" where
  "component c \<longleftrightarrow> c \<noteq> [] \<and> CHR ''/'' \<notin> set c \<and> c \<noteq> ''.''"

lemma parse_path_components: "\<forall>c \<in> set (snd (parse_path p)). component c"
  using split_on_pieces [of _ "CHR ''/''" p] by (auto simp: parse_path_def component_def Let_def)

lemma join_path_components:
  "\<forall>c \<in> set (snd p). component c \<Longrightarrow> \<forall>c \<in> set (snd q). component c \<Longrightarrow> \<forall>c \<in> set (snd (join_path p q)). component c"
  by (auto simp: join_path_def)

lemma fold_join_components:
  "\<forall>c \<in> set (snd q). component c \<Longrightarrow>
     \<forall>c \<in> set (snd (fold (\<lambda>part p. join_path p (parse_path part)) ps q)). component c"
proof (induction ps arbitrary: q)
  case (Cons x ps)
  from Cons.IH [OF join_path_components [OF Cons.prems parse_path_components]] show ?case by simp
qed simp

lemma module_path_components: "\<forall>c \<in> set (snd (module_path md)). component c"
  using fold_join_components [of "([], [])"] by (simp add: module_path_def)

lemma as_posix_back:
  assumes "\<forall>c \<in> set cs. component c"
  shows "(if as_posix ([], cs) = ''.'' then [] else split_on (CHR ''/'') (as_posix ([], cs))) = cs"
proof (cases cs)
  case (Cons c ds)
  then have "split_on (CHR ''/'') (slash_join cs) = cs" using assms by (intro split_slash_join) (auto simp: component_def)
  moreover have "slash_join cs \<noteq> ''.''"
  proof
    assume "slash_join cs = ''.''"
    with calculation have "cs = [''.'']" by simp
    with assms show False by (simp add: component_def)
  qed
  ultimately show ?thesis using Cons by (simp add: as_posix_def)
qed (simp add: as_posix_def)

text \<open>Where the file that is recorded under the name \<open>q\<close> lies.\<close>

definition path_at :: "project \<Rightarrow> string \<Rightarrow> path" where
  "path_at pr q = (fst (proj_root pr), snd (proj_root pr) @ (if q = ''.'' then [] else split_on (CHR ''/'') q))"

lemma relative_to_eq: "relative_to p base = Inr r \<Longrightarrow> p = (fst base, snd base @ snd r) \<and> fst r = []"
  unfolding relative_to_def prefix_of_def
  by (cases p) (auto split: if_splits, metis append_take_drop_id)

lemma relative_to_join: "relative_to (join_path base f) base = Inr r \<Longrightarrow> set (snd r) \<subseteq> set (snd f)"
  by (auto simp: relative_to_def join_path_def split: if_splits dest: in_set_dropD)

lemma local_module_path_join:
  assumes "local_module_path pr md = Inr (Some p)"
  shows "\<exists>f. p = join_path (proj_root pr) f \<and> (\<forall>c \<in> set (snd f). component c) \<and> file_at pr p \<noteq> None"
proof -
  let ?m = "module_path md"
  have m: "snd ?m \<noteq> []" using assms by (auto simp: local_module_path_def with_lean_suffix_def)
  let ?f = "(fst ?m, butlast (snd ?m) @ [last (snd ?m) @ ''.lean''])" and ?g = "(fst ?m, snd ?m @ [''Main.lean''])"
  have g: "join_path (join_path (proj_root pr) ?m) ([], [''Main.lean'']) = join_path (proj_root pr) ?g"
    by (simp add: join_path_def)
  have mc: "\<forall>c \<in> set (snd ?m). component c" by (rule module_path_components)
  moreover have "component c \<Longrightarrow> component (c @ ''.lean'')" for c by (simp add: component_def)
  ultimately have "\<forall>c \<in> set (snd ?f). component c" using m by (auto dest: in_set_butlastD)
  moreover have "\<forall>c \<in> set (snd ?g). component c" using mc by (auto simp: component_def)
  moreover have "(p = join_path (proj_root pr) ?f \<or> p = join_path (proj_root pr) ?g) \<and> file_at pr p \<noteq> None"
    using assms m unfolding local_module_path_def with_lean_suffix_def g [symmetric] by (auto simp: Let_def split: if_splits)
  ultimately show ?thesis by blast
qed

lemma local_source_at:
  assumes "local_source pr m = Inr (Some (q, tx))"
  shows "read_text pr (path_at pr q) = Some (Inr tx)"
proof -
  from assms obtain p r where p: "local_module_path pr m = Inr (Some p)" "read_text pr p = Some (Inr tx)"
    "relative_to p (proj_root pr) = Inr r" "q = as_posix r"
    by (auto simp: local_source_def split: sum.splits option.splits)
  from local_module_path_join [OF p(1)] obtain f where f: "p = join_path (proj_root pr) f" "\<forall>c \<in> set (snd f). component c"
    by blast
  have "\<forall>c \<in> set (snd r). component c" using relative_to_join [of "proj_root pr" f r] p(3) f by auto
  moreover obtain cs where r: "r = ([], cs)" using relative_to_eq [OF p(3)] by (cases r) simp
  ultimately have "\<forall>c \<in> set cs. component c" by simp
  then have "(if q = ''.'' then [] else split_on (CHR ''/'') q) = cs"
    unfolding p(4) r by (rule as_posix_back)
  then have "path_at pr q = p" using relative_to_eq [OF p(3)] r unfolding path_at_def by simp
  with p(2) show ?thesis by simp
qed

lemma local_source_consistent: "consistent (local_source pr)"
  unfolding consistent_def by (metis local_source_at option.inject sum.inject(2))

lemma local_closure_finite:
  assumes "finite {p. file_at pr p \<noteq> None}"
  shows "finite (closure (imports_via (local_source pr)) (set ms))"
proof -
  let ?F = "{p. file_at pr p \<noteq> None}"
  let ?of = "\<lambda>p. case read_text pr p of Some (Inr tx) \<Rightarrow> set (imports_of tx) | _ \<Rightarrow> {}"
  let ?X = "set ms \<union> (\<Union>p \<in> ?F. ?of p)"
  have "imports_via (local_source pr) m \<subseteq> (\<Union>p \<in> ?F. ?of p)" for m
  proof (cases "\<exists>q tx. local_source pr m = Inr (Some (q, tx))")
    case True
    then obtain q tx where l: "local_source pr m = Inr (Some (q, tx))" by blast
    from local_source_at [OF l] have "path_at pr q \<in> ?F" by (auto simp: read_text_Some)
    moreover have "imports_via (local_source pr) m = ?of (path_at pr q)"
      using local_source_at [OF l] l by (simp add: imports_via_def)
    ultimately show ?thesis by blast
  next
    case False
    then show ?thesis by (auto simp: imports_via_def split: sum.splits option.splits)
  qed
  then have "imports_via (local_source pr) m \<subseteq> ?X" for m by blast
  moreover have "finite (?of p)" for p by (auto split: option.split sum.split)
  then have "finite ?X" using assms by blast
  ultimately show ?thesis by (intro closure_finite [of ?X]) auto
qed

section \<open>What a fingerprint says\<close>

lemma config_files_get:
  "config_files fp pr ns files tc = Inr (fs, tc') \<Longrightarrow>
     dict_get fs q = (if q \<in> set ns then (case read_text pr (join_path (proj_root pr) ([], [q])) of
                                           Some (Inr tx) \<Rightarrow> Some (fp tx) | _ \<Rightarrow> dict_get files q)
                      else dict_get files q)
     \<and> (dict_ok files \<longrightarrow> dict_ok fs)"
proof (induction fp pr ns files tc rule: config_files.induct)
  case (2 fp pr n ns files tc)
  then show ?case by (auto simp: dict_simps split: option.splits sum.splits)
qed simp

lemma config_path: "q \<in> set config_names \<Longrightarrow> join_path (proj_root pr) ([], [q]) = path_at pr q"
  by (auto simp: config_names_def join_path_def path_at_def)

lemma fingerprint_parts:
  assumes "fingerprint_lean_environment fl sha pr cmd source = Some (Inr env)"
  obtains files local_files where
    "config_files (fingerprint_text sha) pr config_names [] None = Inr (files, le_toolchain env)"
    "local_import_closure (fingerprint_text sha) (local_source pr) (imports_of source) = Some (Inr (le_imports env, local_files))"
    "le_files env = sort_key fst (dict_merge files local_files)" "le_server_command env = cmd"
    "le_fingerprint env = fingerprint_value fl sha (environment_payload cmd (le_toolchain env) (le_imports env) (le_files env))"
proof -
  obtain files tc where c: "config_files (fingerprint_text sha) pr config_names [] None = Inr (files, tc)"
    using assms by (auto simp: fingerprint_lean_environment_def split: if_splits sum.splits)
  obtain ims local_files where
    l: "local_import_closure (fingerprint_text sha) (local_source pr) (imports_of source) = Some (Inr (ims, local_files))"
  proof (cases "local_import_closure (fingerprint_text sha) (local_source pr) (imports_of source)")
    case (Some z)
    with assms c that show thesis by (cases z) (auto simp: fingerprint_lean_environment_def split: if_splits)
  qed (use assms c in \<open>auto simp: fingerprint_lean_environment_def split: if_splits\<close>)
  from assms c l show thesis
    by (intro that [of files local_files]) (auto simp: fingerprint_lean_environment_def Let_def split: if_splits)
qed

text \<open>
  Fingerprinting returns. On a project with finitely many files it comes to an end for every source, with
  an environment or with the exception of a file that cannot be read, however its modules import each other.
\<close>
theorem fingerprint_returns:
  assumes "finite {p. file_at pr p \<noteq> None}"
  shows "\<exists>r. fingerprint_lean_environment fl sha pr cmd source = Some r"
proof -
  from search_terminates [OF local_closure_finite [OF assms]]
  have "\<exists>r. local_import_closure fp (local_source pr) (imports_of source) = Some r" for fp
    unfolding local_import_closure_def by blast
  then obtain r where "local_import_closure (fingerprint_text sha) (local_source pr) (imports_of source) = Some r" by blast
  then show ?thesis by (auto simp: fingerprint_lean_environment_def split: sum.split)
qed

lemma closure_result:
  assumes "local_import_closure fp src ms = Some (Inr (ims, files))" and "consistent src"
    and "finite (closure (imports_via src) (set ms))"
  shows "ims = sorted_list_of_set (closure (imports_via src) (set ms)) \<and> dict_ok files
    \<and> (\<forall>p h. dict_get files p = Some h \<longleftrightarrow>
         (\<exists>m \<in> closure (imports_via src) (set ms). \<exists>text. src m = Inr (Some (p, text)) \<and> h = fp text))"
proof -
  obtain s where w: "while_option goes_on (import_round fp src) (search_start ms) = Some s"
    and i: "search_inv fp src (set ms) s" and c: "i_error s = None \<Longrightarrow> i_seen s = closure (imports_via src) (set ms)"
    using search_ends [OF assms(2,3)] by blast
  have e: "i_error s = None" and r: "ims = sorted_list_of_set (i_seen s)" "files = sort_key fst (i_files s)"
    using assms(1) w by (simp_all add: local_import_closure_def split: option.splits)
  have d: "dict_ok (i_files s)" using i by (simp add: search_inv_def)
  from i c [OF e] r dict_ok_sort [OF d] dict_get_sort [OF d] show ?thesis by (simp add: search_inv_def)
qed

lemma records_lemma:
  assumes "fingerprint_lean_environment fl sha pr cmd source = Some (Inr env)" and "finite {p. file_at pr p \<noteq> None}"
    and "closure (imports_via (local_source pr)) (set (imports_of source)) = C"
  shows "le_imports env = sorted_list_of_set C \<and> dict_ok (le_files env) \<and> sorted (dict_keys (le_files env))
    \<and> (\<forall>q h. dict_get (le_files env) q = Some h \<longleftrightarrow>
         (\<exists>text. read_text pr (path_at pr q) = Some (Inr text) \<and> h = fingerprint_text sha text
           \<and> (q \<in> set config_names \<or> (\<exists>m \<in> C. local_source pr m = Inr (Some (q, text))))))"
proof -
  let ?fp = "fingerprint_text sha"
  obtain files local_files where
    c: "config_files ?fp pr config_names [] None = Inr (files, le_toolchain env)"
    and l: "local_import_closure ?fp (local_source pr) (imports_of source) = Some (Inr (le_imports env, local_files))"
    and f: "le_files env = sort_key fst (dict_merge files local_files)"
    using fingerprint_parts [OF assms(1)] by blast
  have L: "le_imports env = sorted_list_of_set C" "dict_ok local_files"
    "\<And>p h. dict_get local_files p = Some h \<longleftrightarrow> (\<exists>m \<in> C. \<exists>text. local_source pr m = Inr (Some (p, text)) \<and> h = ?fp text)"
    using closure_result [OF l local_source_consistent local_closure_finite [OF assms(2)]] unfolding assms(3) by blast+
  have F: "dict_ok files" "\<And>q. dict_get files q = (if q \<in> set config_names
      then (case read_text pr (path_at pr q) of Some (Inr tx) \<Rightarrow> Some (?fp tx) | _ \<Rightarrow> None) else None)"
    using config_files_get [OF c] config_path by (auto split: option.split sum.split)
  have ok: "dict_ok (dict_merge files local_files)" using F(1) by (rule dict_ok_merge)
  have "dict_get (le_files env) q = Some h \<longleftrightarrow>
      (\<exists>text. read_text pr (path_at pr q) = Some (Inr text) \<and> h = ?fp text
         \<and> (q \<in> set config_names \<or> (\<exists>m \<in> C. local_source pr m = Inr (Some (q, text)))))" for q h
  proof (cases "dict_get local_files q")
    case None
    then have "\<nexists>m text. m \<in> C \<and> local_source pr m = Inr (Some (q, text))" using L(3) by (metis option.distinct(1))
    moreover have "dict_get (le_files env) q = dict_get files q"
      using None unfolding f dict_get_sort [OF ok] by (simp add: dict_get_merge L(2))
    ultimately show ?thesis using F(2) [of q] by (auto split: option.splits sum.splits if_splits)
  next
    case (Some k)
    then obtain m tx where m: "m \<in> C" "local_source pr m = Inr (Some (q, tx))" "k = ?fp tx" using L(3) by blast
    moreover have "dict_get (le_files env) q = Some k"
      using Some unfolding f dict_get_sort [OF ok] by (simp add: dict_get_merge L(2))
    ultimately show ?thesis using local_source_at [OF m(2)] by auto
  qed
  moreover have "sorted (dict_keys (le_files env))" unfolding f dict_keys_def by (rule sorted_sort_key)
  ultimately show ?thesis using L(1) dict_ok_sort [OF ok] f by auto
qed

lemma environment_records_its_files_lemma:
  assumes "fingerprint_lean_environment fl sha pr cmd source = Some (Inr env)" and "finite {p. file_at pr p \<noteq> None}"
  shows "dict_ok (le_files env)"
    and "dict_get (le_files env) q = Some h \<Longrightarrow> \<exists>tx. read_text pr (path_at pr q) = Some (Inr tx) \<and> h = fingerprint_text sha tx"
  using records_lemma [OF assms refl] by blast+

text \<open>
  An environment records its files. What \<open>fingerprint_lean_environment\<close> lists is exactly the
  configuration files that exist and the local files in the import closure of the source, each under its path
  below the root and with the fingerprint of the text that is there; the modules are those of the closure.
\<close>
theorem environment_records_its_files:
  assumes "fingerprint_lean_environment fl sha pr cmd source = Some (Inr env)" and "finite {p. file_at pr p \<noteq> None}"
    and "closure (imports_via (local_source pr)) (set (imports_of source)) = C"
  shows "le_imports env = sorted_list_of_set C \<and> dict_ok (le_files env) \<and> sorted (dict_keys (le_files env))
    \<and> (\<forall>q h. dict_get (le_files env) q = Some h \<longleftrightarrow>
         (\<exists>text. read_text pr (path_at pr q) = Some (Inr text) \<and> h = fingerprint_text sha text
           \<and> (q \<in> set config_names \<or> (\<exists>m \<in> C. local_source pr m = Inr (Some (q, text))))))"
  using assms by (rule records_lemma)

lemma sort_keys_obj_get:
  assumes "sort_keys (JObj d) = sort_keys (JObj e)" and "dict_ok d" and "dict_ok e"
  shows "map_option sort_keys (dict_get d k) = map_option sort_keys (dict_get e k)"
proof -
  have get: "dict_get (map (map_prod id sort_keys) x) k = map_option sort_keys (dict_get x k)" for x
    by (induction x) auto
  have ok: "dict_ok (map (map_prod id sort_keys) x)" if "dict_ok x" for x
    using that by (simp add: dict_ok_def dict_keys_def comp_def)
  have "sort_key fst (map (map_prod id sort_keys) d) = sort_key fst (map (map_prod id sort_keys) e)" using assms(1) by simp
  then have "dict_get (map (map_prod id sort_keys) d) = dict_get (map (map_prod id sort_keys) e)"
    using dict_get_sort [OF ok [OF assms(2)]] dict_get_sort [OF ok [OF assms(3)]] by metis
  then show ?thesis using get by metis
qed

lemma no_floats_sorted: "no_floats v \<Longrightarrow> no_floats (sort_keys v)"
proof (induction v)
  case (JObj d)
  then show ?case by (fastforce simp: list_all_iff)
qed (auto simp: list_all_iff)

lemma canonical_json_inj:
  "no_floats v \<Longrightarrow> no_floats u \<Longrightarrow> canonical_json fl v = canonical_json fl u \<Longrightarrow> sort_keys v = sort_keys u"
  using json_text_prefix_free [of "sort_keys v" "sort_keys u" "[]" "[]" fl] no_floats_sorted
  by (simp add: canonical_json_def delimited_def)

lemma payload_inj:
  assumes "canonical_json fl (environment_payload cmd tc ims fs) = canonical_json fl (environment_payload cmd' tc' ims' fs')"
    and "dict_ok fs" and "dict_ok fs'"
  shows "cmd = cmd' \<and> tc = tc' \<and> ims = ims' \<and> dict_get fs = dict_get fs'"
proof -
  have nf: "no_floats (environment_payload c t i f)" for c t i f
    by (auto simp: environment_payload_def str_dict_def list_all_iff json_opt_def split: option.split)
  obtain d where d: "environment_payload cmd tc ims fs = JObj d" "dict_ok d"
      "d = [(''schema_version'', JStr ''pyleaner.environment-fingerprint.v1''), (''server_command'', JArr (map JStr cmd)),
           (''lean_toolchain'', json_opt tc), (''imports'', JArr (map JStr ims)), (''file_fingerprints'', str_dict fs)]"
    by (simp add: environment_payload_def dict_ok_def)
  obtain e where e: "environment_payload cmd' tc' ims' fs' = JObj e" "dict_ok e"
      "e = [(''schema_version'', JStr ''pyleaner.environment-fingerprint.v1''), (''server_command'', JArr (map JStr cmd')),
           (''lean_toolchain'', json_opt tc'), (''imports'', JArr (map JStr ims')), (''file_fingerprints'', str_dict fs')]"
    by (simp add: environment_payload_def dict_ok_def)
  have "sort_keys (JObj d) = sort_keys (JObj e)"
    using canonical_json_inj [OF nf nf assms(1)] unfolding d(1) e(1) .
  note G = sort_keys_obj_get [OF this d(2) e(2)]
  have strs: "map (sort_keys \<circ> JStr) xs = map (sort_keys \<circ> JStr) ys \<Longrightarrow> xs = ys" for xs ys :: "string list"
    by (induction xs arbitrary: ys) (auto simp: Cons_eq_map_conv map_eq_Cons_conv)
  have "sort_keys (JArr (map JStr cmd)) = sort_keys (JArr (map JStr cmd'))"
    using G [of "''server_command''"] unfolding d(3) e(3) by simp
  then have 1: "cmd = cmd'" using strs by simp
  have "sort_keys (JArr (map JStr ims)) = sort_keys (JArr (map JStr ims'))"
    using G [of "''imports''"] unfolding d(3) e(3) by simp
  then have 2: "ims = ims'" using strs by simp
  have "sort_keys (json_opt tc) = sort_keys (json_opt tc')"
    using G [of "''lean_toolchain''"] unfolding d(3) e(3) by simp
  then have 3: "tc = tc'" by (auto simp: json_opt_def split: option.splits)
  have "sort_keys (str_dict fs) = sort_keys (str_dict fs')"
    using G [of "''file_fingerprints''"] unfolding d(3) e(3) by simp
  moreover have "dict_ok (map (map_prod id JStr) x)" if "dict_ok x" for x :: "(string, string) dict"
    using that by (simp add: dict_ok_def dict_keys_def comp_def)
  ultimately have H: "map_option sort_keys (dict_get (map (map_prod id JStr) fs) q) = map_option sort_keys (dict_get (map (map_prod id JStr) fs') q)" for q
    using assms(2,3) unfolding str_dict_def by (intro sort_keys_obj_get) simp_all
  have "dict_get (map (map_prod id JStr) x) q = map_option JStr (dict_get x q)" for x :: "(string, string) dict" and q
    by (induction x) auto
  with H have "map_option (sort_keys \<circ> JStr) (dict_get fs q) = map_option (sort_keys \<circ> JStr) (dict_get fs' q)" for q
    by (simp add: option.map_comp)
  then have "dict_get fs q = dict_get fs' q" for q
    by (cases "dict_get fs q"; cases "dict_get fs' q") (auto dest: meta_spec [of _ q])
  then show ?thesis using 1 2 3 by blast
qed

lemma fingerprint_payload:
  assumes "fingerprint_lean_environment fl sha pr cmd source = Some (Inr env)"
  shows "le_server_command env = cmd"
    and "le_fingerprint env = fingerprint_value fl sha
           (environment_payload (le_server_command env) (le_toolchain env) (le_imports env) (le_files env))"
  by (rule fingerprint_parts [OF assms], simp)+

text \<open>Everything that is hashed on the way to an environment.\<close>

definition hashed :: "(real \<Rightarrow> string) \<Rightarrow> project \<Rightarrow> lean_environment \<Rightarrow> string set" where
  "hashed fl pr env =
     insert (utf8 (canonical_json fl (environment_payload (le_server_command env) (le_toolchain env) (le_imports env) (le_files env))))
       {utf8 tx | p tx. read_text pr p = Some (Inr tx)}"

lemma hashed_file: "read_text pr p = Some (Inr t) \<Longrightarrow> utf8 t \<in> hashed fl pr env"
  unfolding hashed_def by blast

text \<open>
  C31: A fingerprint identifies its environment. As long as the hash function does not collide on what is
  hashed, equal fingerprints mean the same server command, toolchain and imported modules, and the same
  files with the same characters, except that line endings may differ: encoding the payload loses nothing and mixes
  nothing up, but \<open>read_text\<close> has made the line endings equal before.
\<close>
theorem fingerprint_identifies:
  assumes "fingerprint_lean_environment fl sha pr cmd source = Some (Inr env)" and "finite {p. file_at pr p \<noteq> None}"
    and "fingerprint_lean_environment fl sha pr' cmd' source' = Some (Inr env')" and "finite {p. file_at pr' p \<noteq> None}"
    and "inj_on sha (hashed fl pr env \<union> hashed fl pr' env')" and "le_fingerprint env = le_fingerprint env'"
  shows "cmd = cmd' \<and> le_toolchain env = le_toolchain env' \<and> le_imports env = le_imports env'
    \<and> set (dict_keys (le_files env)) = set (dict_keys (le_files env'))
    \<and> (\<forall>q \<in> set (dict_keys (le_files env)). \<exists>x y.
         file_at pr (path_at pr q) = Some (Inr x) \<and> file_at pr' (path_at pr' q) = Some (Inr y)
         \<and> universal_newlines x = universal_newlines y)"
proof -
  let ?e = "\<lambda>v. utf8 (canonical_json fl (environment_payload (le_server_command v) (le_toolchain v) (le_imports v) (le_files v)))"
  have P: "le_server_command env = cmd" "le_fingerprint env = ''sha256:'' @ sha (?e env)"
    using fingerprint_payload [OF assms(1)] by (simp_all only: fingerprint_value_def)
  have P': "le_server_command env' = cmd'" "le_fingerprint env' = ''sha256:'' @ sha (?e env')"
    using fingerprint_payload [OF assms(3)] by (simp_all only: fingerprint_value_def)
  have "?e env \<in> hashed fl pr env" "?e env' \<in> hashed fl pr' env'" by (simp_all add: hashed_def)
  then have "?e env = ?e env'" using assms(5,6) P(2) P'(2) by (auto dest: inj_onD)
  note R = environment_records_its_files_lemma [OF assms(1,2)] and R' = environment_records_its_files_lemma [OF assms(3,4)]
  from payload_inj [OF utf8_inj [OF \<open>?e env = ?e env'\<close>] R(1) R'(1)] P(1) P'(1)
  have I: "cmd = cmd'" "le_toolchain env = le_toolchain env'" "le_imports env = le_imports env'"
    "dict_get (le_files env) = dict_get (le_files env')" by simp_all
  then have K: "set (dict_keys (le_files env)) = set (dict_keys (le_files env'))"
    using dict_get_None by (metis (no_types, opaque_lifting) subsetI subset_antisym)
  have "\<exists>x y. file_at pr (path_at pr q) = Some (Inr x) \<and> file_at pr' (path_at pr' q) = Some (Inr y)
      \<and> universal_newlines x = universal_newlines y"
    if "q \<in> set (dict_keys (le_files env))" for q
  proof -
    from that obtain h where h: "dict_get (le_files env) q = Some h" using dict_get_None by (metis not_None_eq)
    from R(2) [OF h] obtain t where t: "read_text pr (path_at pr q) = Some (Inr t)" "h = fingerprint_text sha t" by blast
    have "dict_get (le_files env') q = Some h" using h I(4) by simp
    from R'(2) [OF this] obtain u where u: "read_text pr' (path_at pr' q) = Some (Inr u)" "h = fingerprint_text sha u" by blast
    from t(1) u(1) have "utf8 t \<in> hashed fl pr env" "utf8 u \<in> hashed fl pr' env'" by (blast intro: hashed_file)+
    then have "utf8 t = utf8 u" using assms(5) t(2) u(2) by (auto simp: fingerprint_text_def dest: inj_onD)
    with t(1) u(1) utf8_inj show ?thesis unfolding read_text_Some by metis
  qed
  with I K show ?thesis by blast
qed

text \<open>The other direction: two projects whose texts agree after \<open>read_text\<close> have one fingerprint.\<close>

lemma line_endings_do_not_count:
  assumes "read_text pr = read_text pr'" and "proj_root pr = proj_root pr'" and "root_is_dir pr = root_is_dir pr'"
  shows "fingerprint_lean_environment fl sha pr cmd source = fingerprint_lean_environment fl sha pr' cmd source"
proof -
  have f: "file_at pr p = None \<longleftrightarrow> file_at pr' p = None" for p using assms(1) read_text_None by metis
  have lm: "local_module_path pr md = local_module_path pr' md" for md
    by (simp add: local_module_path_def assms(2) f Let_def cong: if_cong split: sum.split)
  have "local_source pr md = local_source pr' md" for md unfolding local_source_def lm assms by (rule refl)
  then have ls: "local_source pr = local_source pr'" by (rule ext)
  have cf: "config_files fp pr ns fs tc = config_files fp pr' ns fs tc" for fp ns fs tc
    using assms(1,2) by (induction fp pr ns fs tc rule: config_files.induct) (auto split: option.split sum.split)
  show ?thesis unfolding fingerprint_lean_environment_def assms(2,3) ls cf by (rule refl)
qed

section \<open>Caching\<close>

text \<open>
  A task's environment is looked at once. After a call that returned, every later call for the same source
  gives the same answer without looking at the project again, also when the answer was that there is none; the
  runtime fingerprint is kept only once it has been computed, and asked for again until then.
\<close>
theorem fingerprints_are_memoised:
  assumes "task_environment_fingerprint sha compute kw c = (c', Inr r)" and "source_text kw' = source_text kw"
    and "client_runtime_fingerprint computed c = (c2, Inr v)"
  shows "task_environment_fingerprint sha compute' kw' c' = (c', Inr r)
    \<and> client_runtime_fingerprint computed' c2 =
        (if v = None then client_runtime_fingerprint computed' c else (c2, Inr v))"
proof
  show "task_environment_fingerprint sha compute' kw' c' = (c', Inr r)"
    using assms(1,2)
    by (auto simp: task_environment_fingerprint_def Let_def dict_simps split: option.splits sum.splits if_splits)
  show "client_runtime_fingerprint computed' c2 =
      (if v = None then client_runtime_fingerprint computed' c else (c2, Inr v))"
    using assms(3) by (auto simp: client_runtime_fingerprint_def split: option.splits sum.splits if_splits)
qed

lemma dict_get_not_null:
  "dict_ok e \<Longrightarrow> dict_get (filter (\<lambda>(k, v). v \<noteq> JNull) e) k =
      (case dict_get e k of Some v \<Rightarrow> if v = JNull then None else Some v | None \<Rightarrow> None)"
proof (induction e)
  case (Cons x e)
  obtain a b where x: "x = (a, b)" by fastforce
  have "dict_get e a = None" "dict_ok e" using Cons.prems by (simp_all add: dict_ok_def dict_get_None x)
  with Cons.IH show ?case by (auto simp: x)
qed simp

text \<open>
  A trace context ends with its block. Whatever the body does to the context of its execution and however
  it ends, the context before the block is back after it; inside, a field that was given is seen unless it is
  null, and every other key keeps its value.
\<close>
theorem observation_context_is_scoped:
  assumes "dict_ok fs"
  shows "fst (observation_context fs body ctx) = ctx
    \<and> snd (observation_context fs (\<lambda>c. (d, dict_get c k)) ctx) =
        (case dict_get fs k of Some v \<Rightarrow> if v = JNull then dict_get ctx k else Some v | None \<Rightarrow> dict_get ctx k)"
proof -
  let ?fs = "filter (\<lambda>(k, v). v \<noteq> JNull) fs"
  have "dict_ok ?fs" using assms by (auto simp: dict_ok_def dict_keys_def distinct_map inj_on_def)
  moreover note dict_get_not_null [OF assms, of k]
  ultimately show ?thesis
    using assms by (auto simp: observation_context_def dict_simps split: prod.split option.split)
qed

section \<open>Witnesses\<close>

text \<open>Two modules that import each other.\<close>

definition cyclic_source :: "string \<Rightarrow> exn + (string \<times> string) option" where
  "cyclic_source m = (if m = ''A'' then Inr (Some (''A.lean'', ''import B''))
     else if m = ''B'' then Inr (Some (''B.lean'', ''import A'')) else Inr None)"

lemma demo_imports: "imports_of ''import B'' = [''B'']" "imports_of ''import A'' = [''A'']"
  by code_simp+

lemma cyclic_closure:
  assumes "\<And>m. m \<in> {''A'', ''B''} \<Longrightarrow> src m = cyclic_source m"
  shows "closure (imports_via src) {''A''} = {''A'', ''B''}"
proof
  show "closure (imports_via src) {''A''} \<subseteq> {''A'', ''B''}"
    using assms demo_imports by (intro closure_least) (auto simp: imports_via_def cyclic_source_def)
  have "''A'' \<in> closure (imports_via src) {''A''}" by (rule closure.base) simp
  moreover from this have "''B'' \<in> closure (imports_via src) {''A''}"
    by (rule closure.step) (use assms demo_imports in \<open>simp add: imports_via_def cyclic_source_def\<close>)
  ultimately show "{''A'', ''B''} \<subseteq> closure (imports_via src) {''A''}" by simp
qed

theorem import_closure_correct_witness:
  "\<exists>files. local_import_closure id cyclic_source [''A''] = Some (Inr (sorted_list_of_set {''A'', ''B''}, files))
     \<and> dict_get files ''B.lean'' = Some ''import A''"
proof -
  have c: "consistent cyclic_source" by (auto simp: consistent_def cyclic_source_def split: if_splits)
  have s: "closure (imports_via cyclic_source) (set [''A'']) = {''A'', ''B''}" using cyclic_closure by simp
  have e: "cyclic_source m \<noteq> Inl e" for m e by (simp add: cyclic_source_def)
  have "finite (closure (imports_via cyclic_source) (set [''A'']))" by (simp only: s) simp
  from import_closure_correct [OF c this e, of id] obtain files where
    "local_import_closure id cyclic_source [''A''] = Some (Inr (sorted_list_of_set {''A'', ''B''}, files))"
    and g: "\<forall>p h. dict_get files p = Some h \<longleftrightarrow> (\<exists>m \<in> {''A'', ''B''}. \<exists>text. cyclic_source m = Inr (Some (p, text)) \<and> h = id text)"
    unfolding s by blast
  moreover have "dict_get files ''B.lean'' = Some ''import A''"
    using g [rule_format, of "''B.lean''" "''import A''"] by (simp add: cyclic_source_def)
  ultimately show ?thesis by blast
qed

definition demo_project :: project where
  "demo_project = \<lparr>proj_root = (''/'', [''p'']), root_is_dir = True, file_at = (\<lambda>p.
     if p = (''/'', [''p'', ''lean-toolchain'']) then Some (Inr (''v4'' @ [CHR 0x0A]))
     else if p = (''/'', [''p'', ''A.lean'']) then Some (Inr ''import B'')
     else if p = (''/'', [''p'', ''B.lean'']) then Some (Inr ''import A'') else None)\<rparr>"

lemma demo_project_finite: "finite {p. file_at demo_project p \<noteq> None}"
proof (rule finite_subset)
  show "{p. file_at demo_project p \<noteq> None}
      \<subseteq> {(''/'', [''p'', ''lean-toolchain'']), (''/'', [''p'', ''A.lean'']), (''/'', [''p'', ''B.lean''])}"
    by (auto simp: demo_project_def split: if_splits)
qed simp

lemma demo_project_sources:
  "local_source demo_project ''A'' = Inr (Some (''A.lean'', ''import B''))"
  "local_source demo_project ''B'' = Inr (Some (''B.lean'', ''import A''))"
  by (simp_all add: local_source_def local_module_path_def module_path_def parse_path_def join_path_def with_lean_suffix_def
      demo_project_def relative_to_def prefix_of_def as_posix_def read_text_def)

lemma demo_project_texts:
  "read_text demo_project (path_at demo_project ''lean-toolchain'') = Some (Inr (''v4'' @ [CHR 0x0A]))"
  "read_text demo_project (path_at demo_project ''B.lean'') = Some (Inr ''import A'')"
  by (simp_all add: path_at_def demo_project_def read_text_def)

lemma demo_project_closure: "closure (imports_via (local_source demo_project)) {''A''} = {''A'', ''B''}"
  by (rule cyclic_closure) (auto simp: demo_project_sources cyclic_source_def)

lemma demo_environment: "\<exists>env. fingerprint_lean_environment fl sha demo_project [''lake''] ''import A'' = Some (Inr env)"
proof -
  have "\<exists>fs tc. config_files (fingerprint_text sha) demo_project config_names [] None = Inr (fs, tc)"
    by (simp add: config_names_def demo_project_def join_path_def read_text_def)
  moreover have "\<exists>ims fs. local_import_closure (fingerprint_text sha) (local_source demo_project) [''A''] = Some (Inr (ims, fs))"
  proof -
    have s: "closure (imports_via (local_source demo_project)) (set [''A'']) = {''A'', ''B''}"
      using demo_project_closure by simp
    have "local_source demo_project m \<noteq> Inl e" if "m \<in> closure (imports_via (local_source demo_project)) (set [''A''])" for m e
      using that demo_project_sources unfolding s by auto
    from import_closure_lemma [OF local_source_consistent local_closure_finite [OF demo_project_finite] this]
    show ?thesis by blast
  qed
  moreover have "root_is_dir demo_project" by (simp add: demo_project_def)
  ultimately show ?thesis by (auto simp: fingerprint_lean_environment_def demo_imports Let_def)
qed

theorem fingerprint_returns_witness:
  "\<exists>r. fingerprint_lean_environment (\<lambda>x. []) id demo_project [''lake''] ''import A'' = Some r"
  by (rule fingerprint_returns [OF demo_project_finite])

theorem environment_records_its_files_witness:
  "\<exists>env. fingerprint_lean_environment (\<lambda>x. []) id demo_project [''lake''] ''import A'' = Some (Inr env)
     \<and> dict_get (le_files env) ''lean-toolchain'' = Some (fingerprint_text id (''v4'' @ [CHR 0x0A]))
     \<and> dict_get (le_files env) ''B.lean'' = Some (fingerprint_text id ''import A'')"
proof -
  obtain env where e: "fingerprint_lean_environment (\<lambda>x. []) id demo_project [''lake''] ''import A'' = Some (Inr env)"
    using demo_environment by blast
  have c: "closure (imports_via (local_source demo_project)) (set (imports_of ''import A'')) = {''A'', ''B''}"
    using demo_project_closure by (simp add: demo_imports)
  have R: "dict_get (le_files env) q = Some h" if "read_text demo_project (path_at demo_project q) = Some (Inr tx)"
      "h = fingerprint_text id tx" "q \<in> set config_names \<or> (\<exists>m \<in> {''A'', ''B''}. local_source demo_project m = Inr (Some (q, tx)))" for q h tx
    using environment_records_its_files [OF e demo_project_finite c] that by blast
  from R [OF demo_project_texts(1) refl] R [OF demo_project_texts(2) refl] demo_project_sources(2) e show ?thesis
    by (auto simp: config_names_def)
qed

text \<open>The same project with another line ending in its toolchain file.\<close>

definition crlf_project :: project where
  "crlf_project = demo_project\<lparr>file_at := (file_at demo_project)
     ((''/'', [''p'', ''lean-toolchain'']) := Some (Inr (''v4'' @ [CHR 0x0D, CHR 0x0A])))\<rparr>"

lemma crlf_project: "read_text crlf_project = read_text demo_project" "finite {p. file_at crlf_project p \<noteq> None}"
proof -
  show "read_text crlf_project = read_text demo_project"
    by (auto simp: fun_eq_iff read_text_def crlf_project_def demo_project_def)
  then have "{p. file_at crlf_project p \<noteq> None} = {p. file_at demo_project p \<noteq> None}"
    by (metis read_text_None)
  then show "finite {p. file_at crlf_project p \<noteq> None}" using demo_project_finite by simp
qed

theorem fingerprint_identifies_witness:
  "\<exists>env. fingerprint_lean_environment (\<lambda>x. []) id demo_project [''lake''] ''import A'' = Some (Inr env)
     \<and> fingerprint_lean_environment (\<lambda>x. []) id crlf_project [''lake''] ''import A'' = Some (Inr env)
     \<and> (\<forall>q \<in> set (dict_keys (le_files env)). \<exists>x y.
          file_at demo_project (path_at demo_project q) = Some (Inr x)
          \<and> file_at crlf_project (path_at crlf_project q) = Some (Inr y) \<and> universal_newlines x = universal_newlines y)
     \<and> file_at crlf_project (''/'', [''p'', ''lean-toolchain'']) \<noteq> file_at demo_project (''/'', [''p'', ''lean-toolchain''])"
proof -
  obtain env where e: "fingerprint_lean_environment (\<lambda>x. []) id demo_project [''lake''] ''import A'' = Some (Inr env)"
    using demo_environment by blast
  moreover from this have c: "fingerprint_lean_environment (\<lambda>x. []) id crlf_project [''lake''] ''import A'' = Some (Inr env)"
    using line_endings_do_not_count [OF crlf_project(1)] by (simp add: crlf_project_def)
  moreover have "file_at crlf_project (''/'', [''p'', ''lean-toolchain'']) \<noteq> file_at demo_project (''/'', [''p'', ''lean-toolchain''])"
    by (simp add: crlf_project_def demo_project_def)
  ultimately show ?thesis
    using fingerprint_identifies [OF e demo_project_finite c crlf_project(2) inj_on_id refl] by blast
qed

theorem fingerprints_are_memoised_witness:
  "snd (task_environment_fingerprint id (\<lambda>s. Inl (KeyError [])) []
          (fst (task_environment_fingerprint id (\<lambda>s. Inl no_root) [] \<lparr>env_cache = [], runtime_cache = None\<rparr>))) = Inr None"
proof -
  let ?c = "\<lparr>env_cache = [], runtime_cache = None\<rparr>"
  obtain c' where c: "task_environment_fingerprint id (\<lambda>s. Inl no_root) [] ?c = (c', Inr None)"
    by (simp add: task_environment_fingerprint_def no_root_def os_or_value_error_def Let_def)
  obtain c2 where r: "client_runtime_fingerprint (Inl no_root) ?c = (c2, Inr None)"
    by (simp add: client_runtime_fingerprint_def no_root_def os_or_value_error_def)
  from fingerprints_are_memoised [OF c refl r, of "\<lambda>s. Inl (KeyError [])"] c show ?thesis by simp
qed

theorem observation_context_is_scoped_witness:
  "snd (observation_context [(''a'', JInt 1), (''b'', JNull)] (\<lambda>c. ([], dict_get c ''b'')) [(''b'', JInt 2)]) = Some (JInt 2)"
  using observation_context_is_scoped [where fs = "[(''a'', JInt 1), (''b'', JNull)]" and ctx = "[(''b'', JInt 2)]" and k = "''b''" and d = "[]" and body = "\<lambda>c. ([], ())"]
  by (simp add: dict_ok_def)

end
