(* ===== verification/Systemd.thy ===== *)
theory Systemd imports Errors PyText begin

text \<open>
  The calls to systemd (\<open>_systemd_scope_for_pid\<close>, \<open>_stop_systemd_scope\<close> and \<open>_systemd_scope_result\<close> of
  \<open>pyleaner/watchdog.py\<close>): which commands are run and what is made of their results. \<open>run\<close> is
  \<open>subprocess.run\<close>, which may raise; each operation returns the commands that it issued with its outcome.
\<close>

record command_result =
  returncode :: int
  stdout :: string
  stderr :: string

type_synonym runner = "string list \<Rightarrow> exn + command_result"

definition scope_unit :: "int \<Rightarrow> int \<Rightarrow> string \<Rightarrow> string" where
  "scope_unit pid wid hexid =
     ''pyleaner-w'' @ show_int wid @ ''-p'' @ show_int pid @ ''-'' @ hexid @ ''.scope''"

definition scope_properties :: "int \<Rightarrow> int \<Rightarrow> int \<Rightarrow> (string \<times> string \<times> string list) list" where
  "scope_properties pid wid mx =
     [(''Description'', ''s'', [''PyLeaner guarded worker '' @ show_int wid @ '' (pid '' @ show_int pid @ '')'']),
      (''PIDs'', ''au'', [''1'', show_int pid]),
      (''MemoryMax'', ''t'', [show_int mx]),
      (''MemorySwapMax'', ''t'', [''0''])]"

definition start_command :: "string \<Rightarrow> (string \<times> string \<times> string list) list \<Rightarrow> string list" where
  "start_command unit ps =
     [''busctl'', ''--user'', ''call'', ''org.freedesktop.systemd1'', ''/org/freedesktop/systemd1'',
      ''org.freedesktop.systemd1.Manager'', ''StartTransientUnit'', ''ssa(sv)a(sa(sv))'', unit, ''fail'',
      show_nat (length ps)]
     @ concat (map (\<lambda>(name, signature, vs). name # signature # vs) ps) @ [''0'']"

definition show_command :: "string \<Rightarrow> string \<Rightarrow> string list" where
  "show_command unit field = [''systemctl'', ''--user'', ''show'', unit, ''-p'', field, ''--value'']"

definition stop_command :: "string \<Rightarrow> string list" where
  "stop_command unit = [''systemctl'', ''--user'', ''stop'', unit]"

definition systemd_scope_for_pid ::
  "runner \<Rightarrow> string \<Rightarrow> int \<Rightarrow> int \<Rightarrow> int \<Rightarrow> string list list \<times> (exn + string \<times> string)" where
  "systemd_scope_for_pid run hexid pid wid mx =
     (let unit = scope_unit pid wid hexid;
          c1 = start_command unit (scope_properties pid wid mx);
          c2 = show_command unit ''ControlGroup'';
          c3 = stop_command unit
      in case run c1 of
           Inl e \<Rightarrow> ([c1], Inl e)
         | Inr r \<Rightarrow>
             if returncode r \<noteq> 0
             then ([c1], Inl (RuntimeError (''cannot create memory guard '' @ unit @ '': ''
                     @ (if py_strip (stderr r) \<noteq> [] then py_strip (stderr r) else py_strip (stdout r)))))
             else
               (case run c2 of
                  Inl e \<Rightarrow> ([c1, c2], Inl e)
                | Inr r2 \<Rightarrow>
                    (let cg = py_strip (stdout r2)
                     in if returncode r2 \<noteq> 0 \<or> cg = []
                        then (case run c3 of
                                Inl e \<Rightarrow> ([c1, c2, c3], Inl e)
                              | Inr _ \<Rightarrow> ([c1, c2, c3], Inl (RuntimeError (''cannot resolve cgroup for '' @ unit))))
                        else ([c1, c2], Inr (unit, ''/sys/fs/cgroup'' @ cg)))))"

definition stop_systemd_scope :: "runner \<Rightarrow> string \<Rightarrow> string list list" where
  "stop_systemd_scope run unit =
     (case run (stop_command unit) of
        Inl e \<Rightarrow> [stop_command unit]
      | Inr _ \<Rightarrow> [stop_command unit, [''systemctl'', ''--user'', ''reset-failed'', unit]])"

definition systemd_scope_result :: "runner \<Rightarrow> string \<Rightarrow> string" where
  "systemd_scope_result run unit =
     (case run (show_command unit ''Result'') of
        Inl e \<Rightarrow> []
      | Inr r \<Rightarrow> if returncode r = 0 then py_strip (stdout r) else [])"

section \<open>Names and leaks\<close>

text \<open>
  No two guards share a scope. The unit's name determines the worker, the process and the identifier that
  was drawn for it, so stopping a scope never stops that of another process.
\<close>
theorem scope_units_distinct:
  assumes "scope_unit pid wid h = scope_unit pid' wid' h'" and "0 \<le> pid" and "0 \<le> wid" and "0 \<le> pid'" and "0 \<le> wid'"
  shows "pid = pid' \<and> wid = wid' \<and> h = h'"
proof -
  have cut: "m = n \<and> r = r'" if "show_nat m @ CHR ''-'' # r = show_nat n @ CHR ''-'' # r'" for m n r r'
  proof -
    have "takeWhile (\<lambda>c. c \<noteq> CHR ''-'') (show_nat k @ CHR ''-'' # q) = show_nat k" for k q
      using show_nat_chars [of "CHR ''-''" k] by (subst takeWhile_append2) auto
    with that have "show_nat m = show_nat n" by metis
    with that read_digits_show_nat show ?thesis by (metis append_same_eq append_eq_append_conv list.inject option.inject)
  qed
  have pos: "show_int i = show_nat (nat i)" if "0 \<le> i" for i using that by (simp add: show_int_def)
  have "show_nat (nat wid) @ CHR ''-'' # ''p'' @ show_nat (nat pid) @ CHR ''-'' # h @ ''.scope''
      = show_nat (nat wid') @ CHR ''-'' # ''p'' @ show_nat (nat pid') @ CHR ''-'' # h' @ ''.scope''"
    using assms by (simp add: scope_unit_def pos)
  from cut [OF this] have "nat wid = nat wid'"
    "show_nat (nat pid) @ CHR ''-'' # h @ ''.scope'' = show_nat (nat pid') @ CHR ''-'' # h' @ ''.scope''" by simp_all
  moreover from cut [OF this(2)] have "nat pid = nat pid'" "h = h'" by simp_all
  ultimately show ?thesis using assms(2-5) by (simp add: eq_nat_nat_iff)
qed

text \<open>
  C39: A scope that was created is handed over or stopped, except in one case: when asking for its cgroup raises,
  for instance because \<open>systemctl\<close> does not answer in time, the exception leaves the scope running and nobody
  knows its name.
\<close>
theorem created_scope_is_accounted_for:
  assumes "systemd_scope_for_pid run hexid pid wid mx = (cs, r)"
    and "run (start_command (scope_unit pid wid hexid) (scope_properties pid wid mx)) = Inr res" and "returncode res = 0"
  shows "if \<exists>e. run (show_command (scope_unit pid wid hexid) ''ControlGroup'') = Inl e
    then (\<exists>e. r = Inl e) \<and> stop_command (scope_unit pid wid hexid) \<notin> set cs
    else (\<exists>cg. r = Inr (scope_unit pid wid hexid, cg) \<and> cg \<noteq> ''/sys/fs/cgroup'')
      \<or> ((\<exists>e. r = Inl e) \<and> stop_command (scope_unit pid wid hexid) \<in> set cs)"
  using assms
  by (auto simp: systemd_scope_for_pid_def start_command_def show_command_def stop_command_def Let_def
      split: sum.splits if_splits)

theorem scope_units_distinct_witness:
  "scope_unit 70 1 ''ab'' = scope_unit 70 1 ''ab'' \<and> (70::int) = 70"
  using scope_units_distinct [of 70 1 "''ab''" 70 1 "''ab''"] by simp

definition silent_systemd :: runner where
  "silent_systemd c = (if hd c = ''busctl'' then Inr \<lparr>returncode = 0, stdout = [], stderr = []\<rparr>
     else Inl (RuntimeError ''timed out after 10 seconds''))"

theorem created_scope_is_accounted_for_witness:
  "\<exists>e. snd (systemd_scope_for_pid silent_systemd ''ab'' 70 1 1000) = Inl e
     \<and> stop_command (scope_unit 70 1 ''ab'') \<notin> set (fst (systemd_scope_for_pid silent_systemd ''ab'' 70 1 1000))"
proof -
  obtain cs r where s: "systemd_scope_for_pid silent_systemd ''ab'' 70 1 1000 = (cs, r)" by fastforce
  have "silent_systemd (start_command (scope_unit 70 1 ''ab'') (scope_properties 70 1 1000)) = Inr \<lparr>returncode = 0, stdout = [], stderr = []\<rparr>"
    by (simp add: silent_systemd_def start_command_def)
  from created_scope_is_accounted_for [OF s this] s show ?thesis
    by (auto simp: silent_systemd_def show_command_def)
qed

end
