(* ===== verification/Interleave.thy ===== *)
theory Interleave imports Recovery begin

text \<open>
  The request layer under concurrency. Worker threads, the reader of the server's output, the keep-alive
  thread and the watchdog's receiver share one client; each critical section or single update of it in
  \<open>pyleaner/client.py\<close>, \<open>rpc_session.py\<close> and \<open>watchdog.py\<close> is one step here, and the operations of the
  other theories are sequences of such steps. What holds after any sequence of steps therefore holds however
  the threads are scheduled.
\<close>

section \<open>Steps\<close>

inductive client_step :: "client \<Rightarrow> client \<Rightarrow> bool" where
  identify: "client_step c (fst (next_id c))"
| expect: "fresh_queue c = (c1, q) \<Longrightarrow> client_step c (register_pending i q c1)"
| written: "client_step c (c\<lparr>sent := sent c @ ms, faults := fs\<rparr>)"
| respond: "deliver_response msg_id data c = (c', r) \<Longrightarrow> client_step c c'"
| wait: "client_step c (c\<lparr>waits := ws\<rparr>)"
| forget: "client_step c (drop_pending i c)"
| wake: "client_step c (wake_pending c)"
| spawn: "client_step c (c\<lparr>process_up := b\<rparr>)"

inductive_cases client_stepE: "client_step c c'"

abbreviation client_steps :: "client \<Rightarrow> client \<Rightarrow> bool" where
  "client_steps \<equiv> client_step\<^sup>*\<^sup>*"

definition new_client :: client where
  "new_client = \<lparr>process_up = False, message_id = 0, pending_requests = [], next_queue = 0,
     response_queues = (\<lambda>q. []), sent = [], waits = [], faults = []\<rparr>"

section \<open>Operations are sequences of steps\<close>

lemma send_message_steps: "client_steps c (fst (send_message m c))"
proof -
  have "\<exists>ms fs. fst (send_message m c) = c\<lparr>sent := sent c @ ms, faults := fs\<rparr>"
  proof (cases "snd (send_message m c) = Inr ()")
    case True
    then show ?thesis
      by (intro exI [of _ "[m]"] exI [of _ "tl (faults c)"])
        (auto simp: send_message_def split: if_splits list.splits option.splits)
  next
    case False
    then show ?thesis
      by (intro exI [of _ "[]"] exI [of _ "if process_up c then tl (faults c) else faults c"])
        (auto simp: send_message_def split: if_splits list.splits option.splits)
  qed
  then show ?thesis using client_step.written by (metis r_into_rtranclp)
qed

lemma await_reply_steps: "client_steps c (fst (await_reply c))"
  using client_step.wait [of c "tl (waits c)"] by (cases "waits c") (auto simp: await_reply_def)

lemma expect_steps: "client_steps c (register_pending i (snd (fresh_queue c)) (fst (fresh_queue c)))"
  by (intro r_into_rtranclp client_step.expect) simp

lemma request_steps: "client_steps c (fst (request meth params i c))"
proof -
  let ?c1 = "register_pending i (snd (fresh_queue c)) (fst (fresh_queue c))"
  obtain c2 s where s: "send_message (Request i meth params) ?c1 = (c2, s)" by fastforce
  obtain c3 w where w: "await_reply c2 = (c3, w)" by fastforce
  have 2: "client_steps c c2"
    using rtranclp_trans [OF expect_steps [of c i] send_message_steps [of ?c1 "Request i meth params"]] s by simp
  have "client_steps c c3" using rtranclp_trans [OF 2 await_reply_steps [of c2]] w by simp
  then have 3: "client_steps c (drop_pending i c3)" by (rule rtranclp.rtrancl_into_rtrancl) (rule client_step.forget)
  have f: "fresh_queue c = (fst (fresh_queue c), snd (fresh_queue c))" by simp
  show ?thesis
  proof (cases s)
    case (Inl e)
    with f s have "fst (request meth params i c) = c2" by (simp add: request_def Let_def case_prod_beta)
    with 2 show ?thesis by simp
  next
    case (Inr u)
    with f s w have "fst (request meth params i c) = drop_pending i c3" by (simp add: request_def Let_def case_prod_beta)
    with 3 show ?thesis by simp
  qed
qed

lemma connect_steps: "client_steps c (fst (connect_session s c))"
proof -
  let ?c1 = "fst (next_id c)"
  have "client_steps c ?c1" by (intro r_into_rtranclp client_step.identify)
  moreover have "client_steps ?c1 (fst (connect_session s c))"
    using request_steps [of ?c1 "''$/lean/rpc/connect''" "JObj [(''uri'', JStr (s_uri s))]" "message_id c + 1"]
    by (simp add: connect_session_def next_id_def case_prod_beta)
  ultimately show ?thesis by (rule rtranclp_trans)
qed

lemma establish_steps: "establish s c = (s', c', r) \<Longrightarrow> client_steps c c'"
  using connect_steps [of c s] by (auto simp: establish_def split: prod.splits sum.splits)

lemma ensure_connected_steps: "ensure_connected s c = (s', c', r) \<Longrightarrow> client_steps c c'"
  by (auto simp: ensure_connected_def dest: establish_steps split: if_splits)

lemma rpc_call_once_steps:
  assumes "rpc_call_once jl meth params pos timeout t s c = (s', c', r)"
  shows "client_steps c c'"
proof (cases "session_id s")
  case None
  with assms show ?thesis by (simp add: rpc_call_once_def)
next
  case (Some sid)
  let ?c1 = "fst (next_id c)"
  let ?i = "message_id c + 1"
  let ?c2 = "register_pending ?i (snd (fresh_queue ?c1)) (fst (fresh_queue ?c1))"
  let ?m = "RpcCall ?i (s_uri s) pos sid meth params"
  obtain c3 w where w: "send_message ?m ?c2 = (c3, w)" by fastforce
  obtain c5 q where q: "await_reply c3 = (c5, q)" by fastforce
  have "client_steps c ?c1" by (intro r_into_rtranclp client_step.identify)
  then have 3: "client_steps c c3"
    using rtranclp_trans [OF rtranclp_trans [OF _ expect_steps [of ?c1 ?i]] send_message_steps [of ?c2 ?m]] w by simp
  then have 5: "client_steps c c5" using rtranclp_trans [OF _ await_reply_steps [of c3]] q by simp
  have "c' = drop_pending ?i c3 \<or> c' = drop_pending ?i c5"
    using assms Some w q by (auto simp: rpc_call_once_def next_id_def Let_def split: prod.splits sum.splits)
  with 3 5 client_step.forget show ?thesis by (auto intro: rtranclp.rtrancl_into_rtrancl)
qed

lemma rpc_call_steps:
  assumes "rpc_call jl meth params pos timeout retry t s c = (s', c', r)"
  shows "client_steps c c'"
proof (cases pos)
  case None
  with assms show ?thesis by (simp add: rpc_call_def)
next
  case (Some p)
  obtain s1 c1 r1 where 1: "ensure_connected s c = (s1, c1, r1)" by (metis prod_cases3)
  obtain s2 c2 r2 where 2: "rpc_call_once jl meth params p timeout t s1 c1 = (s2, c2, r2)" by (metis prod_cases3)
  obtain s3 c3 r3 where 3: "reconnect (invalidate s2) c2 = (s3, c3, r3)" by (metis prod_cases3)
  obtain s4 c4 r4 where 4: "rpc_call_once jl meth params p timeout t s3 c3 = (s4, c4, r4)" by (metis prod_cases3)
  have a: "client_steps c c1" by (rule ensure_connected_steps [OF 1])
  have b: "client_steps c c2" using a rpc_call_once_steps [OF 2] by (rule rtranclp_trans)
  have d: "client_steps c c3" using b establish_steps [OF 3 [unfolded reconnect_def]] by (rule rtranclp_trans)
  have e: "client_steps c c4" using d rpc_call_once_steps [OF 4] by (rule rtranclp_trans)
  from assms Some 1 2 3 4 a b d e show ?thesis by (auto simp: rpc_call_def split: sum.splits if_splits)
qed

section \<open>Tasks are sequences of steps\<close>

text \<open>An operation of a worker acts on the client by steps and keeps the document it is responsible for.\<close>

definition steps_op :: "'a wop \<Rightarrow> bool" where
  "steps_op f \<longleftrightarrow> (\<forall>w c w' c' r. f (w, c) = ((w', c'), r) \<longrightarrow>
      client_steps c c' \<and> doc_uri (w_doc w') = doc_uri (w_doc w))"

lemma steps_opD: "steps_op f \<Longrightarrow> f (w, c) = ((w', c'), r) \<Longrightarrow> client_steps c c' \<and> doc_uri (w_doc w') = doc_uri (w_doc w)"
  unfolding steps_op_def by blast

lemma steps_return: "steps_op (return_op x)"
  by (auto simp: steps_op_def return_op_def)

lemma steps_raise: "steps_op (\<lambda>st. (st, Inl e))"
  by (auto simp: steps_op_def)

lemma steps_bind:
  assumes "steps_op f" and "\<And>x. steps_op (g x)"
  shows "steps_op (bind_op f g)"
  unfolding steps_op_def
proof (intro allI impI)
  fix w c w' c' r
  assume e: "bind_op f g (w, c) = ((w', c'), r)"
  obtain w1 c1 r1 where f: "f (w, c) = ((w1, c1), r1)" by (metis prod.exhaust)
  note F = steps_opD [OF assms(1) f]
  show "client_steps c c' \<and> doc_uri (w_doc w') = doc_uri (w_doc w)"
  proof (cases r1)
    case (Inl x)
    with e f F show ?thesis by (simp add: bind_op_def)
  next
    case (Inr x)
    with e f have "g x (w1, c1) = ((w', c'), r)" by (simp add: bind_op_def)
    from steps_opD [OF assms(2) this] F show ?thesis by (auto intro: rtranclp_trans)
  qed
qed

lemma steps_state_bind: "(\<And>st. steps_op (g st)) \<Longrightarrow> steps_op (\<lambda>st. g st st)"
  unfolding steps_op_def by blast

lemma steps_on_doc:
  assumes "\<And>d. doc_uri (fst (f d)) = doc_uri d"
  shows "steps_op (on_doc f)"
  unfolding steps_op_def
proof (intro allI impI)
  fix w c w' c' r
  assume e: "on_doc f (w, c) = ((w', c'), r)"
  let ?d = "(w_doc w)\<lparr>write_faults := if process_up c then faults c else [no_process, no_process]\<rparr>"
  obtain d' r' where d': "f ?d = (d', r')" by fastforce
  have "doc_uri d' = doc_uri (w_doc w)" using assms [of ?d] d' by simp
  moreover have "\<exists>ms fs. c' = c\<lparr>sent := sent c @ ms, faults := fs\<rparr>" and "w_doc w' = d'"
    using e d' by (auto simp: on_doc_def Let_def)
  ultimately show "client_steps c c' \<and> doc_uri (w_doc w') = doc_uri (w_doc w)"
    using client_step.written by (metis r_into_rtranclp)
qed

lemma cancel_change_uri: "doc_uri (fst (cancel_change rng timeout d)) = doc_uri d"
proof -
  let ?p = "change_params (doc_uri d) (version d + 1) rng (JStr [])"
  obtain d2 w where w: "doc_notify ''textDocument/didChange'' ?p (d\<lparr>version := version d + 1\<rparr>) = (d2, w)" by fastforce
  have "doc_uri d2 = doc_uri d"
    using doc_notify_frame(1) [of "''textDocument/didChange''" ?p "d\<lparr>version := version d + 1\<rparr>"] w by simp
  with w show ?thesis by (simp add: cancel_change_def get_next_version_def split: sum.split)
qed

lemma didchange_uri: "doc_uri (fst (didchange t rng timeout d)) = doc_uri d"
proof -
  define rg where "rg = (if rng = JObj [] then full_range else rng)"
  let ?d1 = "d\<lparr>version := version d + 1\<rparr>"
  obtain d2 w where w: "doc_notify ''textDocument/didChange'' (change_params (doc_uri d) (version d + 1) rg t) ?d1 = (d2, w)"
    by fastforce
  have u: "doc_uri d2 = doc_uri d"
    using doc_notify_frame(1) [of "''textDocument/didChange''" "change_params (doc_uri d) (version d + 1) rg t" ?d1] w by simp
  obtain en t1 rest where en: "change_loop (clock d2 + timeout) (version d + 1) 0 None (clock d2) (inbox d2) = (en, t1, rest)"
    by (metis prod_cases3)
  show ?thesis
    using w u en cancel_change_uri [of rg timeout "d2\<lparr>clock := t1, inbox := rest\<rparr>"]
    by (simp add: didchange_def Let_def get_next_version_def rg_def [symmetric] split: sum.split change_end.split)
qed

lemma steps_change: "steps_op (change t rng)"
  unfolding change_def by (rule steps_on_doc) (rule didchange_uri)

lemma steps_submit_lsp: "steps_op (submit_lsp meth params)"
  unfolding steps_op_def
proof (intro allI impI)
  fix w c w' c' r
  assume "submit_lsp meth params (w, c) = ((w', c'), r)"
  then have "c' = fst (request meth params (worker_id w + 1000) c)" "w' = w"
    by (auto simp: submit_lsp_def case_prod_beta)
  with request_steps show "client_steps c c' \<and> doc_uri (w_doc w') = doc_uri (w_doc w)" by simp
qed

lemma steps_submit_rpc: "steps_op (submit_rpc jl pos meth params)"
  unfolding steps_op_def submit_rpc_def by (auto dest: rpc_call_steps split: prod.splits)

lemma steps_get_diagnostics: "steps_op (get_diagnostics t rng)"
  unfolding get_diagnostics_def by (intro steps_bind steps_change steps_return)

lemma steps_change_then_rpc: "steps_op (change_then_rpc jl t rng meth params)"
  unfolding change_then_rpc_def by (intro steps_bind steps_change steps_submit_rpc steps_return)

lemma steps_get_proof_goal: "steps_op (get_proof_goal t rng pos)"
  unfolding get_proof_goal_def
  by (rule steps_bind [OF steps_change], rule steps_state_bind, rule steps_bind [OF steps_submit_lsp], rule steps_return)

lemma steps_echo: "steps_op (echo jl m)"
  unfolding echo_def by (rule steps_state_bind) (rule steps_submit_rpc)

lemmas steps_methods = steps_get_diagnostics steps_change_then_rpc steps_get_proof_goal steps_echo

lemma steps_apply_method: "steps_op (apply_method jl t args)"
  unfolding apply_method_def extract_declarations_def search_declarations_def declaration_axioms_def
  by (simp add: steps_methods steps_submit_rpc steps_raise split: option.split)

lemma steps_process_task: "steps_op (process_task jl t kw)"
proof (cases "method_params t")
  case None
  then show ?thesis by (simp add: process_task_def steps_raise)
next
  case (Some params)
  then show ?thesis by (cases "bind_args params kw") (simp_all add: process_task_def steps_raise steps_apply_method)
qed

text \<open>
  Every task is an interleaving-safe sequence of steps. Whatever operation a task names and whatever the
  server answers, its effect on the shared client is a sequence of the atomic steps, and it leaves the
  thread's own bookkeeping and the identity of its document alone; so what is invariant under steps is not
  harmed by running tasks, in any number of threads.
\<close>
theorem tasks_are_step_sequences:
  assumes "process_task jl t kw (w, c) = ((w', c'), r)"
  shows "client_steps c c' \<and> same_thread w w' \<and> doc_uri (w_doc w') = doc_uri (w_doc w)"
  using steps_opD [OF steps_process_task assms] sound_opD(1) [OF sound_process_task assms] by blast

theorem tasks_are_step_sequences_witness:
  "client_steps demo_server (snd (fst (process_task (\<lambda>t. None) ''changecontent'' demo_kwargs (demo_worker, demo_server))))"
proof -
  obtain w' c' r where p: "process_task (\<lambda>t. None) ''changecontent'' demo_kwargs (demo_worker, demo_server) = ((w', c'), r)"
    by (metis prod.exhaust)
  from tasks_are_step_sequences [OF p] p show ?thesis by simp
qed

section \<open>Response queues are never shared\<close>

definition client_ok :: "client \<Rightarrow> bool" where
  "client_ok c \<longleftrightarrow> dict_ok (pending_requests c) \<and> distinct (map snd (pending_requests c))
     \<and> (\<forall>q \<in> set (map snd (pending_requests c)). q < next_queue c)"

lemma set_snd_dict_set: "set (map snd (dict_set i q d)) \<subseteq> insert q (set (map snd d))"
  using set_dict_set_subset [of i q d] by force

lemma distinct_snd_dict_set: "distinct (map snd d) \<Longrightarrow> q \<notin> set (map snd d) \<Longrightarrow> distinct (map snd (dict_set i q d))"
proof (induction i q d rule: dict_set.induct)
  case (2 k v k' w d)
  then show ?case using set_snd_dict_set [of k v d] by (auto simp del: set_map)
qed simp

lemma distinct_snd_dict_pop: "distinct (map snd d) \<Longrightarrow> distinct (map snd (dict_pop i d))"
proof (induction i d rule: dict_pop.induct)
  case (2 k k' v d)
  then show ?case using set_dict_pop_subset [of k d] by force
qed simp

lemma client_step_ok: "client_step c c' \<Longrightarrow> client_ok c \<Longrightarrow> client_ok c'"
proof (induction rule: client_step.induct)
  case (expect c c1 q i)
  then have q: "q = next_queue c" "pending_requests c1 = pending_requests c" "next_queue c1 = Suc (next_queue c)"
    by (auto simp: fresh_queue_def)
  then have "q \<notin> set (map snd (pending_requests c))" using expect.prems by (auto simp: client_ok_def)
  with q expect.prems set_snd_dict_set [of i q "pending_requests c"] show ?case
    by (fastforce simp: client_ok_def register_pending_def dict_ok_set distinct_snd_dict_set)
next
  case (respond msg_id data c c' r)
  then have "pending_requests c' = pending_requests c \<and> next_queue c' = next_queue c"
    by (auto simp: deliver_response_def split: sum.splits option.splits)
  with respond.prems show ?case by (simp add: client_ok_def)
next
  case (forget c i)
  then show ?case using set_dict_pop_subset [of i "pending_requests c"]
    by (fastforce simp: client_ok_def drop_pending_def dict_ok_pop distinct_snd_dict_pop)
qed (auto simp: client_ok_def next_id_def wake_pending_def)

lemma client_steps_ok: "client_steps c c' \<Longrightarrow> client_ok c \<Longrightarrow> client_ok c'"
  by (induction rule: rtranclp_induct) (auto dest: client_step_ok)

lemma new_client_ok: "client_ok new_client"
  by (simp add: client_ok_def new_client_def)

lemma client_ok_unshared:
  assumes "client_ok c" and "dict_get (pending_requests c) i = Some q" and "dict_get (pending_requests c) j = Some q"
  shows "i = j"
proof -
  from assms(2,3) have "(i, q) \<in> set (pending_requests c)" "(j, q) \<in> set (pending_requests c)" by (simp_all add: dict_get_in)
  moreover have "inj_on snd (set (pending_requests c))" using assms(1) by (simp add: client_ok_def distinct_map)
  ultimately have "(i, q) = (j, q)" by (auto dest: inj_onD [of snd _ "(i, q)" "(j, q)"])
  then show ?thesis by simp
qed

text \<open>
  C14: An answer reaches the caller who is registered under its identifier, and nobody else. In every state
  that the threads can reach, a response with identifier \<open>i\<close> is put on the queue registered last under \<open>i\<close>,
  no other queue changes, and no other identifier is served by that queue; a response nobody waits for
  changes nothing.
\<close>
theorem response_reaches_its_request:
  assumes "client_steps new_client c" and "deliver_response (JInt i) data c = (c', r)"
  shows "r = Inr () \<and>
    (case dict_get (pending_requests c) i of
       None \<Rightarrow> c' = c
     | Some q \<Rightarrow> response_queues c' = (response_queues c)(q := response_queues c q @ [Response data])
         \<and> (\<nexists>j. j \<noteq> i \<and> dict_get (pending_requests c) j = Some q))"
proof -
  have "client_ok c" using client_steps_ok [OF assms(1) new_client_ok] .
  with client_ok_unshared show ?thesis
    using assms(2) by (auto simp: deliver_response_def int_key_def q_put_def split: option.splits)
qed

theorem response_reaches_its_request_witness:
  "response_queues (fst (deliver_response (JInt 1) JNull (fst (next_id (register_pending 1 0 (fst (fresh_queue new_client))))))) 0
     = [Response JNull]"
proof -
  let ?c = "fst (next_id (register_pending 1 0 (fst (fresh_queue new_client))))"
  have "client_step new_client (register_pending 1 0 (fst (fresh_queue new_client)))"
    by (rule client_step.expect) (simp add: fresh_queue_def new_client_def)
  then have c: "client_steps new_client ?c"
    using client_step.identify by (rule rtranclp.rtrancl_into_rtrancl [OF r_into_rtranclp])
  obtain c' r where d: "deliver_response (JInt 1) JNull ?c = (c', r)" by fastforce
  have p: "dict_get (pending_requests ?c) 1 = Some 0" "response_queues ?c 0 = []"
    by (simp_all add: next_id_def register_pending_def fresh_queue_def new_client_def)
  from response_reaches_its_request [OF c d] p d show ?thesis by simp
qed

end
