(* ===== verification/Wire.thy ===== *)
theory Wire imports Events Json begin

text \<open>
  The byte stream to and from the server (\<open>_make_lsp_message\<close>, \<open>_read_exact\<close>, \<open>_read_message\<close>,
  \<open>_read_stdout\<close>, \<open>_read_stderr\<close>, \<open>_sanitize_for_terminal\<close> of \<open>pyleaner/client.py\<close>). A character stands for
  a byte, and for the code point below 256 of the same number. The pipe is the list of the chunks that its
  reads will return; an empty chunk, or the end of the list, is its end. Decoding never raises (undecodable
  bytes are replaced) and is the identity on ASCII; header fields are compared with ASCII text only, so it
  is left out.
\<close>

section \<open>Writing\<close>

definition crlf :: string where
  "crlf = [CHR 0x0D, CHR 0x0A]"

text \<open>\<open>dumps\<close> is \<open>json.dumps\<close>. The length is that of the text, not of its encoding.\<close>

definition make_lsp_message :: "('p \<Rightarrow> string) \<Rightarrow> 'p \<Rightarrow> string" where
  "make_lsp_message dumps payload =
     utf8 (''Content-Length: '' @ show_nat (length (dumps payload)) @ crlf @ crlf @ dumps payload)"

section \<open>Reading\<close>

text \<open>One byte; \<open>None\<close> at the end of the stream.\<close>

fun read_byte :: "string list \<Rightarrow> (char \<times> string list) option" where
  "read_byte [] = None"
| "read_byte ([] # cs) = None"
| "read_byte ((b # bs) # cs) = Some (b, if bs = [] then cs else bs # cs)"

text \<open>\<open>readinto\<close> takes what the next chunk has, at most what is wanted.\<close>

fun read_exact :: "nat \<Rightarrow> string list \<Rightarrow> exn + (string \<times> string list)" where
  "read_exact n [] = (if n = 0 then Inr ([], []) else Inl (EOFError ''unexpected EOF''))"
| "read_exact n (c # cs) =
     (if n = 0 then Inr ([], c # cs)
      else if c = [] then Inl (EOFError ''unexpected EOF'')
      else if n < length c then Inr (take n c, drop n c # cs)
      else (case read_exact (n - length c) cs of
              Inl e \<Rightarrow> Inl e
            | Inr (bs, rest) \<Rightarrow> Inr (c @ bs, rest)))"

definition header_done :: "string \<Rightarrow> bool" where
  "header_done h \<longleftrightarrow> 4 \<le> length h \<and> drop (length h - 4) h = crlf @ crlf"

lemma read_byte_size: "read_byte s = Some (b, s') \<Longrightarrow> length (concat s') < length (concat s)"
  by (cases s rule: read_byte.cases) (auto split: if_splits)

function read_header :: "string \<Rightarrow> string list \<Rightarrow> exn + (string \<times> string list)" where
  "read_header h s =
     (if header_done h then Inr (h, s)
      else (case read_byte s of
              None \<Rightarrow> Inl (EOFError ''unexpected EOF while reading header'')
            | Some (b, s') \<Rightarrow>
                if 8192 < length h + 1 then Inl (ValueError ''header too long'')
                else read_header (h @ [b]) s'))"
  by auto

termination
  by (relation "measure (\<lambda>(h, s). length (concat s))") (auto dest: read_byte_size simp del: length_concat)

declare read_header.simps [simp del]

text \<open>What precedes the first occurrence of a separator, and what follows it if there is one.\<close>

fun cut_at :: "string \<Rightarrow> string \<Rightarrow> string \<times> string option" where
  "cut_at sep [] = ([], None)"
| "cut_at sep (c # cs) =
     (if prefix_of sep (c # cs) then ([], Some (drop (length sep) (c # cs)))
      else (case cut_at sep cs of (a, r) \<Rightarrow> (c # a, r)))"

definition content_length :: "string \<Rightarrow> exn + int" where
  "content_length h =
     (case snd (cut_at ''Content-Length: '' h) of
        None \<Rightarrow> Inl (ValueError ''missing Content-Length in header'')
      | Some after \<Rightarrow>
          (case py_int (fst (cut_at crlf (fst (cut_at ''Content-Length: '' after)))) of
             None \<Rightarrow> Inl (ValueError ''invalid Content-Length'')
           | Some n \<Rightarrow> Inr n))"

definition read_message :: "string list \<Rightarrow> exn + (string \<times> string list)" where
  "read_message s =
     (case read_header [] s of
        Inl e \<Rightarrow> Inl e
      | Inr (h, s') \<Rightarrow>
          (case content_length h of
             Inl e \<Rightarrow> Inl e
           | Inr n \<Rightarrow> if n < 0 then Inl (ValueError ''negative count'') else read_exact (nat n) s'))"

text \<open>
  \<open>_read_stdout\<close>, for at most \<open>k\<close> messages: what is handed to \<open>_handle_message\<close> (an empty text is not), and the
  exception that ended the loop, if one did.
\<close>

fun read_stdout :: "nat \<Rightarrow> string list \<Rightarrow> string list \<times> exn option" where
  "read_stdout 0 s = ([], None)"
| "read_stdout (Suc k) s =
     (case read_message s of
        Inl e \<Rightarrow> ([], Some e)
      | Inr (m, s') \<Rightarrow> (case read_stdout k s' of (ms, e) \<Rightarrow> (if m = [] then ms else m # ms, e)))"

section \<open>The error stream\<close>

definition sanitize_char :: "char \<Rightarrow> string" where
  "sanitize_char c = (let n = (of_char c :: nat) in
     if n < 32 \<and> n \<notin> {9, 10, 13} then [CHR 0x5C, CHR ''x'', hex_digit (n div 16), hex_digit (n mod 16)] else [c])"

definition sanitize_for_terminal :: "string \<Rightarrow> string" where
  "sanitize_for_terminal s = concat (map sanitize_char s)"

definition fatal_line :: "string \<Rightarrow> bool" where
  "fatal_line l \<longleftrightarrow> substring ''INTERNAL PANIC'' l \<or> substring ''Stack overflow detected'' l
     \<or> substring ''out of memory'' l \<or> substring ''memory allocation of'' l"

text \<open>One line of the error stream: sanitized, printed, and reported to the monitor if it is fatal.\<close>

definition py_rstrip :: "string \<Rightarrow> string" where
  "py_rstrip s = rev (dropWhile is_space (rev s))"

definition read_stderr_line :: "string \<Rightarrow> io \<Rightarrow> io" where
  "read_stderr_line l w =
     (if l = [] then w
      else (let t = sanitize_for_terminal (py_rstrip l) in if fatal_line t then flag_fatal t w else w))"

section \<open>Framing\<close>

lemma utf8_ascii: "\<forall>c \<in> set s. (of_char c :: nat) < 128 \<Longrightarrow> utf8 s = s"
  by (induction s) (auto simp: utf8_def utf8_char_def)

definition solid :: "string list \<Rightarrow> bool" where
  "solid s \<longleftrightarrow> [] \<notin> set s"

lemma read_byte_solid:
  assumes "solid s" and "concat s = b # bs"
  shows "\<exists>s'. read_byte s = Some (b, s') \<and> solid s' \<and> concat s' = bs"
  using assms by (cases s rule: read_byte.cases) (auto simp: solid_def)

lemma read_exact_solid:
  "solid s \<Longrightarrow> concat s = m @ rest \<Longrightarrow> \<exists>s'. read_exact (length m) s = Inr (m, s') \<and> solid s' \<and> concat s' = rest"
proof (induction s arbitrary: m)
  case (Cons c cs)
  have c: "c \<noteq> []" "solid cs" using Cons.prems(1) by (auto simp: solid_def)
  have e: "c @ concat cs = m @ rest" using Cons.prems(2) by simp
  show ?case
  proof (cases "length m < length c")
    case True
    then obtain d where d: "c = m @ d" "rest = d @ concat cs" "d \<noteq> []"
      using e by (auto simp: append_eq_append_conv2)
    show ?thesis
    proof (cases "m = []")
      case True
      with d c show ?thesis by (auto simp: solid_def)
    next
      case False
      with d c show ?thesis by (auto simp: solid_def)
    qed
  next
    case False
    then obtain d where d: "m = c @ d" "concat cs = d @ rest"
      using e by (auto simp: append_eq_append_conv2)
    from Cons.IH [OF c(2) d(2)] c(1) d(1) show ?thesis by auto
  qed
qed (simp add: solid_def)

lemma header_done_iff: "header_done h \<longleftrightarrow> (\<exists>q. h = q @ crlf @ crlf)"
proof
  assume "header_done h"
  then have "h = take (length h - 4) h @ crlf @ crlf" by (metis header_done_def append_take_drop_id)
  then show "\<exists>q. h = q @ crlf @ crlf" by blast
qed (auto simp: header_done_def crlf_def)

text \<open>A line without a carriage return is not ended before its own blank line.\<close>

lemma header_not_done:
  assumes "CHR 0x0D \<notin> set line" and "p @ s = line @ crlf @ crlf" and "s \<noteq> []"
  shows "\<not> header_done p"
proof
  assume "header_done p"
  then obtain q where q: "p = q @ crlf @ crlf" by (auto simp: header_done_iff)
  have "length q < length line"
    using arg_cong [OF assms(2), of length] assms(3) by (cases s) (auto simp: q crlf_def)
  moreover have "q @ CHR 0x0D # (CHR 0x0A # crlf @ s) = line @ crlf @ crlf"
    using assms(2) by (simp add: q crlf_def)
  ultimately have "line ! length q = CHR 0x0D"
    by (metis nth_append nth_append_length)
  with \<open>length q < length line\<close> assms(1) show False by (metis nth_mem)
qed

lemma read_header_solid:
  assumes "CHR 0x0D \<notin> set line" and "length line \<le> 8000"
  shows "p @ t = line @ crlf @ crlf \<Longrightarrow> solid s \<Longrightarrow> concat s = t @ rest \<Longrightarrow>
    \<exists>s'. read_header p s = Inr (line @ crlf @ crlf, s') \<and> solid s' \<and> concat s' = rest"
proof (induction t arbitrary: p s)
  case Nil
  then have "header_done p" by (auto simp: header_done_iff)
  with Nil show ?case by (subst read_header.simps) auto
next
  case (Cons b t)
  have nd: "\<not> header_done p" using header_not_done [OF assms(1) Cons.prems(1)] by simp
  from read_byte_solid [OF Cons.prems(2)] Cons.prems(3) obtain s' where
    s': "read_byte s = Some (b, s')" "solid s'" "concat s' = t @ rest" by auto
  have "length p + length (b # t) = length line + 4"
    using arg_cong [OF Cons.prems(1), of length] by (simp add: crlf_def)
  then have "length p + 1 \<le> 8192" using assms(2) by simp
  moreover from Cons.IH [of "p @ [b]" s'] Cons.prems(1) s' obtain s'' where
    "read_header (p @ [b]) s' = Inr (line @ crlf @ crlf, s'')" "solid s''" "concat s'' = rest" by auto
  ultimately show ?case using nd s'(1) by (subst read_header.simps) auto
qed

lemma cut_at_none: "x \<notin> set s \<Longrightarrow> cut_at (x # sep) s = (s, None)"
  by (induction s) (auto simp: prefix_of_def)

lemma cut_at_first: "x \<notin> set a \<Longrightarrow> cut_at (x # sep) (a @ (x # sep) @ b) = (a, Some b)"
proof (induction a)
  case (Cons y a)
  then show ?case by (auto simp: prefix_of_def)
qed (simp add: prefix_of_def)

lemma show_nat_char_neq: "c \<in> set (show_nat n) \<Longrightarrow> c \<noteq> CHR ''C'' \<and> c \<noteq> CHR 0x0D"
  using show_nat_chars [of c n] by auto

lemma content_length_header:
  "content_length ((''Content-Length: '' @ show_nat n) @ crlf @ crlf) = Inr (int n)"
proof -
  have d: "CHR ''C'' \<notin> set (show_nat n @ crlf @ crlf)" "CHR 0x0D \<notin> set (show_nat n)"
    using show_nat_char_neq [of _ n] by (auto simp: crlf_def)
  have "cut_at ''Content-Length: '' ([] @ ''Content-Length: '' @ (show_nat n @ crlf @ crlf)) = ([], Some (show_nat n @ crlf @ crlf))"
    by (rule cut_at_first) simp
  moreover have "cut_at ''Content-Length: '' (show_nat n @ crlf @ crlf) = (show_nat n @ crlf @ crlf, None)"
    by (rule cut_at_none [OF d(1)])
  moreover have "cut_at crlf (show_nat n @ crlf @ crlf) = (show_nat n, Some crlf)"
    using cut_at_first [OF d(2), of "[CHR 0x0A]" crlf] by (simp add: crlf_def)
  ultimately show ?thesis by (simp add: content_length_def py_int_show_nat)
qed

lemma show_nat_length: "0 < k \<Longrightarrow> n < 10 ^ k \<Longrightarrow> length (show_nat n) \<le> k"
proof (induction k arbitrary: n)
  case (Suc k)
  show ?case
  proof (cases "n < 10")
    case True
    then show ?thesis by (subst show_nat.simps) simp
  next
    case False
    then have k: "0 < k" using Suc.prems(2) by (cases k) auto
    have "n div 10 < 10 ^ k" using Suc.prems(2) by (simp add: less_mult_imp_div_less mult.commute)
    from Suc.IH [OF k this] False show ?thesis by (subst show_nat.simps) simp
  qed
qed simp

lemma read_message_framed:
  assumes "\<forall>c \<in> set (dumps x). (of_char c :: nat) < 128" and "length (dumps x) < 10 ^ 100"
    and "solid s" and "concat s = make_lsp_message dumps x @ rest"
  shows "\<exists>s'. read_message s = Inr (dumps x, s') \<and> solid s' \<and> concat s' = rest"
proof -
  let ?line = "''Content-Length: '' @ show_nat (length (dumps x))"
  have a: "\<forall>c \<in> set (?line @ crlf @ crlf @ dumps x). (of_char c :: nat) < 128"
    using assms(1) show_nat_chars [of _ "length (dumps x)"] by (force simp: crlf_def)
  have "concat s = (?line @ crlf @ crlf) @ dumps x @ rest"
    using assms(4) utf8_ascii [OF a] by (simp add: make_lsp_message_def)
  moreover have "CHR 0x0D \<notin> set ?line" using show_nat_char_neq [of _ "length (dumps x)"] by auto
  moreover have "length ?line \<le> 8000" using show_nat_length [OF _ assms(2)] by simp
  ultimately obtain s1 where
    s1: "read_header [] s = Inr (?line @ crlf @ crlf, s1)" "solid s1" "concat s1 = dumps x @ rest"
    using read_header_solid [of ?line "[]" "?line @ crlf @ crlf" s "dumps x @ rest"] assms(3) by auto
  from read_exact_solid [OF s1(2,3)] obtain s' where
    "read_exact (length (dumps x)) s1 = Inr (dumps x, s')" "solid s'" "concat s' = rest" by auto
  with s1(1) content_length_header [of "length (dumps x)"] show ?thesis
    by (simp add: read_message_def)
qed

text \<open>
  C29: Framing is lossless. Messages written one after the other by \<open>_make_lsp_message\<close> are read back as the
  same texts in the same order, however the pipe cuts the bytes into chunks, as long as their texts are
  ASCII, which is what \<open>json.dumps\<close> produces.
\<close>
theorem framing_round_trip:
  assumes "\<forall>x \<in> set xs. dumps x \<noteq> [] \<and> (\<forall>c \<in> set (dumps x). (of_char c :: nat) < 128) \<and> length (dumps x) < 10 ^ 100"
    and "[] \<notin> set s" and "concat s = concat (map (make_lsp_message dumps) xs)"
  shows "read_stdout (length xs) s = (map dumps xs, None)"
proof -
  have "solid s \<Longrightarrow> concat s = concat (map (make_lsp_message dumps) xs) \<Longrightarrow>
      read_stdout (length xs) s = (map dumps xs, None)"
    using assms(1)
  proof (induction xs arbitrary: s)
    case (Cons x xs)
    have "concat s = make_lsp_message dumps x @ concat (map (make_lsp_message dumps) xs)" using Cons.prems(2) by simp
    with read_message_framed [OF _ _ Cons.prems(1) this] Cons.prems(3) obtain s' where
      "read_message s = Inr (dumps x, s')" "solid s'" "concat s' = concat (map (make_lsp_message dumps) xs)" by auto
    with Cons.IH [of s'] Cons.prems(3) show ?case by simp
  qed simp
  with assms(2,3) show ?thesis by (simp add: solid_def)
qed

theorem framing_round_trip_witness:
  "read_stdout (length [''{}'', ''[1]'']) [concat (map (make_lsp_message id) [''{}'', ''[1]''])] = ([''{}'', ''[1]''], None)"
proof -
  have "(2::nat) < 10 ^ 100" "(3::nat) < 10 ^ 100" by simp_all
  then have "\<forall>x \<in> set [''{}'', ''[1]'']. id x \<noteq> [] \<and> (\<forall>c \<in> set (id x). (of_char c :: nat) < 128) \<and> length (id x) < 10 ^ 100"
    by simp
  moreover have "[] \<notin> set [concat (map (make_lsp_message id) [''{}'', ''[1]''])]"
    by (simp add: make_lsp_message_def utf8_def utf8_char_def)
  ultimately have "read_stdout (length [''{}'', ''[1]'']) [concat (map (make_lsp_message id) [''{}'', ''[1]''])]
      = (map id [''{}'', ''[1]''], None)"
    by (rule framing_round_trip) (simp only: concat.simps append_Nil2)
  then show ?thesis by (simp only: list.map id_apply)
qed

lemma hex_digit_range: "n < 16 \<Longrightarrow> 48 \<le> (of_char (hex_digit n) :: nat)"
  by (simp add: hex_digit_def of_char_of)

lemma sanitize_char_chars:
  assumes "d \<in> set (sanitize_char c)"
  shows "32 \<le> (of_char d :: nat) \<or> (of_char d :: nat) \<in> {9, 10, 13}"
proof (cases "(of_char c :: nat) < 32 \<and> (of_char c :: nat) \<notin> {9, 10, 13}")
  case True
  then have "(of_char c :: nat) div 16 < 16" "(of_char c :: nat) mod 16 < 16"
    by (simp_all add: div_less_iff_less_mult)
  from this [THEN hex_digit_range] assms True show ?thesis by (auto simp: sanitize_char_def Let_def)
next
  case False
  with assms have "d = c" by (simp add: sanitize_char_def Let_def split: if_splits)
  with False show ?thesis by auto
qed

text \<open>
  What is printed cannot drive the terminal. After sanitizing, no control character is left but tab,
  line feed and carriage return; a text without such characters is printed unchanged.
\<close>
theorem sanitized_has_no_controls:
  "(c \<notin> set (sanitize_for_terminal s) \<or> 32 \<le> (of_char c :: nat) \<or> (of_char c :: nat) \<in> {9, 10, 13})
   \<and> sanitize_for_terminal (sanitize_for_terminal s) = sanitize_for_terminal s"
proof -
  have ok: "\<forall>d \<in> set (sanitize_for_terminal s). 32 \<le> (of_char d :: nat) \<or> (of_char d :: nat) \<in> {9, 10, 13}"
    using sanitize_char_chars by (auto simp: sanitize_for_terminal_def)
  have "sanitize_for_terminal t = t" if "\<forall>d \<in> set t. 32 \<le> (of_char d :: nat) \<or> (of_char d :: nat) \<in> {9, 10, 13}" for t
    using that by (induction t) (auto simp: sanitize_for_terminal_def sanitize_char_def Let_def)
  with ok show ?thesis by blast
qed

end
