(* ===== verification/Shutdown.thy ===== *)
theory Shutdown imports Recovery begin

text \<open>
  The end of a client (\<open>Watchdog.stop\<close> of \<open>pyleaner/watchdog.py\<close>; \<open>start\<close>, \<open>exit\<close> and \<open>_cleanup_lean_processes\<close> of
  \<open>pyleaner/client.py\<close>; the thread of \<open>KeepAliveManager\<close> in \<open>pyleaner/rpc_session.py\<close>). The registry of server
  processes is global to the interpreter; what happens to the monitor process and its last events is an argument. A
  monitor process, where there is one, has been started: \<open>join\<close> raises on one whose start failed.
\<close>

section \<open>Stopping the watchdog\<close>

text \<open>The receiver thread is gone; replacements that it did not accept any more are accepted here.\<close>

fun drain_events :: "io \<Rightarrow> monitor_event list \<Rightarrow> watchdog \<Rightarrow> watchdog" where
  "drain_events w [] d = d"
| "drain_events w (GuardReplaced gen wid old g # es) d = drain_events w es (accept_replacement_guard gen wid old g w d)"
| "drain_events w (e # es) d = drain_events w es d"

text \<open>
  \<open>exits\<close>: the monitor process ends within the wait. The last component says whether it is terminated.
\<close>

definition watchdog_stop :: "bool \<Rightarrow> monitor_event list \<Rightarrow> watchdog \<Rightarrow> io \<Rightarrow> watchdog \<times> io \<times> bool" where
  "watchdog_stop exits pending d w =
     (let w1 = send_command CStop w;
          d1 = d\<lparr>stopping := True\<rparr>;
          d2 = (if monitor_up w then drain_events w1 pending d1 else d1)
      in (stop_worker_scopes d2, w1\<lparr>monitor_up := False\<rparr>, monitor_up w \<and> \<not> exits))"

section \<open>Processes of the interpreter\<close>

record host =
  sys :: system
  registry :: "int list" \<comment> \<open>\<open>_CHILD_ROOT_PIDS\<close>, in some order without repetitions\<close>
  hooks_installed :: bool

definition start_server :: "exn + int \<Rightarrow> host \<Rightarrow> host \<times> (exn + unit)" where
  "start_server popen h =
     (case popen of
        Inl e \<Rightarrow> (h, Inl e)
      | Inr pid \<Rightarrow>
          (h\<lparr>sys := (sys h)\<lparr>server_pid := Some pid, lsp := (lsp (sys h))\<lparr>process_up := True\<rparr>\<rparr>,
             registry := List.insert pid (registry h), hooks_installed := True\<rparr>, Inr ()))"

text \<open>\<open>exit\<close>; \<open>None\<close> when collecting the process tree never ends.\<close>

definition client_exit :: "bool \<Rightarrow> monitor_event list \<Rightarrow> os_view \<Rightarrow> host \<Rightarrow> (host \<times> (exn + unit)) option" where
  "client_exit exits pending os h =
     (let (d, w, t) = watchdog_stop exits pending (dog (sys h)) (shared (sys h));
          (c, r) = notify ''exit'' (JObj []) (lsp (sys h));
          s1 = (sys h)\<lparr>dog := d, shared := w, lsp := c\<rparr>
      in case r of
           Inl e \<Rightarrow> Some (h\<lparr>sys := s1\<rparr>, Inl e)
         | Inr _ \<Rightarrow>
             (case server_pid s1 of
                None \<Rightarrow> Some (h\<lparr>sys := s1\<rparr>, Inr ())
              | Some pid \<Rightarrow>
                  map_option
                    (\<lambda>acts. (h\<lparr>sys := s1\<lparr>signals := signals s1 @ acts\<rparr>, registry := removeAll pid (registry h)\<rparr>, Inr ()))
                    (kill_process_tree (os\<lparr>os_root := Some pid\<rparr>) {})))"

fun kill_roots :: "(int \<Rightarrow> string option) \<Rightarrow> int list \<Rightarrow> int list option" where
  "kill_roots pgrep [] = Some []"
| "kill_roots pgrep (rt # rts) =
     (case collect_descendants pgrep rt of
        None \<Rightarrow> None
      | Some ds \<Rightarrow> map_option (\<lambda>ks. ds @ rt # ks) (kill_roots pgrep rts))"

text \<open>\<open>_cleanup_lean_processes\<close>: the pids that get a \<open>SIGKILL\<close>, in order; failures to deliver it are ignored.\<close>

definition cleanup_lean_processes ::
  "(int \<Rightarrow> string option) \<Rightarrow> proc_entry list \<Rightarrow> host \<Rightarrow> (host \<times> int list) option" where
  "cleanup_lean_processes pgrep entries h =
     map_option (\<lambda>ks. (h\<lparr>registry := []\<rparr>, ks @ find_orphaned_lean entries)) (kill_roots pgrep (registry h))"

section \<open>The keep-alive thread\<close>

record keep_alive_manager =
  ka_running :: bool
  ka_thread :: bool

definition ka_start :: "keep_alive_manager \<Rightarrow> keep_alive_manager" where
  "ka_start m = (if ka_running m then m else m\<lparr>ka_running := True, ka_thread := True\<rparr>)"

definition ka_stop :: "keep_alive_manager \<Rightarrow> keep_alive_manager" where
  "ka_stop m = m\<lparr>ka_running := False, ka_thread := False\<rparr>"

text \<open>The loop, given the values of \<open>_running\<close> it reads and the times of its rounds.\<close>

fun keep_alive_loop :: "(bool \<times> real) list \<Rightarrow> session list \<Rightarrow> client \<Rightarrow> session list \<times> client" where
  "keep_alive_loop [] ss c = (ss, c)"
| "keep_alive_loop ((running, t) # xs) ss c =
     (if running then (case keep_alive_round t ss c of (ss', c') \<Rightarrow> keep_alive_loop xs ss' c') else (ss, c))"

section \<open>No scope survives\<close>

lemma stop_worker_scopes_stops:
  "set (scopes_stopped (stop_worker_scopes d)) = set (scopes_stopped d) \<union> (g_unit ` snd ` set (worker_scopes d) - {[]})"
  by (simp add: stop_worker_scopes_def frame_simps)

lemma stop_units_stopping [frame_simps]:
  "stopping (fold (\<lambda>(w, g). stop_unit (g_unit g)) gs d) = stopping d"
  by (induction gs arbitrary: d) (simp_all add: stop_unit_frame(6) case_prod_beta)

lemma drain_keeps_stopped: "set (scopes_stopped d) \<subseteq> set (scopes_stopped (drain_events w es d))"
proof (induction w es d rule: drain_events.induct)
  case (2 w gen wid old g es d)
  have "set (scopes_stopped d) \<subseteq> set (scopes_stopped (accept_replacement_guard gen wid old g w d))"
    by (auto simp: accept_replacement_guard_def frame_simps split: option.split)
  with 2 show ?case by auto
qed simp_all

text \<open>What becomes of the scope of guard \<open>g\<close> of worker \<open>i\<close>: it is stopped in the end, or its process was replaced.\<close>

definition settled :: "monitor_event list \<Rightarrow> watchdog \<Rightarrow> int \<Rightarrow> guard \<Rightarrow> bool" where
  "settled es d i g \<longleftrightarrow> g_unit g \<in> set (scopes_stopped (stop_worker_scopes d))
     \<or> (\<exists>gen g'. GuardReplaced gen i (g_pid g) g' \<in> set es)"

lemma owned_settled:
  "dict_get (worker_scopes d) i = Some g \<Longrightarrow> g_unit g \<noteq> [] \<Longrightarrow> settled es (drain_events w es d) i g"
proof (induction w es d rule: drain_events.induct)
  case (1 w d)
  then show ?case by (force simp: settled_def stop_worker_scopes_stops dest: dict_get_in)
next
  case (2 w gen wid old g' es d)
  let ?d = "accept_replacement_guard gen wid old g' w d"
  show ?case
  proof (cases "dict_get (worker_scopes ?d) i = Some g")
    case True
    with 2 show ?thesis by (auto simp: settled_def)
  next
    case False
    with "2.prems"(1) have "i = wid" "g_pid g = old"
      by (auto simp: accept_replacement_guard_def frame_simps dict_simps split: option.splits if_splits)
    then show ?thesis by (auto simp: settled_def)
  qed
qed (auto simp: settled_def)

lemma accepted_settled:
  "GuardReplaced gen i old g \<in> set es \<Longrightarrow> g_unit g \<noteq> [] \<Longrightarrow> settled es (drain_events w es d) i g"
proof (induction w es d rule: drain_events.induct)
  case (2 w gen' wid old' g' es d)
  let ?d = "accept_replacement_guard gen' wid old' g' w d"
  show ?case
  proof (cases "GuardReplaced gen i old g \<in> set es")
    case True
    with 2 show ?thesis by (auto simp: settled_def)
  next
    case False
    with "2.prems" have e: "gen' = gen" "wid = i" "old' = old" "g' = g" by auto
    have "dict_get (worker_scopes ?d) i = Some g \<or> g_unit g \<in> set (scopes_stopped ?d)"
      unfolding e using "2.prems"(2)
      by (auto simp: accept_replacement_guard_def frame_simps dict_simps split: option.splits)
    then show ?thesis
    proof
      assume "dict_get (worker_scopes ?d) i = Some g"
      from owned_settled [OF this "2.prems"(2)] show ?thesis by (auto simp: settled_def)
    next
      assume "g_unit g \<in> set (scopes_stopped ?d)"
      then show ?thesis using drain_keeps_stopped [of ?d w es] by (auto simp: settled_def stop_worker_scopes_stops)
    qed
  qed
qed (auto simp: settled_def)

text \<open>
  C34: Stopping the watchdog leaks no scope. Whatever replacements are still in the event queue when the
  receiver is gone, afterwards the watchdog owns nothing, and every scope that it owned or that the monitor
  created is stopped, unless the process inside it has itself been replaced since.
\<close>
theorem stop_leaks_no_scope:
  assumes "watchdog_stop exits pending d w = (d', w', t)" and "monitor_up w" and "g_unit g \<noteq> []"
    and "dict_get (worker_scopes d) i = Some g \<or> (\<exists>gen old. GuardReplaced gen i old g \<in> set pending)"
  shows "worker_scopes d' = [] \<and> stopping d' \<and> \<not> monitor_up w'
    \<and> (g_unit g \<in> set (scopes_stopped d') \<or> (\<exists>gen g'. GuardReplaced gen i (g_pid g) g' \<in> set pending))"
proof -
  let ?w = "send_command CStop w"
  have d': "d' = stop_worker_scopes (drain_events ?w pending (d\<lparr>stopping := True\<rparr>))" and w': "\<not> monitor_up w'"
    using assms(1,2) by (auto simp: watchdog_stop_def Let_def)
  have "stopping (drain_events x es e) = stopping e" for x es e
    by (induction x es e rule: drain_events.induct)
      (auto simp: accept_replacement_guard_def frame_simps split: option.split)
  then have "worker_scopes d' = []" "stopping d'"
    unfolding d' stop_worker_scopes_def by (simp_all add: frame_simps)
  moreover have "settled pending (drain_events ?w pending (d\<lparr>stopping := True\<rparr>)) i g"
    using assms(4) owned_settled [of "d\<lparr>stopping := True\<rparr>" i g] accepted_settled [of _ i _ g] assms(3) by auto
  ultimately show ?thesis using w' by (simp add: settled_def d')
qed

section \<open>No process survives\<close>

text \<open>
  C35: A clean exit leaves nothing running. When the exit notification can be written and the root still has
  children, every process of the server's tree is killed, the children before the root, the server leaves
  the registry, and the watchdog is stopped, so that nothing revives it.
\<close>
theorem exit_kills_the_server:
  assumes "client_exit exits pending os h = Some (h', Inr ())" and "server_pid (sys h) = Some pid"
    and "finite (process_tree (os_pgrep os) pid)" and "process_tree (os_pgrep os) pid \<noteq> {pid}" and "os_alive_after os"
  shows "signals (sys h') = signals (sys h)
      @ map KillPid (sorted_list_of_set (process_tree (os_pgrep os) pid - {pid})) @ [KillRoot, WaitRoot]
    \<and> registry h' = removeAll pid (registry h) \<and> stopping (dog (sys h')) \<and> worker_scopes (dog (sys h')) = []"
proof -
  obtain d w t where s: "watchdog_stop exits pending (dog (sys h)) (shared (sys h)) = (d, w, t)" by (metis prod_cases3)
  obtain c r where n: "notify ''exit'' (JObj []) (lsp (sys h)) = (c, r)" by fastforce
  have "stopping (drain_events x es e) = stopping e" for x es e
    by (induction x es e rule: drain_events.induct)
      (auto simp: accept_replacement_guard_def frame_simps split: option.split)
  then have D: "stopping d \<and> worker_scopes d = []"
    using s by (auto simp: watchdog_stop_def stop_worker_scopes_def frame_simps Let_def)
  let ?ks = "sorted_list_of_set (process_tree (os_pgrep os) pid - {pid})"
  have "kill_targets (os\<lparr>os_root := Some pid\<rparr>) {} pid = Some ?ks"
    using kill_targets_live [of "os\<lparr>os_root := Some pid\<rparr>" pid] assms(3,4) by simp
  then have "kill_process_tree (os\<lparr>os_root := Some pid\<rparr>) {} = Some (map KillPid ?ks @ [KillRoot, WaitRoot])"
    using assms(5) by (simp add: kill_process_tree_def)
  with assms(1,2) s n D show ?thesis by (auto simp: client_exit_def Let_def split: sum.splits)
qed

text \<open>
  An exit that cannot say goodbye kills nothing. If the notification raises, because the pipe is broken,
  \<open>exit\<close> raises in turn before it reaches the kill: no process gets a signal, and only the registry still
  knows of the server.
\<close>
theorem failed_goodbye_kills_nothing:
  assumes "process_up (lsp (sys h))" and "faults (lsp (sys h)) = Some e # fs"
  shows "\<exists>h'. client_exit exits pending os h = Some (h', Inl e)
    \<and> signals (sys h') = signals (sys h) \<and> registry h' = registry h \<and> server_pid (sys h') = server_pid (sys h)"
  using assms by (simp add: client_exit_def notify_def send_message_def Let_def split: prod.split)

lemma kill_roots_tree:
  "\<forall>rt \<in> set rts. finite (process_tree pgrep rt) \<Longrightarrow>
     \<exists>ks. kill_roots pgrep rts = Some ks \<and> set ks = (\<Union>rt \<in> set rts. process_tree pgrep rt)"
proof (induction rts)
  case (Cons rt rts)
  then obtain ks where k: "kill_roots pgrep rts = Some ks" "set ks = (\<Union>rt \<in> set rts. process_tree pgrep rt)" by auto
  have "finite (process_tree pgrep rt)" using Cons.prems by simp
  then obtain ds where d: "collect_descendants pgrep rt = Some ds" by (rule collect_descendants_ends)
  have "rt \<in> process_tree pgrep rt" unfolding process_tree_def by (rule closure.base) simp
  with collect_descendants_sound [OF d] have "insert rt (set ds) = process_tree pgrep rt" by auto
  with k d show ?case by auto
qed simp

text \<open>
  The exit hook reaps every server that is still registered, with everything below it, and every orphan it
  recognises, and nothing else; afterwards nothing is registered. As \<open>exit\<close> removes only the server that is
  current, a server that was replaced by a restart is still registered then, and its number is signalled
  although it is dead and may belong to another process.
\<close>
theorem cleanup_reaps_the_registered:
  assumes "\<forall>rt \<in> set (registry h). finite (process_tree pgrep rt)"
    and "start_server (Inr q) h0 = (h1, r1)" and "p \<in> set (registry h0)" and "p \<noteq> q" and "registry hm = registry h1"
    and "server_pid (sys hm) = Some q" and "client_exit exits pending os hm = Some (h, Inr ())"
  shows "\<exists>h' ks. cleanup_lean_processes pgrep entries h = Some (h', ks) \<and> registry h' = []
    \<and> set ks = (\<Union>rt \<in> set (registry h). process_tree pgrep rt) \<union> set (find_orphaned_lean entries)
    \<and> p \<in> set ks"
proof -
  obtain ks where k: "kill_roots pgrep (registry h) = Some ks" "set ks = (\<Union>rt \<in> set (registry h). process_tree pgrep rt)"
    using kill_roots_tree [OF assms(1)] by blast
  have "registry h = removeAll q (List.insert q (registry h0))"
    using assms(2,5,6,7) by (auto simp: client_exit_def start_server_def Let_def split: sum.splits prod.splits)
  then have "p \<in> set (registry h)" using assms(3,4) by simp
  moreover have "p \<in> process_tree pgrep p" unfolding process_tree_def by (rule closure.base) simp
  ultimately show ?thesis using k by (auto simp: cleanup_lean_processes_def)
qed

section \<open>Keep-alive traffic\<close>

definition keep_alives :: "session list \<Rightarrow> message set" where
  "keep_alives ss = {KeepAlive (s_uri s) sid | s sid. s \<in> set ss \<and> registered s \<and> connected s \<and> session_id s = Some sid}"

definition fewer_sessions :: "session list \<Rightarrow> session list \<Rightarrow> bool" where
  "fewer_sessions ss' ss \<longleftrightarrow> keep_alives ss' \<subseteq> keep_alives ss \<and> length (filter registered ss') \<le> length (filter registered ss)"

lemma send_keep_alive_cases:
  assumes "send_keep_alive t s c = (s', c', r)"
  shows "(r = Inr True \<and> s' = s\<lparr>last_activity := t\<rparr> \<and> connected s
           \<and> (\<exists>sid. session_id s = Some sid \<and> sent c' = sent c @ [KeepAlive (s_uri s) sid]))
       \<or> (r \<noteq> Inr True \<and> sent c' = sent c)"
  using assms by (auto simp: send_keep_alive_def send_message_def split: if_splits option.splits list.splits sum.splits prod.splits)

lemma keep_alive_round_traffic:
  "keep_alive_round t ss c = (ss', c') \<Longrightarrow>
     \<exists>ms. sent c' = sent c @ ms \<and> set ms \<subseteq> keep_alives ss \<and> length ms \<le> length (filter registered ss) \<and> fewer_sessions ss' ss"
proof (induction ss arbitrary: c ss' c')
  case Nil
  then show ?case by (simp add: fewer_sessions_def)
next
  case (Cons s ss)
  obtain s1 c1 where 1: "(if \<not> registered s then (s, c)
         else (case send_keep_alive t s c of
                 (s1, c1, Inr True) \<Rightarrow> (s1, c1)
               | (s1, c1, _) \<Rightarrow> (ka_unregister (invalidate s1), c1))) = (s1, c1)" by fastforce
  obtain ss2 c2 where 2: "keep_alive_round t ss c1 = (ss2, c2)" by fastforce
  from Cons.prems 1 2 have e: "ss' = s1 # ss2" "c' = c2" by (simp_all add: Let_def)
  from Cons.IH [OF 2] obtain ms where m: "sent c2 = sent c1 @ ms" "set ms \<subseteq> keep_alives ss"
    "length ms \<le> length (filter registered ss)" "fewer_sessions ss2 ss" by blast
  obtain s3 c3 r where k: "send_keep_alive t s c = (s3, c3, r)" by (metis prod_cases3)
  have "\<exists>ns. sent c1 = sent c @ ns \<and> set ns \<subseteq> keep_alives [s] \<and> length ns \<le> length (filter registered [s]) \<and> fewer_sessions [s1] [s]"
  proof (cases "registered s")
    case False
    with 1 show ?thesis by (simp add: fewer_sessions_def)
  next
    case True
    from send_keep_alive_cases [OF k] show ?thesis
    proof
      assume a: "r = Inr True \<and> s3 = s\<lparr>last_activity := t\<rparr> \<and> connected s
           \<and> (\<exists>sid. session_id s = Some sid \<and> sent c3 = sent c @ [KeepAlive (s_uri s) sid])"
      then obtain sid where "session_id s = Some sid" "sent c3 = sent c @ [KeepAlive (s_uri s) sid]" by blast
      moreover have "s1 = s\<lparr>last_activity := t\<rparr>" "c1 = c3" using 1 True k a by auto
      ultimately show ?thesis using True a by (auto simp: fewer_sessions_def keep_alives_def)
    next
      assume a: "r \<noteq> Inr True \<and> sent c3 = sent c"
      then have "s1 = ka_unregister (invalidate s3)" "c1 = c3" using 1 True k by (auto split: sum.splits bool.splits)
      with a show ?thesis by (auto simp: fewer_sessions_def keep_alives_def ka_unregister_def)
    qed
  qed
  then obtain ns where n: "sent c1 = sent c @ ns" "set ns \<subseteq> keep_alives [s]" "length ns \<le> length (filter registered [s])"
    "fewer_sessions [s1] [s]" by blast
  have split: "keep_alives (x # xs) = keep_alives [x] \<union> keep_alives xs" for x xs by (auto simp: keep_alives_def)
  have "sent c' = sent c @ (ns @ ms)" using n m e by simp
  moreover have "set (ns @ ms) \<subseteq> keep_alives (s # ss)" using n(2) m(2) split [of s ss] by auto
  moreover have "length (ns @ ms) \<le> length (filter registered (s # ss))" using n(3) m(3) by (auto split: if_splits)
  moreover have "fewer_sessions ss' (s # ss)"
    using n(4) m(4) split [of s ss] split [of s1 ss2] unfolding e fewer_sessions_def by (auto split: if_splits)
  ultimately show ?case by blast
qed

text \<open>
  Keep-alives stay within bounds. However long the thread runs, it writes only keep-alives of sessions that
  were registered and connected, at most one for each in each round, and none after a round that found the
  manager stopped.
\<close>
theorem keep_alive_traffic_bounded:
  assumes "keep_alive_loop xs ss c = (ss', c')"
  shows "\<exists>ms. sent c' = sent c @ ms \<and> set ms \<subseteq> keep_alives ss
    \<and> length ms \<le> length (takeWhile fst xs) * length (filter registered ss) \<and> fewer_sessions ss' ss"
  using assms
proof (induction xs arbitrary: ss c)
  case Nil
  then show ?case by (simp add: fewer_sessions_def)
next
  case (Cons x xs)
  obtain b t where x: "x = (b, t)" by fastforce
  show ?case
  proof (cases b)
    case False
    with Cons.prems x show ?thesis by (simp add: fewer_sessions_def)
  next
    case True
    obtain ss1 c1 where 1: "keep_alive_round t ss c = (ss1, c1)" by fastforce
    from keep_alive_round_traffic [OF 1] obtain ms where m: "sent c1 = sent c @ ms" "set ms \<subseteq> keep_alives ss"
      "length ms \<le> length (filter registered ss)" "fewer_sessions ss1 ss" by blast
    from Cons.prems x True 1 have "keep_alive_loop xs ss1 c1 = (ss', c')" by simp
    from Cons.IH [OF this] obtain ns where n: "sent c' = sent c1 @ ns" "set ns \<subseteq> keep_alives ss1"
      "length ns \<le> length (takeWhile fst xs) * length (filter registered ss1)" "fewer_sessions ss' ss1" by blast
    have "length ns \<le> length (takeWhile fst xs) * length (filter registered ss)"
      using n(3) m(4) by (meson fewer_sessions_def mult_le_mono2 order_trans)
    with m n x True show ?thesis
      by (intro exI [of _ "ms @ ns"]) (auto simp: fewer_sessions_def)
  qed
qed

section \<open>Witnesses\<close>

theorem stop_leaks_no_scope_witness:
  "''new'' \<in> set (scopes_stopped (fst (watchdog_stop True
     [GuardReplaced 3 1 70 \<lparr>g_pid = 71, g_unit = ''new'', g_cgroup = ''c'', g_oom = 0\<rparr>] demo_watchdog demo_shared)))"
proof -
  let ?g = "\<lparr>g_pid = 71, g_unit = ''new'', g_cgroup = ''c'', g_oom = 0\<rparr>"
  obtain d w t where s: "watchdog_stop True [GuardReplaced 3 1 70 ?g] demo_watchdog demo_shared = (d, w, t)"
    by (metis prod_cases3)
  have "monitor_up demo_shared" by (simp add: demo_shared_def)
  from stop_leaks_no_scope [OF s this, of ?g 1] s show ?thesis by auto
qed

definition demo_host :: host where
  "demo_host = \<lparr>sys = demo_system\<lparr>server_pid := Some 10\<rparr>, registry = [10, 9], hooks_installed = True\<rparr>"

lemma demo_exit: "\<exists>h. client_exit True [] demo_os demo_host = Some (h, Inr ())"
proof -
  have "kill_process_tree (demo_os\<lparr>os_root := Some 10\<rparr>) {} \<noteq> None"
    using kill_targets_live [of "demo_os\<lparr>os_root := Some 10\<rparr>" 10 "{}"]
    by (auto simp: kill_process_tree_def demo_os_def demo_tree)
  then show ?thesis
    by (auto simp: client_exit_def demo_host_def demo_system_def demo_client_def notify_def send_message_def Let_def
        split: prod.split)
qed

theorem exit_kills_the_server_witness:
  "\<exists>h. client_exit True [] demo_os demo_host = Some (h, Inr ()) \<and> registry h = [9]
     \<and> signals (sys h) = [KillPid 11, KillPid 12, KillPid 13, KillRoot, WaitRoot]"
proof -
  obtain h where e: "client_exit True [] demo_os demo_host = Some (h, Inr ())" using demo_exit by blast
  have "server_pid (sys demo_host) = Some 10" "os_pgrep demo_os = demo_pgrep" "os_alive_after demo_os"
    "signals (sys demo_host) = []" "registry demo_host = [10, 9]"
    by (simp_all add: demo_host_def demo_os_def demo_system_def)
  with exit_kills_the_server [OF e, of 10] e show ?thesis by (simp add: demo_tree)
qed

theorem failed_goodbye_kills_nothing_witness:
  "\<exists>h'. client_exit True [] demo_os (demo_host\<lparr>sys := (sys demo_host)\<lparr>lsp := demo_client\<lparr>faults := [Some (BrokenPipeError [])]\<rparr>\<rparr>\<rparr>)
      = Some (h', Inl (BrokenPipeError [])) \<and> signals (sys h') = []"
proof -
  let ?h = "demo_host\<lparr>sys := (sys demo_host)\<lparr>lsp := demo_client\<lparr>faults := [Some (BrokenPipeError [])]\<rparr>\<rparr>\<rparr>"
  have "process_up (lsp (sys ?h))" "faults (lsp (sys ?h)) = Some (BrokenPipeError []) # []" "signals (sys ?h) = []"
    by (simp_all add: demo_client_def demo_host_def demo_system_def)
  from failed_goodbye_kills_nothing [OF this(1,2), of True "[]" demo_os] this(3) show ?thesis by auto
qed

theorem cleanup_reaps_the_registered_witness:
  "\<exists>h h' ks. client_exit True [] demo_os demo_host = Some (h, Inr ())
     \<and> cleanup_lean_processes demo_pgrep [] h = Some (h', ks) \<and> 9 \<in> set ks"
proof -
  let ?h0 = "demo_host\<lparr>registry := [9]\<rparr>"
  obtain h where e: "client_exit True [] demo_os demo_host = Some (h, Inr ())" using demo_exit by blast
  obtain h1 r1 where s: "start_server (Inr 10) ?h0 = (h1, r1)" by fastforce
  then have m: "registry demo_host = registry h1" by (auto simp: start_server_def demo_host_def List.insert_def)
  have "set (registry h) \<subseteq> {9}"
    using e by (auto simp: client_exit_def demo_host_def demo_system_def Let_def split: sum.splits prod.splits)
  moreover have "process_tree demo_pgrep 9 \<subseteq> {9}"
    unfolding process_tree_def by (rule closure_least) (auto simp: demo_children)
  then have "finite (process_tree demo_pgrep 9)" by (rule finite_subset) simp
  ultimately have f: "\<forall>rt \<in> set (registry h). finite (process_tree demo_pgrep rt)" by auto
  have "9 \<in> set (registry ?h0)" "(9::int) \<noteq> 10" "server_pid (sys demo_host) = Some 10" by (simp_all add: demo_host_def)
  from cleanup_reaps_the_registered [OF f s this(1,2) m this(3) e] e show ?thesis by blast
qed

theorem keep_alive_traffic_bounded_witness:
  "\<exists>ms. sent (snd (keep_alive_loop [(True, 1), (True, 11), (False, 21)] [demo_session] demo_client)) = sent demo_client @ ms
     \<and> length ms \<le> 2"
proof -
  obtain ss c where l: "keep_alive_loop [(True, 1), (True, 11), (False, 21)] [demo_session] demo_client = (ss, c)" by fastforce
  have "length (filter registered [demo_session]) \<le> 1" by simp
  with keep_alive_traffic_bounded [OF l] l show ?thesis by fastforce
qed

end
