(* ===== verification/System.thy ===== *)
theory System imports Interleave Wire Shutdown begin

text \<open>
  The whole program as a transition system: one step is what one thread does between two points where others
  may act. Everything that sends to the shared environment, changes the pool or one of its workers, or talks to
  the server is a step. Connecting, building a pool, restarting and exiting are not steps but sequences of them
  (\<open>Refinement\<close>), so the workers, the router and the readers go on while they run. Theorems about all reachable
  states are theorems about all schedules. Several steps take arbitrary arguments and so allow more than the program does.
\<close>

section \<open>Steps\<close>

definition set_pool :: "pool \<Rightarrow> io \<Rightarrow> system \<Rightarrow> system" where
  "set_pool p io s = s\<lparr>shared := io, routes := (routes s)\<lparr>worker_pool := Some p\<rparr>\<rparr>"

definition set_worker :: "nat \<Rightarrow> worker \<Rightarrow> pool \<Rightarrow> pool" where
  "set_worker i w p = p\<lparr>workers := (workers p)[i := w]\<rparr>"

text \<open>One step of a client's submission, of the router or of a worker's thread, on the pool they belong to.\<close>

inductive pool_step :: "observer \<Rightarrow> pool \<Rightarrow> io \<Rightarrow> pool \<Rightarrow> io \<Rightarrow> bool" for obs where
  submit: "submit_task obs rid tid t p io = (p', io') \<Longrightarrow> pool_step obs p io p' io'"
| route: "router_step obs p io = (p', io') \<Longrightarrow> pool_step obs p io p' io'"
| take: "i < length (workers p) \<Longrightarrow> \<not> exited (workers p ! i) \<Longrightarrow> current_task (workers p ! i) = None \<Longrightarrow>
    run_begin obs t (workers p ! i) io = (w, io', b) \<Longrightarrow> pool_step obs p io (set_worker i w p) io'"
| work: "i < length (workers p) \<Longrightarrow> current_task (workers p ! i) \<noteq> None \<Longrightarrow>
    same_thread (workers p ! i) w \<Longrightarrow> doc_uri (w_doc w) = doc_uri (w_doc (workers p ! i)) \<Longrightarrow>
    pool_step obs p io (set_worker i w p) io"
| finish: "i < length (workers p) \<Longrightarrow> current_task (workers p ! i) \<noteq> None \<Longrightarrow>
    run_finish obs t gen r (workers p ! i) io = (w, io') \<Longrightarrow> pool_step obs p io (set_worker i w p) io'"

text \<open>
  The pools that the client has let go of take steps like the current one. Everything else that reaches a pool goes
  through the client, hence to the current one.
\<close>

inductive system_step :: "observer \<Rightarrow> system \<Rightarrow> system \<Rightarrow> bool" for obs where
  client: "client_step (lsp s) c \<Longrightarrow> system_step obs s (s\<lparr>lsp := c\<rparr>)"
| pool: "worker_pool (routes s) = Some p \<Longrightarrow> pool_step obs p (shared s) p' io \<Longrightarrow> system_step obs s (set_pool p' io s)"
| stale: "k < length (stale_pools s) \<Longrightarrow> pool_step obs (stale_pools s ! k) (shared s) p' io \<Longrightarrow>
    system_step obs s (s\<lparr>shared := io, stale_pools := (stale_pools s)[k := p']\<rparr>)"
| notify: "handle_notification t meth params (routes s) = (r', res) \<Longrightarrow> system_step obs s (s\<lparr>routes := r'\<rparr>)"
| stderr: "system_step obs s (s\<lparr>shared := read_stderr_line l (shared s)\<rparr>)"
| report: "system_step obs s (s\<lparr>shared := emit ev (shared s)\<rparr>)"
| adopt_guard: "system_step obs s (s\<lparr>dog := accept_replacement_guard gen w old g (shared s) (dog s)\<rparr>)"
| spawn: "system_step obs s (s\<lparr>server_pid := Some pid\<rparr>)"
| announce: "start_watchdog b f sp (dog s) (shared s) = (d, w, r) \<Longrightarrow> system_step obs s (s\<lparr>dog := d, shared := w\<rparr>)"
| register: "system_step obs s (s\<lparr>routes := register_init_uri u (routes s)\<rparr>)"
| install: "system_step obs s ((let_go s)\<lparr>routes := (routes s)\<lparr>worker_pool := Some (pool_of n uri a)\<rparr>\<rparr>)"
| drain: "system_step obs s (s\<lparr>routes := fst (drain_init_buffer u (routes s))\<rparr>)"
| open_doc: "worker_pool (routes s) = Some p \<Longrightarrow> i < length (workers p) \<Longrightarrow> doc_uri d = doc_uri (w_doc (workers p ! i)) \<Longrightarrow>
    system_step obs s (set_pool (set_worker i ((workers p ! i)\<lparr>w_doc := d, ready := b\<rparr>) p) (shared s) s)"
| arms: "system_step obs s (s\<lparr>dog := arm txt0 n (dog s)\<rparr>)"
| guards: "attach_worker_guards b rd ad oom (dog s) (shared s) = (d, w, r) \<Longrightarrow> system_step obs s (s\<lparr>dog := d, shared := w\<rparr>)"
| set_ready: "system_step obs s (s\<lparr>dog := (dog s)\<lparr>server_ready := b\<rparr>\<rparr>)"
| pause: "system_step obs s (s\<lparr>shared := pause_monitor (shared s)\<rparr>)"
| mark: "worker_pool (routes s) = Some p \<Longrightarrow> i < length (workers p) \<Longrightarrow>
    system_step obs s (set_pool (set_worker i (mark_culprit ids reason (workers p ! i)) p) (shared s) s)"
| poison: "worker_pool (routes s) = Some p \<Longrightarrow> i < length (workers p) \<Longrightarrow>
    system_step obs s (set_pool (set_worker i (poison_worker t (workers p ! i)) p) (shared s) s)"
| hush: "worker_pool (routes s) = Some p \<Longrightarrow> system_step obs s (set_pool (p\<lparr>keep_alive_running := False\<rparr>) (shared s) s)"
| disconnect: "worker_pool (routes s) = Some p \<Longrightarrow> i < length (workers p) \<Longrightarrow>
    system_step obs s
      (set_pool (set_worker i ((workers p ! i)\<lparr>w_rpc := invalidate (w_rpc (workers p ! i))\<rparr>) p) (shared s) s)"
| kill: "kill_process_tree os known = Some acts \<Longrightarrow> system_step obs s (s\<lparr>signals := signals s @ acts\<rparr>)"
| drop_scopes: "system_step obs s (s\<lparr>dog := stop_worker_scopes (dog s)\<rparr>)"
| ask_stop: "system_step obs s (s\<lparr>dog := (dog s)\<lparr>stopping := True\<rparr>, shared := send_command CStop (shared s)\<rparr>)"
| monitor_gone: "system_step obs s (s\<lparr>shared := (shared s)\<lparr>monitor_up := False\<rparr>\<rparr>)"

inductive_cases system_stepE: "system_step obs s s'"

abbreviation system_steps :: "observer \<Rightarrow> system \<Rightarrow> system \<Rightarrow> bool" where
  "system_steps obs \<equiv> (system_step obs)\<^sup>*\<^sup>*"

text \<open>A client that has just been constructed.\<close>

definition fresh_system :: "watchdog \<Rightarrow> bool \<Rightarrow> system" where
  "fresh_system d snk = \<lparr>dog = d,
     shared = \<lparr>sink_on = snk, events = [], answers = [], generation = 0, monitor_up = False, commands = []\<rparr>,
     lsp = new_client, routes = \<lparr>worker_pool = None, init_buffers = []\<rparr>, server_pid = None, signals = [], stale_pools = []\<rparr>"

definition reachable :: "observer \<Rightarrow> system \<Rightarrow> bool" where
  "reachable obs s \<longleftrightarrow> (\<exists>d snk. system_steps obs (fresh_system d snk) s)"

section \<open>The shape of a pool\<close>

definition uris :: "worker list \<Rightarrow> string list" where
  "uris ws = map (\<lambda>w. doc_uri (w_doc w)) ws"

definition pool_ok :: "pool \<Rightarrow> bool" where
  "pool_ok p \<longleftrightarrow> map worker_id (workers p) = map int [1..<Suc (length (workers p))] \<and> distinct (uris (workers p))"

lemma pool_ok_shape:
  "pool_ok p \<Longrightarrow> map worker_id (workers p') = map worker_id (workers p) \<Longrightarrow> uris (workers p') = uris (workers p) \<Longrightarrow> pool_ok p'"
  unfolding pool_ok_def by (metis length_map)

lemma set_worker_shape:
  assumes "i < length (workers p)" and "worker_id w = worker_id (workers p ! i)"
    and "doc_uri (w_doc w) = doc_uri (w_doc (workers p ! i))"
  shows "map worker_id (workers (set_worker i w p)) = map worker_id (workers p)"
    and "uris (workers (set_worker i w p)) = uris (workers p)"
  using assms by (simp_all add: set_worker_def uris_def map_update list_update_same_conv)

lemma deliver_to_shape [simp]:
  "map worker_id (deliver_to u t msg ws) = map worker_id ws" "uris (deliver_to u t msg ws) = uris ws"
  by (induction ws) (auto simp: uris_def put_notification_def)

lemma enqueue_shape [simp]: "uris (enqueue i t ws) = uris ws"
  by (simp add: uris_def enqueue_def)

lemma router_shape:
  assumes "router_step obs p io = (p', io')"
  shows "map worker_id (workers p') = map worker_id (workers p)" and "uris (workers p') = uris (workers p)"
  using assms
  by (auto simp: router_step_def assign_task_def frame_simps Let_def split: option.splits if_splits)

lemma run_begin_shape:
  "run_begin obs t w io = (w', io', b) \<Longrightarrow> worker_id w' = worker_id w \<and> w_doc w' = w_doc w"
  by (auto simp: run_begin_def task_started_def Let_def split: option.splits)

lemma run_finish_shape:
  "run_finish obs t gen r w io = (w', io') \<Longrightarrow> worker_id w' = worker_id w \<and> w_doc w' = w_doc w"
  by (auto simp: run_finish_def end_task_def on_service_unavailable_def Let_def split: option.splits sum.splits if_splits)

lemma worker_uri_inj: "worker_uri u i = worker_uri u j \<Longrightarrow> i = j"
proof -
  assume "worker_uri u i = worker_uri u j"
  then have "show_nat i = show_nat j" by (simp add: worker_uri_def)
  then show "i = j" by (metis read_digits_show_nat option.inject)
qed

lemma pool_of_ok: "pool_ok (pool_of n u a)"
proof -
  have "uris (workers (pool_of n u a)) = map (worker_uri u) [1..<Suc n]"
    and "map worker_id (workers (pool_of n u a)) = map int [1..<Suc n]"
    by (simp_all add: uris_def pool_of_def new_pool_def new_worker_def new_doc_def Let_def comp_def del: upt_Suc)
  moreover have "length (workers (pool_of n u a)) = n"
    by (simp add: pool_of_def new_pool_def Let_def)
  ultimately show ?thesis
    using worker_uri_inj by (auto simp: pool_ok_def distinct_map inj_on_def simp del: upt_Suc)
qed

section \<open>What each step keeps\<close>

lemma gens_ok_same: "gens_ok w \<Longrightarrow> commands w' = commands w \<Longrightarrow> generation w' = generation w \<Longrightarrow> gens_ok w'"
  by (simp add: gens_ok_def)

lemma gens_ok_answer [simp]: "gens_ok (answer rq r w) = gens_ok w"
  by (simp add: gens_ok_def frame_simps)

lemma submit_gens: "submit_task obs rid tid t p w = (p', w') \<Longrightarrow> gens_ok w \<Longrightarrow> gens_ok w' \<and> workers p' = workers p"
  by (auto simp: submit_task_def Let_def)

lemma router_gens: "router_step obs p w = (p', w') \<Longrightarrow> gens_ok w \<Longrightarrow> gens_ok w'"
  by (auto simp: router_step_def assign_task_def reject_task_def Let_def split: option.splits if_splits)

lemma run_begin_gens: "run_begin obs t v w = (v', w', b) \<Longrightarrow> gens_ok w \<Longrightarrow> gens_ok w'"
  by (auto simp: run_begin_def task_started_def Let_def gens_ok_send split: option.splits)

lemma run_finish_gens:
  assumes "run_finish obs t gen r v w = (v', w')" and "gens_ok w"
  shows "gens_ok w'"
proof -
  have "gens_ok (task_finished i gen x)" if "commands x = commands w" "generation x = generation w" for i x
    using gens_ok_send [OF gens_ok_same [OF assms(2) that]] by (simp add: task_finished_def)
  with assms show ?thesis
    by (auto simp: run_finish_def end_task_def on_service_unavailable_def frame_simps Let_def
        split: option.splits sum.splits if_splits)
qed

lemma stderr_gens: "gens_ok w \<Longrightarrow> gens_ok (read_stderr_line l w)"
  by (simp add: read_stderr_line_def flag_fatal_def gens_ok_send Let_def)

section \<open>The invariant of the whole system\<close>

definition system_ok :: "system \<Rightarrow> bool" where
  "system_ok s \<longleftrightarrow> gens_ok (shared s) \<and> client_ok (lsp s) \<and> (\<forall>p. worker_pool (routes s) = Some p \<longrightarrow> pool_ok p)
     \<and> (\<forall>p \<in> set (stale_pools s). pool_ok p)"

lemma fresh_system_ok: "system_ok (fresh_system d snk)"
  by (simp add: system_ok_def fresh_system_def new_client_ok gens_ok_def)

lemma system_ok_pool:
  "system_ok s \<Longrightarrow> worker_pool (routes s) = Some p \<Longrightarrow> gens_ok io \<Longrightarrow>
     map worker_id (workers p') = map worker_id (workers p) \<Longrightarrow> uris (workers p') = uris (workers p) \<Longrightarrow>
     system_ok (set_pool p' io s)"
  using pool_ok_shape by (auto simp: system_ok_def set_pool_def)

lemma system_ok_worker:
  "system_ok s \<Longrightarrow> worker_pool (routes s) = Some p \<Longrightarrow> i < length (workers p) \<Longrightarrow> gens_ok io \<Longrightarrow>
     worker_id w = worker_id (workers p ! i) \<Longrightarrow> doc_uri (w_doc w) = doc_uri (w_doc (workers p ! i)) \<Longrightarrow>
     system_ok (set_pool (set_worker i w p) io s)"
  using set_worker_shape by (intro system_ok_pool) auto

lemma pool_step_keeps:
  assumes "pool_step obs p io p' io'" and "gens_ok io"
  shows "gens_ok io' \<and> map worker_id (workers p') = map worker_id (workers p) \<and> uris (workers p') = uris (workers p)"
  using assms
proof (induction rule: pool_step.induct)
  case (submit rid tid t p io p' io')
  then show ?case using submit_gens by auto
next
  case (route p io p' io')
  then show ?case using router_gens router_shape by auto
next
  case (take i p t io w io' b)
  then show ?case using run_begin_gens run_begin_shape set_worker_shape by metis
next
  case (work i p w io)
  then show ?case using set_worker_shape [OF work(1), of w] by (simp add: same_thread_def)
next
  case (finish i p t gen r io w io')
  then show ?case using run_finish_gens run_finish_shape set_worker_shape by metis
qed

lemma route_value_cases: "fst (route_value u t m r) = r \<or> (\<exists>v. fst (route_value u t m r) = route_or_buffer v t m r)"
  by (cases u) (auto simp: route_value_def)

lemma handle_notification_routes:
  "fst (handle_notification t meth params r) = r \<or> (\<exists>u m. fst (handle_notification t meth params r) = fst (route_value u t m r))"
  unfolding handle_notification_def handle_file_progress_def handle_publish_diagnostics_def
  by (simp split: sum.split) blast

lemma handle_notification_cases:
  "fst (handle_notification t meth params r) = r \<or> (\<exists>v m. fst (handle_notification t meth params r) = route_or_buffer v t m r)"
  using handle_notification_routes [of t meth params r] route_value_cases [of _ t _ r] by metis

lemma handle_notification_pool:
  assumes "handle_notification t meth params r = (r', res)" and "worker_pool r' = Some p'"
  shows "\<exists>p. worker_pool r = Some p \<and> map worker_id (workers p') = map worker_id (workers p) \<and> uris (workers p') = uris (workers p)"
proof -
  have "\<exists>p. worker_pool r = Some p \<and> map worker_id (workers p') = map worker_id (workers p) \<and> uris (workers p') = uris (workers p)"
    if "worker_pool (route_or_buffer u t m r) = Some p'" for u m
    using that by (auto simp: route_or_buffer_def buffer_notification_def split: option.splits if_splits sum.splits)
  with assms handle_notification_cases [of t meth params r] show ?thesis by auto
qed

lemma system_step_ok: "system_step obs s s' \<Longrightarrow> system_ok s \<Longrightarrow> system_ok s'"
proof (induction rule: system_step.induct)
  case (client s c)
  then show ?case using client_step_ok by (auto simp: system_ok_def)
next
  case (pool s p p' io)
  then show ?case using pool_step_keeps [OF pool(2)] by (intro system_ok_pool) (auto simp: system_ok_def)
next
  case (stale k s p' io)
  have "pool_ok (stale_pools s ! k)" "gens_ok (shared s)" using stale(1,3) by (auto simp: system_ok_def)
  with pool_step_keeps [OF stale(2)] pool_ok_shape have "gens_ok io" "pool_ok p'" by blast+
  with stale(3) show ?case by (auto simp: system_ok_def dest: set_update_subset_insert [THEN subsetD])
next
  case (notify t meth params s r' res)
  have "pool_ok p'" if "worker_pool r' = Some p'" for p'
  proof -
    from handle_notification_pool [OF notify(1) that] obtain p where p: "worker_pool (routes s) = Some p"
      "map worker_id (workers p') = map worker_id (workers p)" "uris (workers p') = uris (workers p)" by blast
    moreover from p(1) notify(2) have "pool_ok p" by (simp add: system_ok_def)
    ultimately show ?thesis using pool_ok_shape by blast
  qed
  with notify(2) show ?case by (simp add: system_ok_def)
next
  case (stderr s l)
  then show ?case using stderr_gens by (simp add: system_ok_def)
next
  case (announce b f sp s d w r)
  then show ?case using start_watchdog_gens(1) by (simp add: system_ok_def)
next
  case (register s u)
  then show ?case by (simp add: system_ok_def register_init_uri_def)
next
  case (install s n uri a)
  then show ?case using pool_of_ok by (auto simp: system_ok_def let_go_def split: option.split)
next
  case (drain s u)
  then show ?case by (simp add: system_ok_def drain_init_buffer_def)
next
  case (open_doc s p i d b)
  then show ?case by (intro system_ok_worker) (auto simp: system_ok_def)
next
  case (guards b rd ad oom s d w r)
  then show ?case using attach_gens(1) by (simp add: system_ok_def)
next
  case (pause s)
  then show ?case using gens_ok_send [of _ CPause] by (simp add: system_ok_def pause_monitor_def)
next
  case (mark s p i ids reason)
  then show ?case by (intro system_ok_worker) (auto simp: system_ok_def mark_culprit_def split: option.split)
next
  case (poison s p i t)
  then show ?case by (intro system_ok_worker) (auto simp: system_ok_def poison_worker_def put_notification_def)
next
  case (hush s p)
  then show ?case by (intro system_ok_pool) (auto simp: system_ok_def)
next
  case (disconnect s p i)
  then show ?case by (intro system_ok_worker) (auto simp: system_ok_def)
next
  case (ask_stop s)
  then show ?case using gens_ok_send [of _ CStop] by (simp add: system_ok_def)
next
  case (monitor_gone s)
  then show ?case by (simp add: system_ok_def gens_ok_def)
qed (simp_all add: system_ok_def)

lemma reachable_ok: "reachable obs s \<Longrightarrow> system_ok s"
  unfolding reachable_def
proof (elim exE)
  fix d snk
  assume "system_steps obs (fresh_system d snk) s"
  then show "system_ok s"
    by (induction rule: rtranclp_induct) (use fresh_system_ok system_step_ok in blast)+
qed


end
