(* ===== verification/Refinement.thy ===== *)
theory Refinement imports System begin

text \<open>
  The operations of the other theories, which are functions on the state, refine the steps of \<open>System\<close>: connecting
  and building a pool (\<open>connect\<close>, \<open>create_pool\<close> of \<open>pyleaner/client.py\<close>), a restart and its retries
  (\<open>pyleaner/watchdog.py\<close>), \<open>exit\<close>, and a worker's round are sequences of steps with the same effect. What every
  step keeps therefore holds at every point inside them, with any steps of other threads in between.
\<close>

lemma reachable_steps: "reachable obs s \<Longrightarrow> system_steps obs s s' \<Longrightarrow> reachable obs s'"
  unfolding reachable_def by (meson rtranclp_trans)

lemma steps_step: "system_steps obs s t \<Longrightarrow> system_step obs t u \<Longrightarrow> system_steps obs s u"
  by (rule rtranclp.rtrancl_into_rtrancl)

section \<open>The client\<close>

lemma client_steps_system:
  "client_steps c c' \<Longrightarrow> system_steps obs (s\<lparr>lsp := c\<rparr>) (s\<lparr>lsp := c'\<rparr>)"
proof (induction rule: rtranclp_induct)
  case (step c1 c2)
  have "system_step obs (s\<lparr>lsp := c1\<rparr>) (s\<lparr>lsp := c1, lsp := c2\<rparr>)"
    by (rule system_step.client) (use step.hyps(2) in simp)
  with step.IH show ?case by (simp add: rtranclp.rtrancl_into_rtrancl)
qed simp

lemma client_steps_from: "client_steps (lsp s) c \<Longrightarrow> system_steps obs s (s\<lparr>lsp := c\<rparr>)"
  using client_steps_system [of "lsp s" c obs s] by simp

lemma steps_client: "system_steps obs s t \<Longrightarrow> client_steps (lsp t) c \<Longrightarrow> system_steps obs s (t\<lparr>lsp := c\<rparr>)"
  using client_steps_from rtranclp_trans by metis

lemma notify_send_steps: "client_steps c (fst (notify m p c))"
  unfolding notify_def by (rule send_message_steps)

section \<open>The workers of a pool\<close>

text \<open>An operation that is applied to one worker after the other.\<close>

lemma each_worker_steps:
  assumes "\<And>s p i. worker_pool (routes s) = Some p \<Longrightarrow> i < length (workers p) \<Longrightarrow>
    system_step obs s (set_pool (set_worker i (f (workers p ! i)) p) (shared s) s)"
  shows "system_steps obs s (s\<lparr>routes := map_workers f (routes s)\<rparr>)"
proof (cases "worker_pool (routes s)")
  case None
  then have "map_workers f (routes s) = routes s" by (simp add: map_workers_def)
  then show ?thesis by simp
next
  case (Some p)
  let ?st = "\<lambda>k. s\<lparr>routes := (routes s)\<lparr>worker_pool := Some (p\<lparr>workers := map f (take k (workers p)) @ drop k (workers p)\<rparr>)\<rparr>\<rparr>"
  have "system_steps obs s (?st k)" if "k \<le> length (workers p)" for k
    using that
  proof (induction k)
    case 0
    have "?st 0 = s" using Some by simp
    then show ?case by simp
  next
    case (Suc k)
    let ?p = "p\<lparr>workers := map f (take k (workers p)) @ drop k (workers p)\<rparr>"
    have n: "workers ?p ! k = workers p ! k" "k < length (workers ?p)" using Suc.prems by (simp_all add: nth_append)
    have "(map f (take k (workers p)) @ drop k (workers p))[k := f (workers p ! k)]
        = map f (take (Suc k) (workers p)) @ drop (Suc k) (workers p)"
      using Suc.prems by (simp add: list_update_append take_Suc_conv_app_nth Cons_nth_drop_Suc [symmetric])
    then have "?st (Suc k) = set_pool (set_worker k (f (workers ?p ! k)) ?p) (shared (?st k)) (?st k)"
      using n(1) by (simp add: set_pool_def set_worker_def)
    moreover have "system_step obs (?st k) (set_pool (set_worker k (f (workers ?p ! k)) ?p) (shared (?st k)) (?st k))"
      using n(2) by (intro assms) simp_all
    ultimately show ?case using Suc steps_step by simp
  qed
  from this [of "length (workers p)"] Some show ?thesis by (simp add: map_workers_def)
qed

section \<open>Connecting\<close>

lemma connect_lsp_steps:
  assumes "connect_lsp root_uri a s = (s', r)"
  shows "system_steps obs s s'"
proof (cases "a_popen a")
  case (Inr pid)
  let ?s0 = "s\<lparr>server_pid := Some pid\<rparr>" and ?s1 = "s\<lparr>server_pid := Some pid, lsp := (lsp s)\<lparr>process_up := True\<rparr>\<rparr>"
  obtain c1 r1 where 1: "initialize_client root_uri (lsp ?s1) = (c1, r1)" by fastforce
  obtain c2 r2 where 2: "initialized_client c1 = (c2, r2)" by fastforce
  have "system_steps obs s ?s0" using system_step.spawn by (rule r_into_rtranclp)
  then have "system_steps obs s (?s0\<lparr>lsp := (lsp s)\<lparr>process_up := True\<rparr>\<rparr>)"
    by (rule steps_client) (use client_step.spawn in auto)
  then have s1: "system_steps obs s ?s1" by simp
  have "client_steps (lsp ?s1) c1"
    using request_steps 1 unfolding initialize_client_def by (metis fst_conv)
  from steps_client [OF s1 this] have c1: "system_steps obs s (?s1\<lparr>lsp := c1\<rparr>)" .
  have "client_steps c1 c2" using notify_send_steps 2 unfolding initialized_client_def by (metis fst_conv)
  then have c2: "system_steps obs s (?s1\<lparr>lsp := c2\<rparr>)" using steps_client [OF c1, of c2] by simp
  obtain d w r3 where w: "start_watchdog (a_monitor_alive a) (a_monitor_start a) (if a_server_alive a then Some pid else None)
      (dog ?s1) (shared ?s1) = (d, w, r3)"
    by (metis prod_cases3)
  then have "system_step obs (?s1\<lparr>lsp := c2\<rparr>) (?s1\<lparr>lsp := c2, dog := d, shared := w\<rparr>)"
    by (intro system_step.announce) simp
  with c2 have "system_steps obs s (?s1\<lparr>lsp := c2, dog := d, shared := w\<rparr>)" by (rule steps_step)
  with c1 c2 assms Inr 1 2 w show ?thesis by (auto simp: connect_lsp_def Let_def split: sum.splits)
qed (use assms in \<open>simp add: connect_lsp_def\<close>)

section \<open>Building a pool\<close>

lemma didopen_uri: "doc_uri (fst (didopen u t l timeout ms d)) = doc_uri d"
proof -
  let ?p = "JObj [(''textDocument'', JObj [(''uri'', JStr u), (''languageId'', JStr l), (''version'', JInt 0), (''text'', JStr t)])]"
  obtain d1 r where 1: "doc_notify ''textDocument/didOpen'' ?p (reset_version d) = (d1, r)" by fastforce
  then have "doc_uri d1 = doc_uri d"
    using doc_notify_frame(1) [of "''textDocument/didOpen''" ?p "reset_version d"] by (simp add: reset_version_def)
  with 1 show ?thesis by (simp add: didopen_def split: sum.split prod.split)
qed

lemma initialize_environment_effect:
  assumes "initialize_environment txt0 l ms (w, c) = ((w', c'), r)"
  shows "client_steps c c'" and "\<exists>d b. w' = w\<lparr>w_doc := d, ready := b\<rparr> \<and> doc_uri d = doc_uri (w_doc w)"
proof -
  obtain w1 c1 r1 where 1: "on_doc (didopen (doc_uri (w_doc w)) txt0 l 300 ms) (w, c) = ((w1, c1), r1)"
    by (metis prod.exhaust)
  have "steps_op (on_doc (didopen (doc_uri (w_doc w)) txt0 l 300 ms))" by (rule steps_on_doc) (rule didopen_uri)
  from steps_opD [OF this 1] have S: "client_steps c c1" "doc_uri (w_doc w1) = doc_uri (w_doc w)" by auto
  from S(1) assms 1 show "client_steps c c'" by (auto simp: initialize_environment_def split: sum.splits)
  have "w1 = w\<lparr>w_doc := w_doc w1\<rparr>" using 1 by (auto simp: on_doc_def Let_def split: prod.splits)
  then obtain d where w1: "w1 = w\<lparr>w_doc := d\<rparr>" by metis
  show "\<exists>d b. w' = w\<lparr>w_doc := d, ready := b\<rparr> \<and> doc_uri d = doc_uri (w_doc w)"
  proof (cases r1)
    case (Inl e)
    with assms 1 have "w' = w\<lparr>w_doc := d\<rparr>" by (simp add: initialize_environment_def w1)
    then have "w' = w\<lparr>w_doc := d, ready := ready w\<rparr>" by (intro worker.equality) simp_all
    moreover have "doc_uri d = doc_uri (w_doc w)" using S(2) w1 by simp
    ultimately show ?thesis by blast
  next
    case (Inr ok)
    with assms 1 have "w' = w\<lparr>w_doc := d, ready := ok\<rparr>" by (simp add: initialize_environment_def w1)
    moreover have "doc_uri d = doc_uri (w_doc w)" using S(2) w1 by simp
    ultimately show ?thesis by blast
  qed
qed

lemma open_all_steps:
  assumes "open_all txt0 buf ws c = (ws', c', r)"
  shows "system_steps obs (s\<lparr>routes := (routes s)\<lparr>worker_pool := Some (p\<lparr>workers := pre @ ws\<rparr>)\<rparr>, lsp := c\<rparr>)
    (s\<lparr>routes := (routes s)\<lparr>worker_pool := Some (p\<lparr>workers := pre @ ws'\<rparr>)\<rparr>, lsp := c'\<rparr>)"
  using assms
proof (induction ws arbitrary: pre c c' ws' r)
  case (Cons w ws)
  obtain w1 c1 r1 where 1: "initialize_environment txt0 ''lean4'' (buf (doc_uri (w_doc w))) (w, c) = ((w1, c1), r1)"
    by (metis prod.exhaust)
  obtain ws2 c2 r2 where 2: "open_all txt0 buf ws c1 = (ws2, c2, r2)" by (metis prod_cases3)
  from Cons.prems 1 2 have e: "ws' = w1 # ws2" "c' = c2" by auto
  let ?st = "\<lambda>c ws. s\<lparr>routes := (routes s)\<lparr>worker_pool := Some (p\<lparr>workers := ws\<rparr>)\<rparr>, lsp := c\<rparr>"
  note I = initialize_environment_effect [OF 1]
  then obtain d b where w1: "w1 = w\<lparr>w_doc := d, ready := b\<rparr>" "doc_uri d = doc_uri (w_doc w)" by blast
  have a: "system_steps obs (?st c (pre @ w # ws)) (?st c1 (pre @ w # ws))"
    using client_steps_from [of "?st c (pre @ w # ws)" c1 obs] I(1) by simp
  let ?p = "p\<lparr>workers := pre @ w # ws\<rparr>" and ?t = "?st c1 (pre @ w # ws)"
  have "system_step obs ?t (set_pool (set_worker (length pre) ((workers ?p ! length pre)\<lparr>w_doc := d, ready := b\<rparr>) ?p) (shared ?t) ?t)"
    using w1(2) by (intro system_step.open_doc) simp_all
  moreover have "set_pool (set_worker (length pre) ((workers ?p ! length pre)\<lparr>w_doc := d, ready := b\<rparr>) ?p) (shared ?t) ?t
      = ?st c1 ((pre @ [w1]) @ ws)"
    using w1(1) by (intro system.equality) (simp_all add: set_pool_def set_worker_def)
  ultimately have "system_steps obs (?st c (pre @ w # ws)) (?st c1 ((pre @ [w1]) @ ws))" using steps_step [OF a] by simp
  also have "system_steps obs (?st c1 ((pre @ [w1]) @ ws)) (?st c2 ((pre @ [w1]) @ ws2))" using Cons.IH [OF 2] .
  finally show ?case by (simp add: e)
qed simp

definition opened :: "worker \<Rightarrow> worker \<Rightarrow> bool" where
  "opened w w' \<longleftrightarrow> (\<exists>d b. w' = w\<lparr>w_doc := d, ready := b\<rparr> \<and> doc_uri d = doc_uri (w_doc w))"

lemma open_all_opened: "open_all txt0 buf ws c = (ws', c', r) \<Longrightarrow> list_all2 opened ws ws'"
proof (induction ws arbitrary: c ws' c' r)
  case (Cons w ws)
  obtain w1 c1 r1 where 1: "initialize_environment txt0 ''lean4'' (buf (doc_uri (w_doc w))) (w, c) = ((w1, c1), r1)"
    by (metis prod.exhaust)
  obtain ws2 c2 r2 where 2: "open_all txt0 buf ws c1 = (ws2, c2, r2)" by (metis prod_cases3)
  from Cons.prems 1 2 have "ws' = w1 # ws2" by auto
  with initialize_environment_effect(2) [OF 1] Cons.IH [OF 2] show ?case by (simp add: opened_def)
qed simp

lemma create_pool_installs:
  assumes "create_pool uri n txt0 a s = (s', r)" and "n \<noteq> 0"
  shows "\<exists>ws. worker_pool (routes s') = Some ((pool_of n uri a)\<lparr>workers := ws\<rparr>) \<and> list_all2 opened (workers (pool_of n uri a)) ws
    \<and> stale_pools s' = (case worker_pool (routes s) of None \<Rightarrow> [] | Some p \<Rightarrow> [p]) @ stale_pools s"
proof -
  obtain s1 r1 where 1: "initialize_worker_pool n uri txt0 a s = (s1, r1)" by fastforce
  define r0 where "r0 = fold (\<lambda>i. register_init_uri (worker_uri uri i)) [1..<Suc n] (routes s)"
  obtain ws c q where o: "open_all txt0 (\<lambda>v. snd (drain_init_buffer v r0)) (workers (pool_of n uri a)) (lsp s) = (ws, c, q)"
    by (metis prod_cases3)
  moreover have "worker_pool (routes s1) = Some ((pool_of n uri a)\<lparr>workers := ws\<rparr>)"
      "stale_pools s1 = (case worker_pool (routes s) of None \<Rightarrow> [] | Some p \<Rightarrow> [p]) @ stale_pools s"
    using 1 o assms(2) by (auto simp: initialize_worker_pool_def initialize_all_workers_def let_go_def r0_def [symmetric] Let_def
        simp del: upt_Suc One_nat_def split: sum.splits prod.splits)
  moreover have "routes s' = routes s1" "stale_pools s' = stale_pools s1" using assms(1) 1 by (auto simp: create_pool_def split: sum.splits prod.splits)
  ultimately show ?thesis using open_all_opened [OF o] by auto
qed

lemma register_all_steps:
  "system_steps obs s (s\<lparr>routes := fold (\<lambda>i. register_init_uri (f i)) is (routes s)\<rparr>)"
proof (induction "is" arbitrary: s)
  case (Cons i "is")
  have "system_step obs s (s\<lparr>routes := register_init_uri (f i) (routes s)\<rparr>)" by (rule system_step.register)
  from converse_rtranclp_into_rtranclp [of "system_step obs", OF this Cons] show ?case by simp
qed simp

lemma drain_all_steps:
  "system_steps obs s (s\<lparr>routes := fold (\<lambda>i r. fst (drain_init_buffer (f i) r)) is (routes s)\<rparr>)"
proof (induction "is" arbitrary: s)
  case (Cons i "is")
  have "system_step obs s (s\<lparr>routes := fst (drain_init_buffer (f i) (routes s))\<rparr>)" by (rule system_step.drain)
  from converse_rtranclp_into_rtranclp [of "system_step obs", OF this Cons] show ?case by simp
qed simp

lemma drain_pool: "fst (drain_init_buffer u (r\<lparr>worker_pool := x\<rparr>)) = (fst (drain_init_buffer u r))\<lparr>worker_pool := x\<rparr>"
  by (intro routing.equality) (simp_all add: drain_init_buffer_def)

lemma drain_all_pool:
  "fold (\<lambda>i r. fst (drain_init_buffer (f i) r)) is (r\<lparr>worker_pool := x\<rparr>)
     = (fold (\<lambda>i r. fst (drain_init_buffer (f i) r)) is r)\<lparr>worker_pool := x\<rparr>"
  by (induction "is" arbitrary: r) (simp_all add: drain_pool)

lemma initialize_pool_steps:
  assumes "initialize_worker_pool n uri txt0 a s = (s', r)"
  shows "system_steps obs s s'"
proof (cases "n = 0")
  case False
  define r0 where "r0 = fold (\<lambda>i. register_init_uri (worker_uri uri i)) [1..<Suc n] (routes s)"
  let ?dr = "fold (\<lambda>i r. fst (drain_init_buffer (worker_uri uri i) r)) [1..<Suc n]"
  obtain ws c q where o: "open_all txt0 (\<lambda>v. snd (drain_init_buffer v r0)) (workers (pool_of n uri a)) (lsp s) = (ws, c, q)"
    by (metis prod_cases3)
  let ?p = "(pool_of n uri a)\<lparr>workers := ws\<rparr>"
  have "s' = (let_go s)\<lparr>lsp := c, routes := (?dr r0)\<lparr>worker_pool := Some ?p\<rparr>\<rparr>"
    using assms o False by (auto simp: initialize_worker_pool_def initialize_all_workers_def r0_def [symmetric] Let_def
        simp del: upt_Suc One_nat_def split: sum.splits prod.splits)
  then have s': "s' = (let_go s)\<lparr>routes := ?dr (r0\<lparr>worker_pool := Some ?p\<rparr>), lsp := c\<rparr>"
    by (intro system.equality) (simp_all add: drain_all_pool del: upt_Suc)
  let ?s1 = "s\<lparr>routes := r0\<rparr>" and ?s2 = "(let_go s)\<lparr>routes := r0\<lparr>worker_pool := Some (pool_of n uri a)\<rparr>\<rparr>"
  have r0: "worker_pool r0 = worker_pool (routes s)"
    unfolding r0_def by (rule fold_invariant [where P = "\<lambda>r. worker_pool r = worker_pool (routes s)" and Q = "\<lambda>_. True"])
      (simp_all add: register_init_uri_def)
  have "system_steps obs s ?s1" unfolding r0_def by (rule register_all_steps)
  moreover have "(let_go ?s1)\<lparr>routes := (routes ?s1)\<lparr>worker_pool := Some (pool_of n uri a)\<rparr>\<rparr> = ?s2"
    using r0 by (intro system.equality) (simp_all add: let_go_def)
  with system_step.install [of obs ?s1 n uri a] have "system_step obs ?s1 ?s2" by simp
  ultimately have "system_steps obs s ?s2" by (rule steps_step)
  also have "system_steps obs ?s2 ((let_go s)\<lparr>routes := r0\<lparr>worker_pool := Some ?p\<rparr>, lsp := c\<rparr>)"
  proof -
    have "?s2\<lparr>lsp := lsp s\<rparr> = ?s2" by (intro system.equality) (simp_all add: let_go_def)
    with open_all_steps [OF o, where s = "(let_go s)\<lparr>routes := r0\<rparr>" and p = "pool_of n uri a" and pre = "[]" and obs = obs]
    show ?thesis by simp
  qed
  also have "system_steps obs ((let_go s)\<lparr>routes := r0\<lparr>worker_pool := Some ?p\<rparr>, lsp := c\<rparr>) s'"
  proof -
    let ?t = "(let_go s)\<lparr>routes := r0\<lparr>worker_pool := Some ?p\<rparr>, lsp := c\<rparr>"
    have "s' = ?t\<lparr>routes := ?dr (routes ?t)\<rparr>" unfolding s' by (intro system.equality) simp_all
    with drain_all_steps show ?thesis by metis
  qed
  finally show ?thesis .
qed (use assms in \<open>simp add: initialize_worker_pool_def\<close>)

lemma create_pool_steps:
  assumes "create_pool uri n txt0 a s = (s', r)"
  shows "system_steps obs s s'"
proof -
  obtain s1 r1 where 1: "initialize_worker_pool n uri txt0 a s = (s1, r1)" by fastforce
  note S = initialize_pool_steps [OF 1, of obs]
  obtain d w q where g: "attach_worker_guards (a_server_alive a) (a_readings a) (a_adopt a) (a_oom a)
      (arm txt0 n (dog s1)) (shared s1) = (d, w, q)" by (metis prod_cases3)
  let ?t = "s1\<lparr>dog := arm txt0 n (dog s1)\<rparr>"
  have "system_steps obs s ?t" using S system_step.arms by (rule steps_step)
  moreover have "system_step obs ?t (?t\<lparr>dog := d, shared := w\<rparr>)" by (rule system_step.guards) (use g in simp)
  ultimately have "system_steps obs s (s1\<lparr>dog := d, shared := w\<rparr>)" using steps_step by fastforce
  with S assms 1 g show ?thesis by (auto simp: create_pool_def split: sum.splits)
qed

section \<open>Restarting\<close>

lemma rebuild_steps:
  assumes "rebuild root_uri trigger a s = (s', r)"
  shows "system_steps obs s s'"
proof -
  obtain s1 r1 where 1: "connect_lsp root_uri a s = (s1, r1)" by fastforce
  obtain s2 r2 where 2: "(if armed (dog s1)
      then create_pool (root_uri @ ''/workers/'') (pool_size (dog s1)) (base_text (dog s1)) a s1 else (s1, Inr ())) = (s2, r2)"
    by fastforce
  have S1: "system_steps obs s s1" using 1 by (rule connect_lsp_steps)
  have "system_steps obs s1 s2" using 2 create_pool_steps by (auto split: if_splits)
  with S1 have S2: "system_steps obs s s2" by (rule rtranclp_trans)
  let ?ev = "recovery_event ''recovery_completed'' ''success'' [(''trigger'', JStr trigger)]"
  let ?t = "s2\<lparr>dog := (dog s2)\<lparr>server_ready := True\<rparr>\<rparr>"
  have "system_steps obs s ?t" using S2 system_step.set_ready by (rule steps_step)
  then have "system_steps obs s (?t\<lparr>shared := emit ?ev (shared ?t)\<rparr>)" using system_step.report by (rule steps_step)
  with S1 S2 assms 1 2 show ?thesis by (auto simp: rebuild_def split: sum.splits)
qed

lemma kill_server_steps:
  assumes "kill_server a s = Some s'"
  shows "system_steps obs s s'"
proof -
  obtain ks acts where k: "kill_process_tree (a_os a) ks = Some acts"
    and s': "s' = s\<lparr>signals := signals s @ acts, dog := stop_worker_scopes (dog s)\<rparr>"
    using assms by (auto simp: kill_server_def split: option.splits)
  let ?t = "s\<lparr>signals := signals s @ acts\<rparr>"
  have "system_steps obs s ?t" using system_step.kill [OF k] by (rule r_into_rtranclp)
  then have "system_steps obs s (?t\<lparr>dog := stop_worker_scopes (dog ?t)\<rparr>)" using system_step.drop_scopes by (rule steps_step)
  then show ?thesis unfolding s' by simp
qed

lemma map_workers_comp: "map_workers f (map_workers g r) = map_workers (f \<circ> g) r"
  by (simp add: map_workers_def option.map_comp comp_def)

lemma hush_steps:
  "system_steps obs s (s\<lparr>routes := (routes s)\<lparr>worker_pool := map_option (\<lambda>p. p\<lparr>keep_alive_running := False\<rparr>) (worker_pool (routes s))\<rparr>\<rparr>)"
proof (cases "worker_pool (routes s)")
  case None
  then have "s\<lparr>routes := (routes s)\<lparr>worker_pool := map_option (\<lambda>p. p\<lparr>keep_alive_running := False\<rparr>) (worker_pool (routes s))\<rparr>\<rparr> = s"
    by (intro system.equality routing.equality) simp_all
  then show ?thesis by (simp only: rtranclp.rtrancl_refl)
next
  case (Some p)
  from r_into_rtranclp [of "system_step obs", OF system_step.hush [OF Some]] Some show ?thesis by (simp add: set_pool_def)
qed

lemma begin_restart_steps: "system_steps obs s (begin_restart trigger reason culprits t s)"
proof -
  let ?ids = "culprit_ids trigger culprits (worker_pool (routes s))"
  let ?ev = "recovery_event ''recovery_started'' ''infrastructure_error''
                 [(''trigger'', JStr trigger), (''reason'', JStr reason),
                  (''culprit_worker_ids'', JArr (map JInt (sorted_list_of_set culprits)))]"
  let ?s1 = "s\<lparr>shared := emit ?ev (shared s)\<rparr>"
  let ?s2 = "s\<lparr>shared := emit ?ev (shared s), dog := (dog s)\<lparr>server_ready := False\<rparr>\<rparr>"
  let ?s3 = "s\<lparr>shared := pause_monitor (emit ?ev (shared s)), dog := (dog s)\<lparr>server_ready := False\<rparr>\<rparr>"
  let ?s4 = "?s3\<lparr>routes := map_workers (mark_culprit ?ids reason) (routes ?s3)\<rparr>"
  let ?s5 = "?s4\<lparr>routes := map_workers (poison_worker t) (routes ?s4)\<rparr>"
  let ?hush = "\<lambda>r. r\<lparr>worker_pool := map_option (\<lambda>p. p\<lparr>keep_alive_running := False\<rparr>) (worker_pool r)\<rparr>"
  let ?s6 = "?s5\<lparr>routes := ?hush (routes ?s5)\<rparr>"
  let ?s7 = "?s6\<lparr>routes := map_workers (\<lambda>w. w\<lparr>w_rpc := invalidate (w_rpc w)\<rparr>) (routes ?s6)\<rparr>"
  have "system_steps obs s ?s1" using system_step.report by (rule r_into_rtranclp)
  moreover have "system_step obs ?s1 ?s2" using system_step.set_ready [of obs ?s1 False] by simp
  moreover have "system_step obs ?s2 ?s3"
    using system_step.pause [of obs ?s2] by (rule back_subst) (intro system.equality, simp_all)
  ultimately have 3: "system_steps obs s ?s3" by (meson steps_step)
  have 4: "system_steps obs ?s3 ?s4" by (rule each_worker_steps) (rule system_step.mark)
  have 5: "system_steps obs ?s4 ?s5" by (rule each_worker_steps) (rule system_step.poison)
  have 6: "system_steps obs ?s5 ?s6" by (rule hush_steps)
  have 7: "system_steps obs ?s6 ?s7" by (rule each_worker_steps) (rule system_step.disconnect)
  have "client_steps (lsp ?s7) (wake_pending (lsp s))" using client_step.wake by (intro r_into_rtranclp) simp
  from steps_client [OF 7 this] 3 4 5 6
  have "system_steps obs s (?s7\<lparr>lsp := wake_pending (lsp s)\<rparr>)" by (meson rtranclp_trans)
  moreover have "?s7\<lparr>lsp := wake_pending (lsp s)\<rparr> = begin_restart trigger reason culprits t s"
    by (intro system.equality) (simp_all add: begin_restart_def teardown_pool_state_def map_workers_comp Let_def)
  ultimately show ?thesis by simp
qed

lemma restart_steps:
  assumes "restart root_uri trigger reason culprits a s = Some (s', r)"
  shows "system_steps obs s s'"
proof (cases "restart_locked (dog s)")
  case True
  with assms show ?thesis by (simp add: restart_def)
next
  case False
  from restart_cases [OF assms False] obtain s1
    where "kill_server a (begin_restart trigger reason culprits (a_now a) s) = Some s1"
      and "rebuild root_uri trigger a s1 = (s', r)" by blast
  with begin_restart_steps kill_server_steps rebuild_steps show ?thesis by (meson rtranclp_trans)
qed

lemma recover_steps:
  "recover_with_retry root_uri trigger reason culprits k as s = Some (s', ds, r) \<Longrightarrow> system_steps obs s s'"
proof (induction as arbitrary: k s ds)
  case (Cons a as)
  show ?case
  proof (cases "stopping (dog s)")
    case True
    with Cons.prems show ?thesis by simp
  next
    case False
    obtain s1 r1 where 1: "restart root_uri trigger reason culprits a s = Some (s1, r1)"
      using Cons.prems False by (auto split: option.splits)
    from Cons.prems False 1 have "s1 = s' \<or> (\<exists>ds'. recover_with_retry root_uri trigger reason culprits (k + 1) as s1 = Some (s', ds', r))"
      by (auto split: sum.splits if_splits)
    with Cons.IH restart_steps [OF 1] show ?thesis by (meson rtranclp_trans)
  qed
qed simp

lemma receive_event_steps:
  assumes "receive_event root_uri as ev s = Some (s', ds, r)"
  shows "system_steps obs s s'"
  using assms recover_steps system_step.adopt_guard
  by (cases ev) (auto simp: receive_event_def r_into_rtranclp split: if_splits)

section \<open>Exit\<close>

lemma drain_events_steps:
  "generation w = generation (shared s) \<Longrightarrow> system_steps obs s (s\<lparr>dog := drain_events w es (dog s)\<rparr>)"
proof (induction w es "dog s" arbitrary: s rule: drain_events.induct)
  case (2 w gen wid old g es)
  let ?t = "s\<lparr>dog := accept_replacement_guard gen wid old g (shared s) (dog s)\<rparr>"
  have a: "accept_replacement_guard gen wid old g w (dog s) = dog ?t"
    using "2.prems" by (simp add: accept_replacement_guard_def)
  have "system_step obs s ?t" by (rule system_step.adopt_guard)
  moreover have "system_steps obs ?t (?t\<lparr>dog := drain_events w es (dog ?t)\<rparr>)"
    using "2.prems" by (intro "2.hyps" a) simp
  ultimately show ?case using a by (simp add: converse_rtranclp_into_rtranclp)
qed simp_all

lemma watchdog_stop_steps:
  assumes "watchdog_stop exits pending (dog s) (shared s) = (d, w, b)"
  shows "system_steps obs s (s\<lparr>dog := d, shared := w\<rparr>)"
proof -
  let ?w = "send_command CStop (shared s)"
  let ?s1 = "s\<lparr>dog := (dog s)\<lparr>stopping := True\<rparr>, shared := ?w\<rparr>"
  let ?d = "if monitor_up (shared s) then drain_events ?w pending (dog ?s1) else dog ?s1"
  have 1: "system_steps obs s ?s1" using system_step.ask_stop by (rule r_into_rtranclp)
  have "system_steps obs ?s1 (?s1\<lparr>dog := ?d\<rparr>)"
  proof (cases "monitor_up (shared s)")
    case True
    with drain_events_steps [of ?w ?s1 obs pending] show ?thesis by simp
  next
    case False
    then have "?s1\<lparr>dog := ?d\<rparr> = ?s1" by (intro system.equality) simp_all
    then show ?thesis by (simp only: rtranclp.rtrancl_refl)
  qed
  with 1 have 2: "system_steps obs s (?s1\<lparr>dog := ?d\<rparr>)" by (rule rtranclp_trans)
  from steps_step [OF this system_step.drop_scopes]
  have 3: "system_steps obs s (?s1\<lparr>dog := stop_worker_scopes ?d\<rparr>)" by simp
  from steps_step [OF this system_step.monitor_gone] assms show ?thesis
    by (auto simp: watchdog_stop_def Let_def split: if_splits)
qed

text \<open>An \<open>exit\<close> is a stop, a message, and a kill.\<close>

lemma exit_steps:
  assumes "client_exit exits pending os h = Some (h', r)"
  shows "system_steps obs (sys h) (sys h')"
proof -
  obtain d w b where st: "watchdog_stop exits pending (dog (sys h)) (shared (sys h)) = (d, w, b)" by (metis prod_cases3)
  obtain c x where n: "notify ''exit'' (JObj []) (lsp (sys h)) = (c, x)" by fastforce
  let ?s1 = "(sys h)\<lparr>dog := d, shared := w\<rparr>" and ?s2 = "(sys h)\<lparr>dog := d, shared := w, lsp := c\<rparr>"
  have "client_steps (lsp ?s1) c" using notify_send_steps [of "lsp (sys h)" "''exit''" "JObj []"] n by simp
  from steps_client [OF watchdog_stop_steps [OF st] this] have 2: "system_steps obs (sys h) ?s2" by simp
  show ?thesis
  proof (cases "sys h' = ?s2")
    case False
    then obtain pid acts where "kill_process_tree (os\<lparr>os_root := Some pid\<rparr>) {} = Some acts"
      "sys h' = ?s2\<lparr>signals := signals ?s2 @ acts\<rparr>"
      using assms st n by (auto simp: client_exit_def Let_def split: sum.splits option.splits)
    with steps_step [OF 2 system_step.kill] show ?thesis by metis
  qed (use 2 in simp)
qed

section \<open>A worker's round\<close>

text \<open>
  A thread's round is made of the steps of the system: taking a task, any number of steps of the shared
  client and one of the thread's own document, answering it. Nothing the round does escapes the interleaving
  semantics.
\<close>
lemma round_is_steps:
  assumes "worker_pool (routes s) = Some p" and "i < length (workers p)" and "\<not> exited (workers p ! i)"
    and "current_task (workers p ! i) = None"
    and "run_iteration jl obs t0 t1 (workers p ! i) (lsp s) (shared s) = (w', c', io')"
  shows "system_steps obs s ((set_pool (set_worker i w' p) io' s)\<lparr>lsp := c'\<rparr>)"
proof -
  obtain w1 io1 b where 1: "run_begin obs t0 (workers p ! i) (shared s) = (w1, io1, b)" by (metis prod_cases3)
  let ?s1 = "set_pool (set_worker i w1 p) io1 s"
  have S1: "system_step obs s ?s1"
    using pool_step.take [OF assms(2-4) 1] by (rule system_step.pool [OF assms(1)])
  show ?thesis
  proof (cases b)
    case (Begun t gen)
    obtain w2 c2 r where 2: "process_task jl (t_type t) (t_kwargs t) (w1, lsp s) = ((w2, c2), r)" by (metis prod.exhaust)
    obtain w3 io3 where 3: "run_finish obs t1 gen r w2 io1 = (w3, io3)" by fastforce
    have E: "w' = w3" "c' = c2" "io' = io3" using assms(5) 1 2 3 Begun by (simp_all add: run_iteration_def)
    have K: "client_steps (lsp s) c2" "same_thread w1 w2" "doc_uri (w_doc w2) = doc_uri (w_doc w1)"
      using steps_opD [OF steps_process_task 2] sound_opD(1) [OF sound_process_task 2] by blast+
    have cur: "current_task w1 \<noteq> None" using 1 Begun by (auto simp: run_begin_def Let_def split: option.splits prod.splits)
    let ?p1 = "set_worker i w1 p" and ?p2 = "set_worker i w2 p"
    let ?s2 = "?s1\<lparr>lsp := c2\<rparr>"
    have S2: "system_steps obs ?s1 ?s2"
      using client_steps_system [OF K(1), of obs ?s1] by (simp add: set_pool_def)
    let ?s3 = "set_pool (set_worker i w2 ?p1) (shared ?s2) ?s2"
    have P1: "worker_pool (routes ?s2) = Some ?p1" "i < length (workers ?p1)" "workers ?p1 ! i = w1"
      using assms(2) by (simp_all add: set_pool_def set_worker_def)
    have S3: "system_step obs ?s2 ?s3"
      using P1 cur K(2,3) by (intro system_step.pool [OF P1(1)] pool_step.work) auto
    have P2: "worker_pool (routes ?s3) = Some (set_worker i w2 ?p1)" "i < length (workers (set_worker i w2 ?p1))"
      "workers (set_worker i w2 ?p1) ! i = w2" "shared ?s3 = io1"
      using assms(2) by (simp_all add: set_pool_def set_worker_def)
    have S4: "system_step obs ?s3 (set_pool (set_worker i w3 (set_worker i w2 ?p1)) io3 ?s3)"
      using P2 cur K(2) 3
      by (intro system_step.pool [OF P2(1)] pool_step.finish [where gen = gen and t = t1 and r = r]) (auto simp: same_thread_def)
    have "set_pool (set_worker i w3 (set_worker i w2 ?p1)) io3 ?s3 = (set_pool (set_worker i w' p) io' s)\<lparr>lsp := c'\<rparr>"
      by (simp add: E set_pool_def set_worker_def)
    with rtranclp_trans [OF r_into_rtranclp [of "system_step obs", OF S1] S2] S3 S4 show ?thesis
      by (metis rtranclp.rtrancl_into_rtrancl)
  qed (use assms(5) 1 S1 in \<open>auto simp: run_iteration_def set_pool_def\<close>)
qed

end
