(* ===== verification/Reachable.thy ===== *)
theory Reachable imports Refinement begin

text \<open>
  What holds in every state that some schedule of the threads reaches, with no assumption on that state:
  the monitor's accusations, the wake-up of a restart, the identity of workers and documents, and what a
  thread that has ended does to its queue.
\<close>

section \<open>What holds in every reachable state\<close>

lemma find_distinct:
  "distinct (map f xs) \<Longrightarrow> i < length xs \<Longrightarrow> List.find (\<lambda>x. f (xs ! i) = f x) xs = Some (xs ! i)"
proof (induction xs arbitrary: i)
  case (Cons x xs)
  then show ?case by (cases i) (auto, metis imageI nth_mem)
qed simp

lemma deliver_to_nth:
  "distinct (uris ws) \<Longrightarrow> i < length ws \<Longrightarrow>
     deliver_to (doc_uri (w_doc (ws ! i))) t m ws = ws[i := put_notification t m (ws ! i)]"
proof (induction ws arbitrary: i)
  case (Cons w ws)
  then show ?case by (cases i) (auto simp: uris_def, (metis imageI nth_mem)+)
qed simp

text \<open>
  C4: No server is blamed twice. Take any reachable state and any part of what was written to the command
  queue; however the monitor divides it into ticks and whatever it sees of the machine, it triggers at most
  once per generation, and never for a generation that the system has not reached.
\<close>
theorem monitor_never_blames_twice:
  assumes "reachable obs s" and "concat (map fst xs) = take n (commands (shared s))"
    and "monitor_run cfg xs monitor_start = (m, es)"
  shows "distinct (trigger_gens es) \<and> (\<forall>g \<in> set (trigger_gens es). g \<le> generation (shared s))"
proof -
  let ?gs = "root_gens (commands (shared s))"
  have ok: "sorted_wrt (<) (0 # ?gs)" "\<forall>g \<in> set ?gs. g \<le> generation (shared s)"
    using reachable_ok [OF assms(1)] by (auto simp: system_ok_def gens_ok_def)
  have "root_gens (concat cs) = concat (map root_gens cs)" for cs by (induction cs) auto
  from this [of "map fst xs"] have "concat (map (root_gens \<circ> fst) xs) = root_gens (take n (commands (shared s)))"
    by (simp add: assms(2))
  moreover have p: "?gs = root_gens (take n (commands (shared s))) @ root_gens (drop n (commands (shared s)))"
    by (metis append_take_drop_id root_gens_append)
  ultimately have s: "sorted_wrt (<) (0 # concat (map (root_gens \<circ> fst) xs))"
    using ok(1) by (simp add: sorted_wrt_append)
  then have "sorted_wrt (<) (0 # concat (map (root_gens \<circ> fst) xs) @ [Suc (generation (shared s))])"
    using ok(2) p \<open>concat (map (root_gens \<circ> fst) xs) = _\<close> by (auto simp: sorted_wrt_append less_Suc_eq_le)
  with monitor_run_keeps [OF _ _ assms(3), of "[]" "[Suc (generation (shared s))]"] show ?thesis
    by (fastforce simp: quiet_or_last_def monitor_start_def)
qed

text \<open>
  C2: A restart wakes everyone. In every reachable state, whatever the other threads are doing, a request that
  is pending when a restart begins finds exactly one \<open>ServiceUnavailable\<close> behind its earlier messages, and
  nobody is pending any more. No side condition on the table of pending requests is left: queues are never
  shared, on any schedule.
\<close>
theorem reachable_restart_wakes:
  assumes "reachable obs s" and "dict_get (pending_requests (lsp s)) i = Some q"
    and "begin_restart trigger reason culprits t s = s'"
  shows "response_queues (lsp s') q = response_queues (lsp s) q @ [Poisoned] \<and> pending_requests (lsp s') = []
    \<and> reachable obs s'"
proof -
  have "distinct (map snd (pending_requests (lsp s)))"
    using reachable_ok [OF assms(1)] by (simp add: system_ok_def client_ok_def)
  moreover have "reachable obs s'" using reachable_steps [OF assms(1) begin_restart_steps] assms(3) by blast
  ultimately show ?thesis
    using restart_wakes_everyone [OF _ assms(2), of trigger reason culprits t] assms(3) by auto
qed

text \<open>
  C16: Documents and workers stay matched. In every reachable state the workers are numbered from one in the
  order of the pool, each is the one that is found under its document's URI, and a notification for that URI
  goes to the end of its queue and to nobody else.
\<close>
theorem worker_owns_its_document:
  assumes "reachable obs s" and "worker_pool (routes s) = Some p" and "i < length (workers p)"
  shows "worker_id (workers p ! i) = int (Suc i)
    \<and> get_worker_for_uri (doc_uri (w_doc (workers p ! i))) p = Inr (workers p ! i)
    \<and> worker_pool (route_or_buffer (doc_uri (w_doc (workers p ! i))) t m (routes s))
        = Some (p\<lparr>workers := (workers p)[i := put_notification t m (workers p ! i)]\<rparr>)"
proof -
  have ok: "map worker_id (workers p) = map int [1..<Suc (length (workers p))]" "distinct (uris (workers p))"
    using reachable_ok [OF assms(1)] assms(2) by (simp_all add: system_ok_def pool_ok_def)
  have "map worker_id (workers p) ! i = map int [1..<Suc (length (workers p))] ! i" by (simp only: ok(1))
  then have "worker_id (workers p ! i) = int (Suc i)" using assms(3) by (simp del: upt_Suc)
  moreover have "List.find (\<lambda>w. doc_uri (w_doc (workers p ! i)) = doc_uri (w_doc w)) (workers p) = Some (workers p ! i)"
    using find_distinct [OF ok(2) [unfolded uris_def] assms(3)] .
  ultimately show ?thesis
    using assms(2) deliver_to_nth [OF ok(2) assms(3)] by (simp add: get_worker_for_uri_def route_or_buffer_def)
qed

section \<open>Threads that have ended\<close>

text \<open>Worker \<open>i\<close> of a pool has ended, and its queue starts with the tasks \<open>ts\<close>.\<close>

definition ended_in :: "nat \<Rightarrow> task option list \<Rightarrow> pool \<Rightarrow> bool" where
  "ended_in i ts p \<longleftrightarrow> i < length (workers p) \<and> exited (workers p ! i) \<and> current_task (workers p ! i) = None
     \<and> (\<exists>us. task_queue (workers p ! i) = ts @ us)"

definition pools :: "system \<Rightarrow> pool list" where
  "pools s = (case worker_pool (routes s) of None \<Rightarrow> [] | Some p \<Rightarrow> [p]) @ stale_pools s"

lemma ended_in_keeps:
  assumes "ended_in i ts p" and "length (workers p') = length (workers p)"
    and "exited (workers p ! i) \<Longrightarrow> exited (workers p' ! i)"
    and "current_task (workers p ! i) = None \<Longrightarrow> current_task (workers p' ! i) = None"
    and "\<exists>us. task_queue (workers p' ! i) = task_queue (workers p ! i) @ us"
  shows "ended_in i ts p'"
  using assms unfolding ended_in_def by force

lemma ended_in_worker:
  assumes "ended_in i ts p" and "j < length (workers p)" and "exited w = exited (workers p ! j)"
    and "current_task (workers p ! j) = None \<Longrightarrow> current_task w = None" and "task_queue w = task_queue (workers p ! j)"
  shows "ended_in i ts (set_worker j w p)"
  using assms by (intro ended_in_keeps [OF assms(1)]) (auto simp: set_worker_def nth_list_update)

lemma deliver_to_thread:
  "length (deliver_to u t m ws) = length ws"
  "i < length ws \<Longrightarrow> exited (deliver_to u t m ws ! i) = exited (ws ! i)
     \<and> current_task (deliver_to u t m ws ! i) = current_task (ws ! i)
     \<and> task_queue (deliver_to u t m ws ! i) = task_queue (ws ! i)"
  by (induction ws arbitrary: i) (auto simp: put_notification_def nth_Cons split: nat.split)

lemma enqueue_thread:
  "length (enqueue k t ws) = length ws"
  "i < length ws \<Longrightarrow> exited (enqueue k t ws ! i) = exited (ws ! i)
     \<and> current_task (enqueue k t ws ! i) = current_task (ws ! i)
     \<and> (\<exists>us. task_queue (enqueue k t ws ! i) = task_queue (ws ! i) @ us)"
  by (auto simp: enqueue_def q_put_def)

lemma route_or_buffer_workers:
  "worker_pool r = Some p \<Longrightarrow>
     \<exists>p'. worker_pool (route_or_buffer u t m r) = Some p' \<and> (workers p' = workers p \<or> workers p' = deliver_to u t m (workers p))"
  by (simp add: route_or_buffer_def buffer_notification_def split: sum.split option.split)

lemma set_worker_other:
  "i \<noteq> j \<Longrightarrow> workers (set_worker j w p) ! i = workers p ! i" "length (workers (set_worker j w p)) = length (workers p)"
  by (simp_all add: set_worker_def)

lemma ended_in_step:
  assumes "pool_step obs p io p' io'" and "ended_in i ts p"
  shows "ended_in i ts p'"
  using assms
proof (induction rule: pool_step.induct)
  case (submit rid tid t p io p' io')
  then have "workers p' = workers p" by (auto simp: submit_task_def Let_def)
  then show ?case by (intro ended_in_keeps [OF submit(2)]) auto
next
  case (route p io p' io')
  have "workers p' = workers p \<or> (\<exists>k t. workers p' = enqueue k t (workers p))"
    using route(1) by (auto simp: router_step_def assign_task_def Let_def split: option.splits if_splits) blast
  moreover have "i < length (workers p)" using route(2) by (auto simp: ended_in_def)
  ultimately show ?case using enqueue_thread by (intro ended_in_keeps [OF route(2)]) auto
next
  case (take j p t io w io' b)
  then have "i \<noteq> j" by (auto simp: ended_in_def)
  then show ?case by (intro ended_in_keeps [OF take(5)]) (auto simp: set_worker_other)
next
  case (work j p w io)
  then have "i \<noteq> j" by (auto simp: ended_in_def)
  then show ?case by (intro ended_in_keeps [OF work(5)]) (auto simp: set_worker_other)
next
  case (finish j p t gen r io w io')
  then have "i \<noteq> j" by (auto simp: ended_in_def)
  then show ?case by (intro ended_in_keeps [OF finish(4)]) (auto simp: set_worker_other)
qed

lemma pools_iff: "p \<in> set (pools s) \<longleftrightarrow> worker_pool (routes s) = Some p \<or> p \<in> set (stale_pools s)"
  by (auto simp: pools_def split: option.split)

lemma current_pool_keeps:
  assumes "p \<in> set (pools s)" and "ended_in i ts p"
    and "\<And>q. worker_pool (routes s) = Some q \<Longrightarrow> ended_in i ts q \<Longrightarrow> \<exists>q'. worker_pool (routes s') = Some q' \<and> ended_in i ts q'"
    and "stale_pools s' = stale_pools s"
  shows "\<exists>p' \<in> set (pools s'). ended_in i ts p'"
proof (cases "worker_pool (routes s) = Some p")
  case True
  with assms(2,3) show ?thesis by (auto simp: pools_iff)
next
  case False
  with assms(1,2,4) show ?thesis by (auto simp: pools_iff)
qed

lemma ended_step:
  assumes "system_step obs s s'" and "p \<in> set (pools s)" and "ended_in i ts p"
  shows "\<exists>p' \<in> set (pools s'). ended_in i ts p'"
proof -
  note current = current_pool_keeps [OF assms(2,3)]
  from assms(1) show ?thesis
  proof (cases rule: system_step.cases)
    case (pool q q' io)
    from pool(2) ended_in_step [OF pool(3)] show ?thesis
      unfolding pool(1) by (intro current) (auto simp: set_pool_def)
  next
    case (stale k q' io)
    have "p = stale_pools s ! k \<or> p \<in> set ((stale_pools s)[k := q'])" if "p \<in> set (stale_pools s)"
      using that by (auto simp: in_set_conv_nth) (metis length_list_update nth_list_update_neq)
    then consider "p \<in> set (pools s')" | "p = stale_pools s ! k"
      using assms(2) unfolding stale(1) pools_iff by auto
    then show ?thesis
    proof cases
      case 2
      with ended_in_step [OF stale(3)] assms(3) have "ended_in i ts q'" by simp
      moreover have "q' \<in> set (pools s')" using stale(2) by (simp add: stale(1) pools_iff set_update_memI)
      ultimately show ?thesis by blast
    qed (use assms(3) in blast)
  next
    case (notify t meth params r' res)
    show ?thesis unfolding notify(1)
    proof (intro current)
      fix q
      assume q: "worker_pool (routes s) = Some q" "ended_in i ts q"
      have "\<exists>q'. worker_pool r' = Some q' \<and> (workers q' = workers q \<or> (\<exists>u m. workers q' = deliver_to u t m (workers q)))"
        using handle_notification_cases [of t meth params "routes s"] notify(2) q(1) route_or_buffer_workers [OF q(1)]
        by (metis fst_conv)
      then obtain q' where "worker_pool r' = Some q'" "workers q' = workers q \<or> (\<exists>u m. workers q' = deliver_to u t m (workers q))"
        by blast
      moreover from this(2) q(2) have "ended_in i ts q'"
        using deliver_to_thread by (intro ended_in_keeps [OF q(2)]) (auto simp: ended_in_def)
      ultimately show "\<exists>q'. worker_pool (routes (s\<lparr>routes := r'\<rparr>)) = Some q' \<and> ended_in i ts q'" by simp
    qed simp
  next
    case (install n uri a)
    then have "p \<in> set (pools s')" using assms(2) by (auto simp: pools_iff let_go_def)
    with assms(3) show ?thesis by blast
  next
    case (register u)
    then show ?thesis by (intro current) (auto simp: register_init_uri_def)
  next
    case (drain u)
    then show ?thesis by (intro current) (auto simp: drain_init_buffer_def)
  next
    case (open_doc q j d b)
    then show ?thesis by (intro current) (auto simp: set_pool_def intro!: ended_in_worker)
  next
    case (mark q j ids reason)
    then show ?thesis
      by (intro current) (auto simp: set_pool_def mark_culprit_def split: option.split intro!: ended_in_worker)
  next
    case (poison q j t)
    then show ?thesis
      by (intro current) (auto simp: set_pool_def poison_worker_def put_notification_def intro!: ended_in_worker)
  next
    case (hush q)
    then show ?thesis by (intro current) (auto simp: set_pool_def ended_in_def)
  next
    case (disconnect q j)
    then show ?thesis by (intro current) (auto simp: set_pool_def intro!: ended_in_worker)
  qed (auto intro!: current)
qed

lemma ended_steps:
  assumes "system_steps obs s s'" and "p \<in> set (pools s)" and "ended_in i ts p"
  shows "\<exists>p' \<in> set (pools s'). ended_in i ts p'"
  using assms(1)
proof (induction rule: rtranclp_induct)
  case base
  then show ?case using assms(2,3) by blast
next
  case (step s1 s2)
  then show ?case using ended_step [OF step.hyps(2)] by blast
qed

section \<open>Witnesses\<close>

text \<open>A first server, started from nothing.\<close>

definition answered_client :: client where
  "answered_client = new_client\<lparr>waits := [Some (Response (JObj [(''result'', JObj [])]))]\<rparr>"

lemma reachable_step: "reachable obs s \<Longrightarrow> system_step obs s s' \<Longrightarrow> reachable obs s'"
  unfolding reachable_def by (meson rtranclp.rtrancl_into_rtrancl)

lemma reachable_fresh: "reachable obs (fresh_system d snk)"
  by (auto simp: reachable_def)

lemma demo_connected:
  "\<exists>s. reachable demo_observer s \<and> commands (shared s) = [CRoot 60 1] \<and> generation (shared s) = 1
     \<and> worker_pool (routes s) = None"
proof -
  let ?s0 = "fresh_system demo_watchdog True"
  let ?s1 = "?s0\<lparr>lsp := answered_client\<rparr>"
  have "client_step (lsp ?s0) answered_client"
    unfolding answered_client_def fresh_system_def by (simp add: client_step.wait)
  then have r1: "reachable demo_observer ?s1"
    using reachable_step [OF reachable_fresh] system_step.client by blast
  obtain s2 r where c: "connect_lsp ''file:///p'' demo_attempt ?s1 = (s2, r)" by fastforce
  then have "commands (shared s2) = [CRoot 60 1] \<and> generation (shared s2) = 1 \<and> worker_pool (routes s2) = None"
    by (auto simp: connect_lsp_def demo_attempt_def answered_client_def new_client_def fresh_system_def initialize_client_def
        request_def fresh_queue_def register_pending_def send_message_def await_reply_def drop_pending_def
        response_error_def response_result_def initialized_client_def notify_def start_watchdog_def set_root_process_def
        send_command_def Let_def split: prod.splits)
  with reachable_steps [OF r1 connect_lsp_steps [OF c]] show ?thesis by blast
qed

theorem monitor_never_blames_twice_witness:
  "\<exists>s. reachable demo_observer s \<and> generation (shared s) = 1
     \<and> (\<forall>g \<in> set (trigger_gens (snd (monitor_run demo_config [([CRoot 60 1], demo_view 1001 [] [])] monitor_start))).
          g \<le> generation (shared s))
     \<and> trigger_gens (snd (monitor_run demo_config [([CRoot 60 1], demo_view 1001 [] [])] monitor_start)) = [1]"
proof -
  obtain s where s: "reachable demo_observer s" "commands (shared s) = [CRoot 60 1]" "generation (shared s) = 1"
    using demo_connected by blast
  obtain m es where r: "monitor_run demo_config [([CRoot 60 1], demo_view 1001 [] [])] monitor_start = (m, es)" by fastforce
  have "trigger_gens (snd (monitor_run demo_config [([CRoot 60 1], demo_view 1001 [] [])] monitor_start)) = [1]"
    by (simp add: monitor_defs)
  with monitor_never_blames_twice [OF s(1) _ r, of 1] s r show ?thesis by auto
qed

theorem reachable_restart_wakes_witness:
  "\<exists>s. reachable demo_observer s
     \<and> response_queues (lsp (begin_restart ''death'' ''r'' {} 0 s)) 0 = [Poisoned]"
proof -
  let ?s0 = "fresh_system demo_watchdog True"
  let ?c = "register_pending 1 0 (fst (fresh_queue new_client))"
  have "client_step (lsp ?s0) ?c"
    by (rule client_step.expect) (simp add: fresh_queue_def fresh_system_def new_client_def)
  then have r: "reachable demo_observer (?s0\<lparr>lsp := ?c\<rparr>)"
    using reachable_step [OF reachable_fresh] system_step.client by blast
  have p: "dict_get (pending_requests (lsp (?s0\<lparr>lsp := ?c\<rparr>))) 1 = Some 0" "response_queues (lsp (?s0\<lparr>lsp := ?c\<rparr>)) 0 = []"
    by (simp_all add: register_pending_def fresh_queue_def new_client_def)
  from reachable_restart_wakes [OF r p(1) refl] p(2) r show ?thesis by auto
qed

theorem worker_owns_its_document_witness:
  "\<exists>s p. reachable demo_observer s \<and> worker_pool (routes s) = Some p
     \<and> worker_id (workers p ! 1) = 2 \<and> get_worker_for_uri (doc_uri (w_doc (workers p ! 1))) p = Inr (workers p ! 1)"
proof -
  obtain s r where c: "create_pool ''file:///p/workers/'' 2 [] demo_attempt (fresh_system demo_watchdog True) = (s, r)"
    by fastforce
  then have s: "reachable demo_observer s"
    using reachable_steps [OF reachable_fresh create_pool_steps] by blast
  obtain p where p: "worker_pool (routes s) = Some p" "length (workers p) = 2"
    using create_pool_installs [OF c] by (auto simp: opened_def pool_of_def new_pool_def Let_def dest: list_all2_lengthD)
  from worker_owns_its_document [OF s p(1), of 1] p s show ?thesis by auto
qed

end
