(* ===== verification/Receiver.thy ===== *)
theory Receiver imports Reachable begin

text \<open>
  The event receiver (\<open>_receive_events\<close> of \<open>pyleaner/watchdog.py\<close>): the thread of the owner that turns what
  the monitor reports into recoveries, notices that the monitor itself has died, and ends when the watchdog is
  stopped.
\<close>

text \<open>
  One turn of the loop: an event; half a second without one, with the state of the monitor process and its exit
  code; or a queue that is gone. Where a recovery may follow, the attempts the environment allows it.
\<close>

datatype turn =
    Got monitor_event "attempt list"
  | Quiet bool "int option" "attempt list"
  | QueueGone

definition death_reason :: "int option \<Rightarrow> string" where
  "death_reason code =
     ''Lean watchdog monitor process exited unexpectedly (exitcode=''
     @ (case code of None \<Rightarrow> ''None'' | Some c \<Rightarrow> show_int c) @ '', signal=''
     @ (case code of Some c \<Rightarrow> if c < 0 then ''SIG'' @ show_int (- c) else ''None'' | None \<Rightarrow> ''None'') @ '')''"

definition receive_turn :: "string \<Rightarrow> turn \<Rightarrow> system \<Rightarrow> (system \<times> real list \<times> (exn + bool)) option" where
  "receive_turn root_uri p s =
     (case p of
        Got ev as \<Rightarrow> receive_event root_uri as ev s
      | Quiet up code as \<Rightarrow>
          if monitor_up (shared s) \<and> \<not> up
          then recover_with_retry root_uri ''watchdog_death'' (death_reason code) {} 0 as s
          else Some (s, [], Inr True)
      | QueueGone \<Rightarrow> Some (s, [], Inr False))"

text \<open>
  The outcome is \<open>Inr True\<close> while the thread goes on after the last turn, \<open>Inr False\<close> when it has ended or is in
  a recovery that outlives the attempts it was given, and an exception that ended it.
\<close>

fun receive_events :: "string \<Rightarrow> turn list \<Rightarrow> system \<Rightarrow> (system \<times> real list \<times> (exn + bool)) option" where
  "receive_events root_uri [] s = Some (s, [], Inr True)"
| "receive_events root_uri (p # ps) s =
     (if stopping (dog s) then Some (s, [], Inr False)
      else (case receive_turn root_uri p s of
              None \<Rightarrow> None
            | Some (s1, ds, Inr True) \<Rightarrow>
                map_option (\<lambda>(s2, ds', r). (s2, ds @ ds', r)) (receive_events root_uri ps s1)
            | Some r \<Rightarrow> Some r))"

section \<open>Generations never go back\<close>

lemma start_watchdog_mono: "start_watchdog b f sp d w = (d', w', r) \<Longrightarrow> generation w \<le> generation w'"
  by (auto simp: start_watchdog_def Let_def split: if_splits option.splits)

lemma attach_generation: "attach_worker_guards b rd ad oom d w = (d', w', r) \<Longrightarrow> generation w' = generation w"
  by (auto simp: attach_worker_guards_def Let_def frame_simps split: if_splits sum.splits)

lemma connect_mono:
  assumes "connect_lsp root_uri a s = (s', r)"
  shows "generation (shared s) \<le> generation (shared s')"
  using assms start_watchdog_mono by (fastforce simp: connect_lsp_def Let_def split: sum.splits prod.splits)

lemma create_pool_generation:
  assumes "create_pool uri n txt0 a s = (s', r)"
  shows "generation (shared s') = generation (shared s)"
  using assms initialize_pool_frame(2) attach_generation by (auto simp: create_pool_def split: sum.splits prod.splits)

lemma connect_success:
  assumes "connect_lsp root_uri a s = (s', Inr ())" and "a_server_alive a"
  shows "\<exists>pid. a_popen a = Inr pid \<and> server_pid s' = Some pid \<and> monitor_up (shared s')
    \<and> generation (shared s') = Suc (generation (shared s))
    \<and> (\<exists>cs. commands (shared s') = cs @ [CRoot pid (generation (shared s'))] \<and> (\<not> a_monitor_alive a \<longrightarrow> cs = []))
    \<and> (stopping (dog s') \<longrightarrow> stopping (dog s) \<and> monitor_up (shared s))"
  using assms
  by (auto simp: connect_lsp_def start_watchdog_def set_root_process_def frame_simps Let_def
      split: sum.splits prod.splits if_splits option.splits)

lemma rebuild_success:
  assumes "rebuild root_uri trigger a s = (s', Inr ())"
  obtains s1 where "connect_lsp root_uri a s = (s1, Inr ())"
    and "generation (shared s') = generation (shared s1)" and "server_pid s' = server_pid s1"
    and "monitor_up (shared s') = monitor_up (shared s1)" and "stopping (dog s') = stopping (dog s1)"
    and "\<exists>cs. commands (shared s') = commands (shared s1) @ cs \<and> (\<forall>c \<in> set cs. \<exists>gs. c = CGuards (generation (shared s1)) gs)"
proof -
  obtain s1 where 1: "connect_lsp root_uri a s = (s1, Inr ())"
    using assms by (auto simp: rebuild_def split: sum.splits prod.splits)
  obtain s2 where 2: "(if armed (dog s1)
      then create_pool (root_uri @ ''/workers/'') (pool_size (dog s1)) (base_text (dog s1)) a s1 else (s1, Inr ())) = (s2, Inr ())"
    and s': "s' = s2\<lparr>dog := (dog s2)\<lparr>server_ready := True\<rparr>,
        shared := emit (recovery_event ''recovery_completed'' ''success'' [(''trigger'', JStr trigger)]) (shared s2)\<rparr>"
    using assms 1 by (auto simp: rebuild_def split: sum.splits prod.splits)
  have A: "monitor_up w' = monitor_up w \<and> stopping d' = stopping d
      \<and> (\<exists>cs. commands w' = commands w @ cs \<and> (\<forall>c \<in> set cs. \<exists>gs. c = CGuards (generation w) gs))"
    if "attach_worker_guards b rd ad oom d w = (d', w', r)" for b rd ad oom d w d' w' r
    using that
    by (auto simp: attach_worker_guards_def send_command_def stop_worker_scopes_def frame_simps Let_def
        split: if_splits sum.splits)
  have "generation (shared s2) = generation (shared s1) \<and> server_pid s2 = server_pid s1
      \<and> monitor_up (shared s2) = monitor_up (shared s1) \<and> stopping (dog s2) = stopping (dog s1)
      \<and> (\<exists>cs. commands (shared s2) = commands (shared s1) @ cs \<and> (\<forall>c \<in> set cs. \<exists>gs. c = CGuards (generation (shared s1)) gs))"
  proof (cases "armed (dog s1)")
    case True
    then obtain i r0 where i: "initialize_worker_pool (pool_size (dog s1)) (root_uri @ ''/workers/'') (base_text (dog s1)) a s1 = (i, r0)"
      by fastforce
    have "server_pid i = server_pid s1"
      using i by (auto simp: initialize_worker_pool_def let_go_def Let_def split: prod.splits if_splits)
    with True 2 i initialize_pool_frame [OF i] A show ?thesis
      by (fastforce simp: create_pool_def arm_def dest: attach_generation split: sum.splits prod.splits)
  qed (use 2 in auto)
  with 1 s' that show thesis by (simp add: frame_simps)
qed

lemma begin_restart_shared:
  "generation (shared (begin_restart trigger reason culprits t s)) = generation (shared s)"
  "monitor_up (shared (begin_restart trigger reason culprits t s)) = monitor_up (shared s)"
  by (simp_all add: begin_restart_def teardown_pool_state_def pause_monitor_def send_command_def frame_simps Let_def)

lemma rebuild_mono:
  assumes "rebuild root_uri trigger a s = (s', r)"
  shows "generation (shared s) \<le> generation (shared s')"
proof -
  obtain s1 r1 where 1: "connect_lsp root_uri a s = (s1, r1)" by fastforce
  obtain s2 r2 where 2: "(if armed (dog s1)
      then create_pool (root_uri @ ''/workers/'') (pool_size (dog s1)) (base_text (dog s1)) a s1 else (s1, Inr ())) = (s2, r2)"
    by fastforce
  then have "generation (shared s2) = generation (shared s1)" using create_pool_generation by (auto split: if_splits)
  with connect_mono [OF 1] assms 1 2 show ?thesis by (auto simp: rebuild_def frame_simps split: sum.splits)
qed

lemma restart_mono:
  assumes "restart root_uri trigger reason culprits a s = Some (s', r)" and "\<not> restart_locked (dog s)"
  shows "generation (shared s) \<le> generation (shared s')"
    and "r = Inr () \<Longrightarrow> a_server_alive a \<Longrightarrow> generation (shared s) < generation (shared s')"
proof -
  obtain s1 where k: "kill_server a (begin_restart trigger reason culprits (a_now a) s) = Some s1"
    and b: "rebuild root_uri trigger a s1 = (s', r)" using restart_cases [OF assms] by metis
  have g: "generation (shared s1) = generation (shared s)"
    using kill_server_frame(3) [OF k] by (simp add: begin_restart_shared)
  with rebuild_mono [OF b] show "generation (shared s) \<le> generation (shared s')" by simp
  assume "r = Inr ()" "a_server_alive a"
  with b obtain s2 where "connect_lsp root_uri a s1 = (s2, Inr ())" "generation (shared s') = generation (shared s2)"
    using rebuild_success by metis
  with connect_success [OF this(1) \<open>a_server_alive a\<close>] g show "generation (shared s) < generation (shared s')" by auto
qed

lemma recover_new_generation:
  assumes "recover_with_retry root_uri trigger reason culprits k as s = Some (s', ds, Inr True)"
    and "\<not> restart_locked (dog s)" and "\<forall>a \<in> set as. a_server_alive a"
  shows "generation (shared s) < generation (shared s')"
  using assms
proof (induction as arbitrary: k s ds)
  case (Cons a as)
  from Cons.prems(1) have "\<not> stopping (dog s)" by (auto split: if_splits)
  with Cons.prems(1) obtain s1 r1 where 1: "restart root_uri trigger reason culprits a s = Some (s1, r1)"
    by (auto split: option.splits)
  note R = ready_iff_restarted_lemma [OF 1 Cons.prems(2)] and M = restart_mono [OF 1 Cons.prems(2)]
  show ?case
  proof (cases r1)
    case (Inr u)
    with Cons.prems 1 M(2) \<open>\<not> stopping (dog s)\<close> show ?thesis by auto
  next
    case (Inl e)
    with Cons.prems(1) 1 \<open>\<not> stopping (dog s)\<close>
    obtain ds' where "recover_with_retry root_uri trigger reason culprits (Suc k) as s1 = Some (s', ds', Inr True)"
      by (auto split: if_splits)
    with Cons.IH [OF this] Cons.prems(3) R M(1) show ?thesis by auto
  qed
qed auto

section \<open>One recovery for each server\<close>

lemma stale_turns:
  assumes "\<forall>p \<in> set ps. \<exists>g tr rs ws as. p = Got (Trigger g tr rs ws) as \<and> g < generation (shared s)" and "\<not> stopping (dog s)"
  shows "receive_events root_uri ps s = Some (s, [], Inr True)"
  using assms by (induction ps) (auto simp: receive_turn_def receive_event_def)

text \<open>
  C19: A server is replaced once, however often it is accused. When a trigger has led to a recovery that
  succeeded, every further trigger for that server or an older one, whatever it says and however many are still
  in the queue, leaves the system untouched: the new server and the tasks on it do not suffer for the old one.
\<close>
theorem late_accusations_change_nothing:
  assumes "recover_with_retry root_uri trigger reason (set ws) 0 as s = Some (s', ds, Inr True)"
    and "\<not> restart_locked (dog s)" and "\<forall>a \<in> set as. a_server_alive a" and "\<not> stopping (dog s)" and "\<not> stopping (dog s')"
    and "\<forall>p \<in> set ps. \<exists>g tr rs vs bs. p = Got (Trigger g tr rs vs) bs \<and> g \<le> generation (shared s)"
  shows "receive_events root_uri (Got (Trigger (generation (shared s)) trigger reason ws) as # ps) s = Some (s', ds, Inr True)"
proof -
  have "receive_events root_uri ps s' = Some (s', [], Inr True)"
    using recover_new_generation [OF assms(1-3)] assms(5,6) by (intro stale_turns) (auto dest: order.strict_trans1)
  with assms(1,4) show ?thesis by (simp add: receive_turn_def receive_event_def)
qed

section \<open>What a restart builds\<close>

text \<open>
  C21: A successful restart leaves a pool that works, if the watchdog was armed: as many workers as it was armed
  with, numbered in order, their threads running, idle and with nothing in their queues, on documents below the
  default base URI, whatever that of the old pool was. The old pool is let go of as it is: the idle ones among its
  threads and its router run on. A watchdog that was not armed leaves the old pool in place, with the threads that
  the poison has ended.
\<close>
theorem restart_builds_the_pool:
  assumes "restart root_uri trigger reason culprits a s = Some (s', Inr ())" and "\<not> restart_locked (dog s)"
  shows "if armed (dog s)
    then \<exists>p. worker_pool (routes s') = Some p \<and> length (workers p) = pool_size (dog s) \<and> overall_queue p = []
      \<and> (\<forall>i < length (workers p). doc_uri (w_doc (workers p ! i)) = worker_uri (root_uri @ ''/workers/'') (Suc i)
           \<and> worker_id (workers p ! i) = int (Suc i) \<and> \<not> exited (workers p ! i)
           \<and> current_task (workers p ! i) = None \<and> task_queue (workers p ! i) = [])
      \<and> stale_pools s' = pools (begin_restart trigger reason culprits (a_now a) s)
    else routes s' = routes (begin_restart trigger reason culprits (a_now a) s)"
proof -
  obtain s0 where k: "kill_server a (begin_restart trigger reason culprits (a_now a) s) = Some s0"
    and b: "rebuild root_uri trigger a s0 = (s', Inr ())" using restart_cases [OF assms] by metis
  have R: "routes s0 = routes (begin_restart trigger reason culprits (a_now a) s)"
    using k by (auto simp: kill_server_def split: option.splits)
  have D: "armed (dog s0) = armed (dog s)" "pool_size (dog s0) = pool_size (dog s)"
    using k by (auto simp: kill_server_def begin_restart_dog stop_worker_scopes_def frame_simps split: option.splits)
  obtain s1 where 1: "connect_lsp root_uri a s0 = (s1, Inr ())"
    using b by (auto simp: rebuild_def split: sum.splits prod.splits)
  have S: "stale_pools s1 = stale_pools s0" "stale_pools s0 = stale_pools (begin_restart trigger reason culprits (a_now a) s)"
    using 1 k by (auto simp: connect_lsp_def kill_server_def Let_def split: option.splits sum.splits prod.splits if_splits)
  have C: "routes s1 = routes s0" "armed (dog s1) = armed (dog s0)" "pool_size (dog s1) = pool_size (dog s0)"
    using 1 by (auto simp: connect_lsp_def start_watchdog_def Let_def split: sum.splits prod.splits if_splits option.splits)
  show ?thesis
  proof (cases "armed (dog s)")
    case False
    with b 1 C D R show ?thesis by (auto simp: rebuild_def)
  next
    case True
    let ?n = "pool_size (dog s)" and ?u = "root_uri @ ''/workers/''"
    obtain s2 where 2: "create_pool ?u ?n (base_text (dog s1)) a s1 = (s2, Inr ())" "routes s' = routes s2" "stale_pools s' = stale_pools s2"
      using b 1 C D True by (auto simp: rebuild_def split: sum.splits prod.splits)
    then have "?n \<noteq> 0" by (auto simp: create_pool_def initialize_worker_pool_def split: if_splits)
    from create_pool_installs [OF 2(1) this] obtain ws
      where p: "worker_pool (routes s') = Some ((pool_of ?n ?u a)\<lparr>workers := ws\<rparr>)"
        and st: "stale_pools s' = pools (begin_restart trigger reason culprits (a_now a) s)"
        and l: "list_all2 opened (workers (pool_of ?n ?u a)) ws" using 2(2,3) S C(1) R by (auto simp: pools_def)
    have n: "length (workers (pool_of ?n ?u a)) = ?n" by (simp add: pool_of_def new_pool_def Let_def)
    have "opened (workers (pool_of ?n ?u a) ! i) (ws ! i)" if "i < ?n" for i using list_all2_nthD [OF l] n that by simp
    moreover have "doc_uri (w_doc (workers (pool_of ?n ?u a) ! i)) = worker_uri ?u (Suc i)
        \<and> worker_id (workers (pool_of ?n ?u a) ! i) = int (Suc i) \<and> \<not> exited (workers (pool_of ?n ?u a) ! i)
        \<and> current_task (workers (pool_of ?n ?u a) ! i) = None \<and> task_queue (workers (pool_of ?n ?u a) ! i) = []"
      if "i < ?n" for i
      using that by (simp add: pool_of_def new_pool_def new_worker_def new_doc_def Let_def nth_append del: upt_Suc)
    ultimately have "\<forall>i < ?n. doc_uri (w_doc (ws ! i)) = worker_uri ?u (Suc i) \<and> worker_id (ws ! i) = int (Suc i)
        \<and> \<not> exited (ws ! i) \<and> current_task (ws ! i) = None \<and> task_queue (ws ! i) = []"
      by (fastforce simp: opened_def)
    moreover have "length ws = ?n" using l n by (simp add: list_all2_lengthD)
    moreover have "overall_queue (pool_of ?n ?u a) = []" by (simp add: pool_of_def new_pool_def Let_def)
    ultimately show ?thesis using p st True by simp
  qed
qed

section \<open>The receiver as a part of the system\<close>

text \<open>
  Whatever the monitor reports, in whatever order, and however many attempts each recovery takes, the thread's effect
  is a sequence of atomic steps of \<open>System\<close>, so what holds in every reachable state holds before, during and after it.
\<close>
lemma receiver_is_steps:
  assumes "receive_events root_uri ps s = Some (s', ds, r)" and "reachable obs s"
  shows "system_steps obs s s' \<and> reachable obs s'"
proof -
  have turn: "system_steps obs s s1" if "receive_turn root_uri p s = Some (s1, xs, x)" and "reachable obs s"
    for p s s1 xs x
    using that recover_steps receive_event_steps by (cases p) (auto simp: receive_turn_def split: if_splits)
  have reach: "reachable obs t" if "system_steps obs s t" and "reachable obs s" for s t
    using that by (auto simp: reachable_def intro: rtranclp_trans)
  have "system_steps obs s s'" using assms
  proof (induction ps arbitrary: s ds)
    case (Cons p ps)
    show ?case
    proof (cases "stopping (dog s)")
      case False
      then obtain s1 xs x where 1: "receive_turn root_uri p s = Some (s1, xs, x)"
        using Cons.prems(1) by (auto split: option.splits)
      note T = turn [OF 1 Cons.prems(2)]
      from Cons.prems(1) False 1 have "s1 = s' \<or> (\<exists>ys. receive_events root_uri ps s1 = Some (s', ys, r))"
        by (auto split: sum.splits bool.splits)
      with Cons.IH reach [OF T Cons.prems(2)] T show ?thesis by (meson rtranclp_trans)
    qed (use Cons.prems(1) in auto)
  qed simp
  with reach assms(2) show ?thesis by blast
qed

section \<open>The monitor is replaced, too\<close>

lemma last_attempt:
  assumes "recover_with_retry root_uri trigger reason culprits k as s = Some (s', ds, Inr True)" and "\<not> restart_locked (dog s)"
  obtains a s0 where "a \<in> set as" and "\<not> stopping (dog s0)" and "rebuild root_uri trigger a s0 = (s', Inr ())"
  using assms
proof (induction as arbitrary: k s ds thesis)
  case (Cons a as)
  from Cons.prems(2) have n: "\<not> stopping (dog s)" by (auto split: if_splits)
  with Cons.prems(2) obtain s1 r1 where 1: "restart root_uri trigger reason culprits a s = Some (s1, r1)"
    by (auto split: option.splits)
  obtain s0 where k: "kill_server a (begin_restart trigger reason culprits (a_now a) s) = Some s0"
    and b: "rebuild root_uri trigger a s0 = (s1, r1)" using restart_cases [OF 1 Cons.prems(3)] by metis
  have "stopping (dog s0) = stopping (dog s)"
    using k by (auto simp: kill_server_def begin_restart_dog stop_worker_scopes_def frame_simps split: option.splits)
  show ?case
  proof (cases r1)
    case (Inr u)
    with Cons.prems(2) n 1 have "s1 = s'" by auto
    with b Inr n \<open>stopping (dog s0) = stopping (dog s)\<close> show ?thesis by (intro Cons.prems(1) [of a s0]) auto
  next
    case (Inl e)
    with Cons.prems(2) 1 n
    obtain ds' where r: "recover_with_retry root_uri trigger reason culprits (Suc k) as s1 = Some (s', ds', Inr True)"
      by (auto split: if_splits)
    show ?thesis
      by (rule Cons.IH [OF _ r]) (use Cons.prems(1) ready_iff_restarted_lemma [OF 1 Cons.prems(3)] in auto)
  qed
qed auto

text \<open>
  C20: The observer is observed. When the monitor process has died, the receiver notices within half a second
  and rebuilds server and monitor; if an attempt succeeds, a monitor is running, the first thing it is told
  under the new generation is the new server, and nothing after that but guards for it. No task in flight is
  blamed for the death of the monitor.
\<close>
theorem dead_monitor_is_replaced:
  assumes "receive_turn root_uri (Quiet False code as) s = Some (s', ds, Inr True)" and "monitor_up (shared s)"
    and "\<not> restart_locked (dog s)" and "\<forall>a \<in> set as. a_server_alive a"
  shows "generation (shared s) < generation (shared s') \<and> monitor_up (shared s') \<and> \<not> stopping (dog s')
    \<and> (\<exists>pid cs gs. server_pid s' = Some pid \<and> commands (shared s') = cs @ CRoot pid (generation (shared s')) # gs
         \<and> (\<forall>c \<in> set gs. \<exists>g. c = CGuards (generation (shared s')) g))
    \<and> (\<forall>t p. worker_pool (routes s) = Some p \<longrightarrow>
         (\<exists>p'. worker_pool (routes (begin_restart ''watchdog_death'' (death_reason code) {} t s)) = Some p'
            \<and> map current_task (workers p') = map current_task (workers p)))"
proof -
  have r: "recover_with_retry root_uri ''watchdog_death'' (death_reason code) {} 0 as s = Some (s', ds, Inr True)"
    using assms(1,2) by (simp add: receive_turn_def)
  from last_attempt [OF this assms(3)] obtain a s0 where a: "a \<in> set as" "\<not> stopping (dog s0)"
    and b: "rebuild root_uri ''watchdog_death'' a s0 = (s', Inr ())" by metis
  from rebuild_success [OF b] obtain s1 where 1: "connect_lsp root_uri a s0 = (s1, Inr ())"
    and e: "generation (shared s') = generation (shared s1)" "server_pid s' = server_pid s1"
      "monitor_up (shared s') = monitor_up (shared s1)" "stopping (dog s') = stopping (dog s1)"
      "\<exists>cs. commands (shared s') = commands (shared s1) @ cs \<and> (\<forall>c \<in> set cs. \<exists>gs. c = CGuards (generation (shared s1)) gs)"
    by blast
  have "current_task (poison_worker t (mark_culprit {} rs w)) = current_task w" for t rs w
    by (simp add: poison_worker_def mark_culprit_def put_notification_def split: option.split)
  then have "worker_pool (routes s) = Some p \<Longrightarrow>
      \<exists>p'. worker_pool (routes (begin_restart ''watchdog_death'' (death_reason code) {} t s)) = Some p'
        \<and> map current_task (workers p') = map current_task (workers p)" for t p
    by (simp add: begin_restart_pool culprit_ids_def precise_trigger_def comp_def)
  moreover obtain pid cs where c: "server_pid s1 = Some pid" "monitor_up (shared s1)"
      "commands (shared s1) = cs @ [CRoot pid (generation (shared s1))]" "\<not> stopping (dog s1)"
    using connect_success [OF 1 bspec [OF assms(4) a(1)]] a(2) by blast
  moreover have "\<exists>gs. commands (shared s') = cs @ CRoot pid (generation (shared s')) # gs
      \<and> (\<forall>c \<in> set gs. \<exists>g. c = CGuards (generation (shared s')) g)"
    using e(5) c(3) e(1) by auto
  ultimately show ?thesis using e(1-4) recover_new_generation [OF r assms(3,4)] by auto
qed

section \<open>Exit and recovery\<close>

text \<open>
  C24: Exit does not stop a recovery that is under way. If \<open>exit\<close> is called while the receiver is rebuilding the
  server, between the kill of the old one and the connection to the new one, then the rebuilding goes on behind
  its back, and connecting withdraws the stop request: there are a server and a monitor again, and nothing
  remembers that the client was told to exit.
\<close>
theorem exit_loses_to_a_recovery:
  assumes "client_exit exits pending os h = Some (h', r)" and "rebuild root_uri trigger a (sys h') = (s, Inr ())"
    and "a_server_alive a"
  shows "stopping (dog (sys h')) \<and> \<not> stopping (dog s) \<and> monitor_up (shared s) \<and> server_ready (dog s)
    \<and> (\<exists>pid. a_popen a = Inr pid \<and> server_pid s = Some pid)"
proof -
  have "stopping (drain_events w es d) = stopping d" for w es d
    by (induction w es d rule: drain_events.induct)
      (auto simp: accept_replacement_guard_def frame_simps split: option.split)
  then have "stopping (dog (sys h')) \<and> \<not> monitor_up (shared (sys h'))"
    using assms(1)
    by (auto simp: client_exit_def watchdog_stop_def stop_worker_scopes_def frame_simps Let_def
        split: prod.splits sum.splits option.splits)
  moreover obtain s1 where 1: "connect_lsp root_uri a (sys h') = (s1, Inr ())" and e: "server_pid s = server_pid s1"
      "monitor_up (shared s) = monitor_up (shared s1)" "stopping (dog s) = stopping (dog s1)"
    using rebuild_success [OF assms(2)] by metis
  ultimately show ?thesis
    using connect_success [OF 1 assms(3)] rebuild_ready(1) [OF assms(2)] by auto
qed

theorem late_accusations_change_nothing_witness:
  "\<exists>s'. receive_events ''file:///p'' [Got (Trigger 3 ''deadline'' ''r'' [1]) [demo_attempt], Got (Trigger 3 ''memory'' ''r2'' [2]) []]
      demo_system = Some (s', [], Inr True) \<and> generation (shared demo_system) = 3"
proof -
  obtain s' where s': "restart ''file:///p'' ''deadline'' ''r'' {1} demo_attempt demo_system = Some (s', Inr ())"
    using demo_restart by blast
  have n: "\<not> stopping (dog demo_system)" "a_server_alive demo_attempt" and g: "generation (shared demo_system) = 3"
    by (simp_all add: demo_system_def demo_watchdog_def demo_attempt_def demo_shared_def)
  have r: "recover_with_retry ''file:///p'' ''deadline'' ''r'' (set [1]) 0 [demo_attempt] demo_system = Some (s', [], Inr True)"
    using s' n(1) by simp
  from last_attempt [OF r demo_lock] obtain a s0 where "a \<in> set [demo_attempt]" "\<not> stopping (dog s0)"
    "rebuild ''file:///p'' ''deadline'' a s0 = (s', Inr ())" by metis
  then obtain s1 where "connect_lsp ''file:///p'' demo_attempt s0 = (s1, Inr ())" "stopping (dog s') = stopping (dog s1)"
    using rebuild_success by (metis list.set(1,2) singletonD)
  with connect_success [OF this(1) n(2)] \<open>\<not> stopping (dog s0)\<close> have "\<not> stopping (dog s')" by blast
  with late_accusations_change_nothing [OF r demo_lock _ n(1), of "[Got (Trigger 3 ''memory'' ''r2'' [2]) []]"] n(2) g
  show ?thesis by simp
qed

theorem dead_monitor_is_replaced_witness:
  "\<exists>s'. receive_turn ''file:///p'' (Quiet False (Some (- 9)) [demo_attempt]) demo_system = Some (s', [], Inr True)
     \<and> monitor_up (shared s')"
proof -
  obtain s' where s': "restart ''file:///p'' ''watchdog_death'' (death_reason (Some (- 9))) {} demo_attempt demo_system = Some (s', Inr ())"
    using demo_restart by blast
  have n: "\<not> stopping (dog demo_system)" "a_server_alive demo_attempt" "monitor_up (shared demo_system)"
    by (simp_all add: demo_system_def demo_watchdog_def demo_attempt_def demo_shared_def)
  have r: "receive_turn ''file:///p'' (Quiet False (Some (- 9)) [demo_attempt]) demo_system = Some (s', [], Inr True)"
    using s' n by (simp add: receive_turn_def)
  from dead_monitor_is_replaced [OF r n(3) demo_lock] n(2) r show ?thesis by simp
qed

theorem exit_loses_to_a_recovery_witness:
  "\<exists>h s. client_exit True [] demo_os demo_host = Some (h, Inr ()) \<and> stopping (dog (sys h))
     \<and> rebuild ''file:///p'' ''death'' demo_attempt (sys h) = (s, Inr ()) \<and> \<not> stopping (dog s) \<and> server_pid s = Some 60"
proof -
  obtain h where h: "client_exit True [] demo_os demo_host = Some (h, Inr ())" using demo_exit by blast
  then have "waits (lsp (sys h)) = [Some (Response (JObj [(''result'', JObj [])]))]" "faults (lsp (sys h)) = []"
    "\<not> armed (dog (sys h))"
    by (auto simp: client_exit_def watchdog_stop_def stop_worker_scopes_def frame_simps demo_host_def demo_system_def
        demo_client_def demo_watchdog_def notify_def send_message_def Let_def split: prod.splits option.splits if_splits)
  then obtain s where s: "rebuild ''file:///p'' ''death'' demo_attempt (sys h) = (s, Inr ())" using demo_rebuild by blast
  have "a_server_alive demo_attempt" "a_popen demo_attempt = Inr 60" by (simp_all add: demo_attempt_def)
  with exit_loses_to_a_recovery [OF h s] h s show ?thesis by auto
qed

definition open_attempt :: attempt where
  "open_attempt = demo_attempt\<lparr>a_arrivals := (\<lambda>u. [(1, progress_msg u 0 [])])\<rparr>"

lemma demo_create:
  assumes "process_up (lsp s)" and "faults (lsp s) = []" and "memory_max (dog s) = None" 
  shows "\<exists>s'. create_pool u 1 txt0 open_attempt s = (s', Inr ())"
proof -
  have "\<exists>ws c. open_all txt0 buf (workers (pool_of 1 u open_attempt)) (lsp s) = (ws, c, Inr 0)"
    if "buf (worker_uri u 1) = []" for buf
    using assms(1,2) that
    by (simp add: pool_of_def new_pool_def new_worker_def new_doc_def open_attempt_def Let_def initialize_environment_def
        on_doc_def didopen_def doc_notify_def reset_version_def insert_drained_def demo_attempt_def message_defs)
  moreover have "snd (drain_init_buffer (worker_uri u 1) (register_init_uri (worker_uri u 1) r)) = []" for r
    by (simp add: drain_init_buffer_def register_init_uri_def dict_simps)
  ultimately obtain ws c where
    "open_all txt0 (\<lambda>v. snd (drain_init_buffer v (register_init_uri (worker_uri u 1) (routes s))))
       (workers (pool_of 1 u open_attempt)) (lsp s) = (ws, c, Inr 0)" by metis
  then have "\<exists>s1. initialize_worker_pool 1 u txt0 open_attempt s = (s1, Inr ()) \<and> dog s1 = dog s"
    by (simp add: initialize_worker_pool_def initialize_all_workers_def let_go_def pool_of_def new_pool_def Let_def)
  then obtain s1 where "initialize_worker_pool 1 u txt0 open_attempt s = (s1, Inr ())" "dog s1 = dog s" by blast
  with assms(3) show ?thesis
    by (simp add: create_pool_def attach_worker_guards_def open_attempt_def demo_attempt_def arm_def all_found_def
        memory_guards_enabled_def)
qed

definition armed_system :: system where
  "armed_system = demo_system\<lparr>dog := demo_watchdog\<rparr>"

lemma demo_armed_restart:
  "\<exists>s'. restart ''file:///p'' trigger reason culprits open_attempt armed_system = Some (s', Inr ())"
proof -
  have "os_root (a_os open_attempt) = None" by (simp add: open_attempt_def demo_attempt_def)
  from demo_killed [OF this] obtain s1
    where k: "kill_server open_attempt (begin_restart trigger reason culprits (a_now open_attempt) armed_system) = Some s1"
      and "waits (lsp s1) = waits (lsp armed_system)" "faults (lsp s1) = faults (lsp armed_system)"
        "armed (dog s1) = armed (dog armed_system)" "pool_size (dog s1) = pool_size (dog armed_system)"
        "memory_max (dog s1) = memory_max (dog armed_system)" by blast
  then have w: "waits (lsp s1) = [Some (Response (JObj [(''result'', JObj [])]))]" "faults (lsp s1) = []"
    and d: "armed (dog s1)" "pool_size (dog s1) = 1" "memory_max (dog s1) = None"
    by (simp_all add: armed_system_def demo_system_def demo_client_def demo_watchdog_def)
  have "a_popen open_attempt = Inr 60" "a_monitor_start open_attempt = None" by (simp_all add: open_attempt_def demo_attempt_def)
  from demo_connect [OF w this] d obtain s2
    where 2: "connect_lsp ''file:///p'' open_attempt s1 = (s2, Inr ())" "process_up (lsp s2)" "faults (lsp s2) = []"
      and d2: "armed (dog s2)" "pool_size (dog s2) = 1" "memory_max (dog s2) = None" by auto
  from demo_create [OF 2(2,3) d2(3)] obtain s3
    where "create_pool (''file:///p'' @ ''/workers/'') 1 (base_text (dog s2)) open_attempt s2 = (s3, Inr ())" by blast
  moreover have "\<not> restart_locked (dog armed_system)" by (simp add: armed_system_def demo_watchdog_def)
  ultimately show ?thesis using k 2(1) d2 by (simp add: restart_def rebuild_def)
qed

theorem restart_builds_the_pool_witness:
  "\<exists>s' p. restart ''file:///p'' ''death'' ''r'' {} open_attempt armed_system = Some (s', Inr ())
     \<and> worker_pool (routes s') = Some p \<and> map (doc_uri \<circ> w_doc) (workers p) = [''file:///p/workers/worker_1.lean'']"
proof -
  obtain s' where s': "restart ''file:///p'' ''death'' ''r'' {} open_attempt armed_system = Some (s', Inr ())"
    using demo_armed_restart by blast
  have a: "armed (dog armed_system)" "\<not> restart_locked (dog armed_system)" "pool_size (dog armed_system) = 1"
    by (simp_all add: armed_system_def demo_watchdog_def)
  from restart_builds_the_pool [OF s' a(2)] a(1,3) obtain p
    where p: "worker_pool (routes s') = Some p" "length (workers p) = 1"
      "doc_uri (w_doc (workers p ! 0)) = worker_uri (''file:///p'' @ ''/workers/'') 1" by auto
  then have "map (doc_uri \<circ> w_doc) (workers p) = [worker_uri (''file:///p'' @ ''/workers/'') 1]"
    by (cases "workers p") auto
  moreover have "show_nat 1 = ''1''" by code_simp
  ultimately show ?thesis using s' p(1) by (simp add: worker_uri_def)
qed

end
