(* ===== verification/Supervisor.thy ===== *)
theory Supervisor imports Receiver begin

text \<open>
  What the event receiver is for, said without pools, queues and processes: an abstract supervisor that serves one
  generation of servers after the other, opens and closes the door for submissions, and keeps a record of the
  accusations on which it has begun a restart. \<open>receive_events\<close> refines it.
\<close>

section \<open>The supervisor\<close>

record supervision =
  serving :: nat
  open_door :: bool
  watched :: bool
  told_to_stop :: bool
  charges :: "(string, value) dict list"

definition charge_of :: "string \<Rightarrow> string \<Rightarrow> int set \<Rightarrow> (string, value) dict" where
  "charge_of trigger reason ws =
     [(''trigger'', JStr trigger), (''reason'', JStr reason),
      (''culprit_worker_ids'', JArr (map JInt (sorted_list_of_set ws)))]"

text \<open>What a turn accuses whom of: only the server that is being served, or a monitor that was there.\<close>

definition accusation :: "supervision \<Rightarrow> turn \<Rightarrow> (string, value) dict option" where
  "accusation A p =
     (case p of
        Got (Trigger g trigger reason ws) as \<Rightarrow> if g = serving A then Some (charge_of trigger reason (set ws)) else None
      | Quiet up code as \<Rightarrow>
          if watched A \<and> \<not> up then Some (charge_of ''watchdog_death'' (death_reason code) {}) else None
      | _ \<Rightarrow> None)"

definition ends_thread :: "turn \<Rightarrow> bool" where
  "ends_thread p \<longleftrightarrow> p = QueueGone \<or> (\<exists>as. p = Got EventStop as)"

fun attempts_of :: "turn \<Rightarrow> attempt list" where
  "attempts_of (Got ev as) = as"
| "attempts_of (Quiet up code as) = as"
| "attempts_of QueueGone = []"

text \<open>
  A recovery on the charge \<open>c\<close>, with \<open>m\<close> attempts at its disposal: some fail, each of them begun on this charge and on
  no other; the door is open in the end exactly if one has succeeded, and then it is a later generation that is
  served.
\<close>

definition recovers :: "(string, value) dict \<Rightarrow> nat \<Rightarrow> supervision \<Rightarrow> exn + bool \<Rightarrow> supervision \<Rightarrow> bool" where
  "recovers c m A r B \<longleftrightarrow> \<not> told_to_stop B \<and> serving A \<le> serving B \<and>
     (case r of
        Inr True \<Rightarrow> (\<exists>n < m. charges B = charges A @ replicate (Suc n) c) \<and> serving A < serving B \<and> open_door B \<and> watched B
      | Inr False \<Rightarrow> charges B = charges A @ replicate m c \<and> (if m = 0 then B = A else \<not> open_door B)
      | Inl e \<Rightarrow> (\<exists>n < m. charges B = charges A @ replicate (Suc n) c) \<and> \<not> is_Exception e \<and> \<not> open_door B)"

inductive supervises :: "supervision \<Rightarrow> turn list \<Rightarrow> exn + bool \<Rightarrow> supervision \<Rightarrow> bool" where
  rests: "supervises A [] (Inr True) A"
| told: "told_to_stop A \<Longrightarrow> supervises A (p # ps) (Inr False) A"
| finishes: "\<not> told_to_stop A \<Longrightarrow> ends_thread p \<Longrightarrow> supervises A (p # ps) (Inr False) A"
| passes: "\<not> told_to_stop A \<Longrightarrow> \<not> ends_thread p \<Longrightarrow> accusation A p = None \<Longrightarrow> supervises A ps r B \<Longrightarrow>
    supervises A (p # ps) r B"
| replaces: "\<not> told_to_stop A \<Longrightarrow> accusation A p = Some c \<Longrightarrow> recovers c (length (attempts_of p)) A (Inr True) B \<Longrightarrow>
    supervises B ps r C \<Longrightarrow> supervises A (p # ps) r C"
| gets_stuck: "\<not> told_to_stop A \<Longrightarrow> accusation A p = Some c \<Longrightarrow> recovers c (length (attempts_of p)) A r B \<Longrightarrow>
    r \<noteq> Inr True \<Longrightarrow> supervises A (p # ps) r B"

inductive_cases supervisesE: "supervises A (p # ps) r B"
inductive_cases supervises_NilE: "supervises A [] r B"

section \<open>What the program shows of it\<close>

definition started_events :: "io \<Rightarrow> (string, value) dict list" where
  "started_events w = map ev_details (filter (\<lambda>e. ev_kind e = ''recovery_started'') (events w))"

definition supervision_of :: "system \<Rightarrow> supervision" where
  "supervision_of s = \<lparr>serving = generation (shared s), open_door = server_ready (dog s), watched = monitor_up (shared s),
     told_to_stop = stopping (dog s), charges = started_events (shared s)\<rparr>"

lemma supervision_simps [simp]:
  "serving (supervision_of s) = generation (shared s)" "open_door (supervision_of s) = server_ready (dog s)"
  "watched (supervision_of s) = monitor_up (shared s)" "told_to_stop (supervision_of s) = stopping (dog s)"
  "charges (supervision_of s) = started_events (shared s)"
  by (simp_all add: supervision_of_def)

text \<open>What a step may do without being noticed: the events, the sink and the stop request stay, or the latter goes.\<close>

definition unnoticed :: "system \<Rightarrow> system \<Rightarrow> bool" where
  "unnoticed s s' \<longleftrightarrow> events (shared s') = events (shared s) \<and> sink_on (shared s') = sink_on (shared s)
     \<and> (stopping (dog s') \<longrightarrow> stopping (dog s))"

lemma unnoticed_trans: "unnoticed s1 s2 \<Longrightarrow> unnoticed s2 s3 \<Longrightarrow> unnoticed s1 s3"
  by (simp add: unnoticed_def)

lemma connect_unnoticed: "connect_lsp root_uri a s = (s', r) \<Longrightarrow> unnoticed s s'"
  by (auto simp: unnoticed_def connect_lsp_def start_watchdog_def set_root_process_def frame_simps Let_def
      split: sum.splits prod.splits if_splits option.splits)

lemma attach_unnoticed:
  "attach_worker_guards b rd ad oom d w = (d', w', r) \<Longrightarrow>
     events w' = events w \<and> sink_on w' = sink_on w \<and> stopping d' = stopping d"
  by (auto simp: attach_worker_guards_def stop_worker_scopes_def frame_simps Let_def split: if_splits sum.splits)

lemma create_pool_unnoticed:
  assumes "create_pool uri n txt0 a s = (s', r)"
  shows "unnoticed s s'"
proof -
  obtain s1 r1 where i: "initialize_worker_pool n uri txt0 a s = (s1, r1)" by fastforce
  from assms i initialize_pool_frame [OF i] attach_unnoticed show ?thesis
    by (fastforce simp: create_pool_def unnoticed_def arm_def split: sum.splits prod.splits)
qed

lemma rebuild_shows:
  assumes "rebuild root_uri trigger a s = (s', r)"
  shows "started_events (shared s') = started_events (shared s) \<and> sink_on (shared s') = sink_on (shared s)
    \<and> (stopping (dog s') \<longrightarrow> stopping (dog s))"
proof -
  obtain s1 r1 where 1: "connect_lsp root_uri a s = (s1, r1)" by fastforce
  obtain s2 r2 where 2: "(if armed (dog s1)
      then create_pool (root_uri @ ''/workers/'') (pool_size (dog s1)) (base_text (dog s1)) a s1 else (s1, Inr ())) = (s2, r2)"
    by fastforce
  then have "unnoticed s1 s2" using create_pool_unnoticed by (auto simp: unnoticed_def split: if_splits)
  with connect_unnoticed [OF 1] have "unnoticed s s2" by (rule unnoticed_trans)
  moreover have "unnoticed s s1" using connect_unnoticed [OF 1] .
  ultimately show ?thesis using assms 1 2
    by (auto simp: rebuild_def unnoticed_def started_events_def emit_eq recovery_event_def new_event_def
        split: sum.splits prod.splits)
qed

lemma restart_shows:
  assumes "restart root_uri trigger reason ws a s = Some (s', r)" and "\<not> restart_locked (dog s)" and "sink_on (shared s)"
  shows "started_events (shared s') = started_events (shared s) @ [charge_of trigger reason ws]"
    and "sink_on (shared s')" and "stopping (dog s') \<Longrightarrow> stopping (dog s)"
proof -
  obtain s1 where k: "kill_server a (begin_restart trigger reason ws (a_now a) s) = Some s1"
    and b: "rebuild root_uri trigger a s1 = (s', r)" using restart_cases [OF assms(1,2)] by metis
  have "stopping (dog s1) = stopping (dog s)"
    using k by (auto simp: kill_server_def begin_restart_dog stop_worker_scopes_def frame_simps split: option.splits)
  moreover have "shared s1 = pause_monitor (emit (recovery_event ''recovery_started'' ''infrastructure_error''
      (charge_of trigger reason ws)) (shared s))"
    using kill_server_frame(3) [OF k] by (simp add: begin_restart_def teardown_pool_state_def charge_of_def Let_def)
  ultimately show "started_events (shared s') = started_events (shared s) @ [charge_of trigger reason ws]"
    and "sink_on (shared s')" and "stopping (dog s') \<Longrightarrow> stopping (dog s)"
    using rebuild_shows [OF b] assms(3)
    by (auto simp: started_events_def pause_monitor_def frame_simps emit_eq recovery_event_def new_event_def)
qed

section \<open>The refinement\<close>

lemma recovers_after:
  assumes "recovers c m A1 r B" and "charges A1 = charges A @ [c]" and "serving A \<le> serving A1" and "\<not> open_door A1"
  shows "recovers c (Suc m) A r B"
proof -
  have "charges A1 @ replicate k c = charges A @ replicate (Suc k) c" for k by (simp add: assms(2))
  with assms(1,3,4) show ?thesis
    unfolding recovers_def by (auto split: sum.splits bool.splits if_splits intro: Suc_mono)
qed

lemma recovery_refines:
  assumes "recover_with_retry root_uri trigger reason ws k as s = Some (s', ds, r)" and "\<not> restart_locked (dog s)"
    and "sink_on (shared s)" and "\<not> stopping (dog s)" and "\<forall>a \<in> set as. a_server_alive a"
  shows "recovers (charge_of trigger reason ws) (length as) (supervision_of s) r (supervision_of s')
    \<and> \<not> restart_locked (dog s') \<and> sink_on (shared s')"
  using assms
proof (induction as arbitrary: k s ds)
  case Nil
  then show ?case by (auto simp: recovers_def)
next
  case (Cons a as)
  obtain s1 r1 where 1: "restart root_uri trigger reason ws a s = Some (s1, r1)"
    using Cons.prems(1,4) by (auto split: option.splits)
  note R = ready_iff_restarted_lemma [OF 1 Cons.prems(2)] and M = restart_mono [OF 1 Cons.prems(2)]
    and E = restart_shows [OF 1 Cons.prems(2,3)]
  consider "r1 = Inr ()" | e where "r1 = Inl e" "\<not> is_Exception e" | e where "r1 = Inl e" "is_Exception e"
    by (cases r1) auto
  then show ?case
  proof cases
    case 1
    obtain s0 where "rebuild root_uri trigger a s0 = (s1, Inr ())"
      using restart_cases [OF \<open>restart root_uri trigger reason ws a s = Some (s1, r1)\<close> Cons.prems(2)] 1 by metis
    then obtain s2 where "connect_lsp root_uri a s0 = (s2, Inr ())" "monitor_up (shared s1) = monitor_up (shared s2)"
      by (rule rebuild_success)
    then have "monitor_up (shared s1)" using connect_success [of root_uri a s0 s2] Cons.prems(5) by auto
    moreover have "s' = s1" "r = Inr True" using Cons.prems(1,4) \<open>restart root_uri trigger reason ws a s = Some (s1, r1)\<close> 1 by auto
    ultimately show ?thesis using R M E Cons.prems(4,5) 1 by (auto simp: recovers_def)
  next
    case (2 e)
    then have "s' = s1" "r = Inl e" using Cons.prems(1,4) 1 by auto
    with R M E Cons.prems(4) 2 show ?thesis by (auto simp: recovers_def)
  next
    case (3 e)
    then obtain ds' where "recover_with_retry root_uri trigger reason ws (Suc k) as s1 = Some (s', ds', r)"
      using Cons.prems(1,4) 1 by (auto split: option.splits)
    from Cons.IH [OF this] R E Cons.prems(4,5) M(1) 3 show ?thesis
      by (auto intro!: recovers_after [of _ _ "supervision_of s1"])
  qed
qed

lemma accept_keeps_supervision:
  "supervision_of (s\<lparr>dog := accept_replacement_guard gen w old g (shared s) (dog s)\<rparr>) = supervision_of s"
  "restart_locked (accept_replacement_guard gen w old g (shared s) (dog s)) = restart_locked (dog s)"
  by (auto simp: supervision_of_def accept_replacement_guard_def frame_simps split: option.split)

text \<open>
  C10: The receiver is a supervisor. Whatever the monitor reports and whatever state it is in itself, the thread begins
  a restart only on an accusation of the server that is being served, or on the death of the monitor, with exactly the
  trigger, the reason and the workers of that accusation, again and again until an attempt succeeds; everything else
  it passes over without any effect on door, server or record. After a success the door is open and a later
  generation is served; a recovery that does not succeed leaves the door closed. The thread ends only on a stop
  request, at the end of its queue, or in a recovery that ends in something worse than an \<open>Exception\<close>.
\<close>
theorem receiver_refines_supervisor:
  assumes "receive_events root_uri ps s = Some (s', ds, r)" and "\<not> restart_locked (dog s)" and "sink_on (shared s)"
    and "\<forall>p \<in> set ps. \<forall>a \<in> set (attempts_of p). a_server_alive a"
  shows "supervises (supervision_of s) ps r (supervision_of s')"
  using assms
proof (induction ps arbitrary: s ds)
  case Nil
  then show ?case by (auto intro: rests)
next
  case (Cons p ps)
  show ?case
  proof (cases "stopping (dog s)")
    case True
    with Cons.prems(1) show ?thesis by (auto intro: told)
  next
    case go: False
    have recovery: ?thesis if "accusation (supervision_of s) p = Some (charge_of trigger reason ws)"
        "receive_turn root_uri p s = recover_with_retry root_uri trigger reason ws 0 (attempts_of p) s" for trigger reason ws
    proof -
      note T = that
      obtain s1 xs x where 1: "recover_with_retry root_uri trigger reason ws 0 (attempts_of p) s = Some (s1, xs, x)"
        using Cons.prems(1) go T(2) by (auto split: option.splits)
      have R: "recovers (charge_of trigger reason ws) (length (attempts_of p)) (supervision_of s) x (supervision_of s1)"
        "\<not> restart_locked (dog s1)" "sink_on (shared s1)"
        using recovery_refines [OF 1 Cons.prems(2,3) go] Cons.prems(4) by simp_all
      show ?thesis
      proof (cases "x = Inr True")
        case True
        then obtain ds' where "receive_events root_uri ps s1 = Some (s', ds', r)" using Cons.prems(1) go T(2) 1 by auto
        from Cons.IH [OF this R(2,3)] Cons.prems(4) True R(1) go T(1) show ?thesis by (auto intro: replaces)
      next
        case False
        then have "s' = s1" "r = x" using Cons.prems(1) go T(2) 1 by (auto split: sum.splits bool.splits)
        with False R(1) go T(1) show ?thesis by (auto intro: gets_stuck)
      qed
    qed
    have passing: ?thesis if "receive_turn root_uri p s = Some (s1, [], Inr True)" "supervision_of s1 = supervision_of s"
        "restart_locked (dog s1) = restart_locked (dog s)" "sink_on (shared s1)" "accusation (supervision_of s) p = None"
        "\<not> ends_thread p" for s1
    proof -
      note T = that
      obtain ds' where "receive_events root_uri ps s1 = Some (s', ds', r)" using Cons.prems(1) go T(1) by auto
      from Cons.IH [OF this] T(2-) Cons.prems(2,4) go show ?thesis by (auto intro: passes)
    qed
    show ?thesis
    proof (cases p)
      case (Got ev as)
      show ?thesis
      proof (cases ev)
        case EventStop
        with Got Cons.prems(1) go show ?thesis
          by (auto simp: receive_turn_def receive_event_def intro!: finishes simp: ends_thread_def)
      next
        case (GuardReplaced gen w old g)
        with Got Cons.prems(3) accept_keeps_supervision [where s = s] show ?thesis
          by (intro passing [of "s\<lparr>dog := accept_replacement_guard gen w old g (shared s) (dog s)\<rparr>"])
            (auto simp: receive_turn_def receive_event_def accusation_def ends_thread_def)
      next
        case (Trigger g trigger reason ws)
        with Got Cons.prems(3) show ?thesis
        proof (cases "g = generation (shared s)")
          case True
          with Got Trigger show ?thesis
            by (intro recovery [of trigger reason "set ws"]) (auto simp: receive_turn_def receive_event_def accusation_def)
        qed (intro passing, auto simp: receive_turn_def receive_event_def accusation_def ends_thread_def)
      qed
    next
      case (Quiet up code as)
      show ?thesis
      proof (cases "monitor_up (shared s) \<and> \<not> up")
        case True
        with Quiet show ?thesis
          by (intro recovery [of "''watchdog_death''" "death_reason code" "{}"]) (auto simp: receive_turn_def accusation_def)
      qed (use Quiet Cons.prems(3) in \<open>intro passing, auto simp: receive_turn_def accusation_def ends_thread_def\<close>)
    next
      case QueueGone
      with Cons.prems(1) go show ?thesis by (auto simp: receive_turn_def ends_thread_def intro!: finishes)
    qed
  qed
qed

text \<open>A turn without an event, and an accusation of the server whose one attempt fails.\<close>

theorem receiver_refines_supervisor_witness:
  "\<exists>s'. receive_events ''file:///p'' [Quiet True None [], Got (Trigger 0 ''death'' ''r'' []) [failing_attempt]]
       (fresh_system demo_watchdog True) = Some (s', [retry_delay 1], Inr False)
     \<and> started_events (shared s') = [charge_of ''death'' ''r'' {}] \<and> \<not> server_ready (dog s')"
proof -
  let ?s = "fresh_system demo_watchdog True"
  have s: "\<not> restart_locked (dog ?s)" "sink_on (shared ?s)" "\<not> stopping (dog ?s)" "generation (shared ?s) = 0"
    "started_events (shared ?s) = []" by (simp_all add: fresh_system_def demo_watchdog_def started_events_def)
  have "\<exists>s'. receive_event ''file:///p'' [failing_attempt] (Trigger 0 ''death'' ''r'' []) ?s = Some (s', [retry_delay 1], Inr False)"
    by (simp add: receive_event_def fresh_system_def demo_watchdog_def restart_def kill_server_def failing_attempt_def
        demo_attempt_def kill_process_tree_def rebuild_def connect_lsp_def)
  then obtain s' where r: "receive_events ''file:///p'' [Quiet True None [], Got (Trigger 0 ''death'' ''r'' []) [failing_attempt]] ?s
      = Some (s', [retry_delay 1], Inr False)"
    using s(3) by (auto simp: receive_turn_def)
  have "supervises (supervision_of ?s) [Quiet True None [], Got (Trigger 0 ''death'' ''r'' []) [failing_attempt]] (Inr False) (supervision_of s')"
    by (rule receiver_refines_supervisor [OF r s(1,2)]) (simp add: failing_attempt_def demo_attempt_def)
  then have "supervises (supervision_of ?s) [Got (Trigger 0 ''death'' ''r'' []) [failing_attempt]] (Inr False) (supervision_of s')"
    using s(3) by (auto elim: supervisesE simp: ends_thread_def accusation_def)
  then have "recovers (charge_of ''death'' ''r'' {}) 1 (supervision_of ?s) (Inr False) (supervision_of s')"
    using s(3,4) by (auto elim!: supervisesE supervises_NilE simp: ends_thread_def accusation_def)
  with r s(5) show ?thesis by (auto simp: recovers_def)
qed

end
