(* ===== verification/Conservation.thy ===== *)
theory Conservation imports Reachable begin

text \<open>
  One task, one answer, on every schedule. \<open>submit_resilient\<close> and the operations of the pool make a queue for
  each submission and wait on it; here the answers that are put on such a queue, and the tasks that still owe it
  one, are counted over whole schedules of \<open>System\<close>, in the current pool and in those that restarts have replaced.
\<close>

section \<open>What is owed\<close>

definition asking :: "nat \<Rightarrow> task list \<Rightarrow> nat" where
  "asking q ts = length (filter (\<lambda>t. t_result_q t = Some q) ts)"

definition owed_by :: "nat \<Rightarrow> worker \<Rightarrow> nat" where
  "owed_by q w = asking q (queued w) + asking q (case current_task w of Some t \<Rightarrow> [t] | None \<Rightarrow> [])"

definition owed :: "nat \<Rightarrow> pool \<Rightarrow> nat" where
  "owed q p = asking q (overall_queue p) + sum_list (map (owed_by q) (workers p))"

definition answered :: "nat \<Rightarrow> io \<Rightarrow> nat" where
  "answered q io = length (filter (\<lambda>(r, _). r = q) (answers io))"

definition debt :: "nat \<Rightarrow> system \<Rightarrow> nat" where
  "debt q s = answered q (shared s) + sum_list (map (owed q) (pools s))"

lemma asking_simps [simp]:
  "asking q [] = 0" "asking q (t # ts) = (if t_result_q t = Some q then 1 else 0) + asking q ts"
  "asking q (ts @ us) = asking q ts + asking q us"
  by (simp_all add: asking_def)

lemma asking_mset: "mset ts = mset us \<Longrightarrow> asking q ts = asking q us"
  unfolding asking_def by (metis mset_filter size_mset)

lemma answered_append: "answers io' = answers io @ rs \<Longrightarrow> answered q io' = answered q io + length (filter (\<lambda>(r, _). r = q) rs)"
  by (simp add: answered_def)

lemma answered_same: "answers io' = answers io \<Longrightarrow> answered q io' = answered q io"
  by (simp add: answered_def)

lemma answered_rq:
  "length (filter (\<lambda>(r, _). r = q) (rq_answers (map (\<lambda>t. (t_result_q t, f t)) ts))) = asking q ts"
  by (induction ts) (auto split: option.split)

lemma sum_update: "i < length xs \<Longrightarrow> sum_list (xs[i := y]) + xs ! i = sum_list xs + (y :: nat)"
  by (induction xs arbitrary: i) (auto split: nat.split)

lemma owed_set_worker:
  "i < length (workers p) \<Longrightarrow>
     owed q (set_worker i w p) + owed_by q (workers p ! i) = owed q p + owed_by q w"
  using sum_update [of i "map (owed_by q) (workers p)" "owed_by q w"]
  by (simp add: owed_def set_worker_def map_update)

section \<open>What a step does to it\<close>

lemma debt_worker:
  assumes "i < length (workers p)" and "answered q io' + owed_by q w \<le> answered q io + owed_by q (workers p ! i)"
  shows "answered q io' + owed q (set_worker i w p) \<le> answered q io + owed q p"
  using owed_set_worker [OF assms(1), of q w] assms(2) by simp

lemma owed_same_thread:
  assumes "i < length (workers p)" and "task_queue w = task_queue (workers p ! i)"
    and "map_option t_result_q (current_task w) = map_option t_result_q (current_task (workers p ! i))"
  shows "owed q (set_worker i w p) = owed q p"
proof -
  have "owed_by q w = owed_by q (workers p ! i)"
    using assms(2,3) by (cases "current_task w"; cases "current_task (workers p ! i)") (auto simp: owed_by_def queued_def)
  with owed_set_worker [OF assms(1), of q w] show ?thesis by simp
qed

lemma router_debt:
  assumes "distinct (map worker_id (workers p))" and "router_step obs p io = (p', io')"
  shows "answered q io' + owed q p' = answered q io + owed q p"
proof (cases "overall_queue p")
  case Nil
  with assms(2) show ?thesis by (simp add: router_step_def q_get_def)
next
  case (Cons t ts)
  show ?thesis
  proof (cases "filter ready (workers p) = []")
    case True
    then have "p' = p\<lparr>overall_queue := ts\<rparr>" "io' = reject_task obs t io"
      using Cons assms(2) by (simp_all add: router_step_def q_get_def)
    then show ?thesis using Cons answered_append [OF reject_frame, of q obs t io] by (auto simp: owed_def split: option.splits)
  next
    case False
    then have p': "overall_queue p' = ts" "workers p' = enqueue (worker_id (assigned p)) t (workers p)"
      and "answers io' = answers io"
      using Cons assms(2) by (auto simp: router_step_ready assign_task_def frame_simps)
    have S: "sum_list (map (owed_by q) ws) = asking q (concat (map queued ws))
        + sum_list (map (\<lambda>w. asking q (case current_task w of Some t \<Rightarrow> [t] | None \<Rightarrow> [])) ws)" for ws
      by (induction ws) (simp_all add: owed_by_def)
    have c: "map (\<lambda>w. asking q (case current_task w of Some t \<Rightarrow> [t] | None \<Rightarrow> [])) (workers p')
        = map (\<lambda>w. asking q (case current_task w of Some t \<Rightarrow> [t] | None \<Rightarrow> [])) (workers p)"
      unfolding p'(2) enqueue_def by simp
    have "mset (concat (map queued (workers p'))) = mset (t # concat (map queued (workers p)))"
      unfolding p'(2) using enqueue_tasks [OF assms(1) assigned_least(1) [OF False], of t] by simp
    from asking_mset [OF this, of q] c p'(1) Cons answered_same [OF \<open>answers io' = answers io\<close>] show ?thesis
      by (simp add: owed_def S)
  qed
qed

lemma begin_debt:
  assumes "run_begin obs t v io = (w, io', b)" and "current_task v = None"
  shows "answered q io' + owed_by q w = answered q io + owed_by q v"
  using assms
  by (auto simp: run_begin_def task_started_def owed_by_def queued_def answered_def frame_simps q_get_def
      List.map_filter_simps Let_def split: option.splits list.splits)

text \<open>A result that the thread cannot count makes it answer again.\<close>

lemma finish_debt:
  assumes "run_finish obs t gen r v io = (w, io')" and "current_task v = Some u"
    and "t_result_q u = Some q \<Longrightarrow> \<forall>x. r = Inr x \<longrightarrow> diagnostic_count (t_type u) x \<noteq> None"
  shows "answered q io' + owed_by q w \<le> answered q io + owed_by q v"
proof (cases r)
  case (Inr x)
  have "answered q (task_succeeded obs t u x v io) \<le> answered q io + (if t_result_q u = Some q then 1 else 0)"
  proof (cases "t_result_q u")
    case None
    then show ?thesis by (simp add: task_succeeded_def answered_def frame_simps)
  next
    case (Some k)
    with assms(3) Inr show ?thesis
      using answered_append [OF task_succeeded_answers [OF Some], of q obs t x v io] by (auto split: if_splits)
  qed
  with assms(1,2) Inr show ?thesis
    by (auto simp: run_finish_def end_task_def task_finished_def owed_by_def queued_def answered_def frame_simps)
next
  case (Inl e)
  show ?thesis
  proof (cases "e = ServiceUnavailable")
    case True
    then have "answers io' = answers io @ rq_answers [(t_result_q u, Failed ServiceUnavailable (t_culprit u) (t_culprit_reason u))]
        @ rq_answers (map (\<lambda>t'. (t_result_q t', Failed ServiceUnavailable False None)) (queued v))"
      and w: "task_queue w = []" "current_task w = None"
      using assms(1,2) Inl
      by (auto simp: run_finish_def end_task_def on_service_unavailable_def task_finished_def queued_def frame_simps
          split: option.split)
    from answered_append [OF this(1), of q] w assms(2) show ?thesis
      by (auto simp: owed_by_def queued_def List.map_filter_simps answered_rq split: option.splits)
  next
    case False
    with assms(1,2) Inl show ?thesis
      by (auto simp: run_finish_def end_task_def task_finished_def owed_by_def queued_def answered_def frame_simps
          split: if_splits option.splits)
  qed
qed

text \<open>
  The two steps that may add to what is answered or owed on queue \<open>q\<close>: the submission of a task with this queue, to
  whatever pool, and the end of such a task on a result whose diagnostics have no length. Both are told by what
  the step does to a pool.
\<close>

definition submits :: "observer \<Rightarrow> nat \<Rightarrow> pool \<Rightarrow> io \<Rightarrow> pool \<Rightarrow> io \<Rightarrow> bool" where
  "submits obs q p io p' io' \<longleftrightarrow> (\<exists>rid tid t. t_result_q t = Some q \<and> submit_task obs rid tid t p io = (p', io'))"

definition unmeasured :: "observer \<Rightarrow> nat \<Rightarrow> pool \<Rightarrow> io \<Rightarrow> pool \<Rightarrow> io \<Rightarrow> bool" where
  "unmeasured obs q p io p' io' \<longleftrightarrow> (\<exists>i t gen u x w. i < length (workers p) \<and> current_task (workers p ! i) = Some u
     \<and> t_result_q u = Some q \<and> diagnostic_count (t_type u) x = None
     \<and> run_finish obs t gen (Inr x) (workers p ! i) io = (w, io') \<and> p' = set_worker i w p)"

lemma submit_debt:
  assumes "submit_task obs rid tid t p io = (p', io')"
  shows "answered q io' + owed q p' = answered q io + owed q p + (if t_result_q t = Some q then 1 else 0)"
  using assms by (auto simp: submit_task_def owed_def answered_def frame_simps q_put_def Let_def)

lemma pool_step_debt:
  assumes "pool_step obs p io p' io'" and "pool_ok p" and "\<not> submits obs q p io p' io'" and "\<not> unmeasured obs q p io p' io'"
  shows "answered q io' + owed q p' \<le> answered q io + owed q p"
  using assms
proof (induction rule: pool_step.induct)
  case (submit rid tid t p io p' io')
  then have "t_result_q t \<noteq> Some q" unfolding submits_def by blast
  with submit_debt [OF submit(1), of q] show ?case by simp
next
  case (route p io p' io')
  have "map worker_id (workers p) = map int [1..<Suc (length (workers p))]" using route(2) by (simp add: pool_ok_def)
  then have "distinct (map worker_id (workers p))" by (simp add: distinct_map)
  from router_debt [OF this route(1), of q] show ?case by simp
next
  case (take i p t io w io' b)
  from begin_debt [OF take(4,3), of q] show ?case by (intro debt_worker [OF take(1)]) simp
next
  case (work i p w io)
  then show ?case using owed_same_thread [of i p w q] by (simp add: same_thread_def)
next
  case (finish i p t gen r io w io')
  then obtain u where u: "current_task (workers p ! i) = Some u" by blast
  have "diagnostic_count (t_type u) x \<noteq> None" if "t_result_q u = Some q" "r = Inr x" for x
  proof
    assume "diagnostic_count (t_type u) x = None"
    with finish(1,3) u that have "unmeasured obs q p io (set_worker i w p) io'" unfolding unmeasured_def by blast
    with finish(6) show False by simp
  qed
  from finish_debt [OF finish(3) u, of q] this show ?case by (intro debt_worker [OF finish(1)]) blast
qed

text \<open>A change of one pool, the current one or one that was let go of.\<close>

definition on_pool :: "(pool \<Rightarrow> io \<Rightarrow> pool \<Rightarrow> io \<Rightarrow> bool) \<Rightarrow> system \<Rightarrow> system \<Rightarrow> bool" where
  "on_pool R s s' \<longleftrightarrow> (\<exists>p p' io. R p (shared s) p' io \<and>
     (worker_pool (routes s) = Some p \<and> s' = set_pool p' io s
      \<or> (\<exists>k < length (stale_pools s). p = stale_pools s ! k \<and> s' = s\<lparr>shared := io, stale_pools := (stale_pools s)[k := p']\<rparr>)))"

lemma on_pool_current: "worker_pool (routes s) = Some p \<Longrightarrow> R p (shared s) p' io \<Longrightarrow> on_pool R s (set_pool p' io s)"
  unfolding on_pool_def by blast

lemma on_pool_stale:
  "k < length (stale_pools s) \<Longrightarrow> R (stale_pools s ! k) (shared s) p' io \<Longrightarrow>
     on_pool R s (s\<lparr>shared := io, stale_pools := (stale_pools s)[k := p']\<rparr>)"
  unfolding on_pool_def by blast

lemma debt_pool:
  assumes "worker_pool (routes s) = Some p" and "answered q io + owed q p' \<le> answered q (shared s) + owed q p + n"
  shows "debt q (set_pool p' io s) \<le> debt q s + n"
  using assms by (simp add: debt_def pools_def set_pool_def)

lemma debt_stale:
  assumes "k < length (stale_pools s)"
    and "answered q io + owed q p' \<le> answered q (shared s) + owed q (stale_pools s ! k) + n"
  shows "debt q (s\<lparr>shared := io, stale_pools := (stale_pools s)[k := p']\<rparr>) \<le> debt q s + n"
  using sum_update [of k "map (owed q) (stale_pools s)" "owed q p'"] assms
  by (simp add: debt_def pools_def map_update)

lemma debt_on_pool:
  assumes "on_pool R s s'"
    and "\<And>p p' io. R p (shared s) p' io \<Longrightarrow> answered q io + owed q p' \<le> answered q (shared s) + owed q p + n"
  shows "debt q s' \<le> debt q s + n"
  using assms debt_pool [of s _ q] debt_stale [of _ s q] unfolding on_pool_def by blast

lemma debt_same:
  "answers (shared s') = answers (shared s) \<Longrightarrow> pools s' = pools s \<Longrightarrow> debt q s' \<le> debt q s"
  by (simp add: debt_def answered_def)

lemma debt_current:
  "worker_pool (routes s) = Some p \<Longrightarrow> i < length (workers p) \<Longrightarrow> task_queue w = task_queue (workers p ! i) \<Longrightarrow>
     map_option t_result_q (current_task w) = map_option t_result_q (current_task (workers p ! i)) \<Longrightarrow>
     debt q (set_pool (set_worker i w p) (shared s) s) \<le> debt q s"
  using debt_pool [of s p q "shared s" _ 0] owed_same_thread by simp

lemma owed_by_notified: "owed_by q (put_notification t m w) = owed_by q w"
  by (simp add: owed_by_def queued_def put_notification_def)

lemma owed_notified: "sum_list (map (owed_by q) (deliver_to u t m ws)) = sum_list (map (owed_by q) ws)"
  by (induction ws) (auto simp: owed_by_notified)

lemma notify_debt:
  assumes "handle_notification t meth params (routes s) = (r', res)"
  shows "debt q (s\<lparr>routes := r'\<rparr>) = debt q s"
proof -
  have "debt q (s\<lparr>routes := route_or_buffer v t m (routes s)\<rparr>) = debt q s" for v m
    by (auto simp: debt_def pools_def route_or_buffer_def buffer_notification_def owed_def owed_notified
        split: option.split sum.split)
  with handle_notification_cases [of t meth params "routes s"] assms show ?thesis by auto
qed

lemma fresh_pool_debt: "owed q (pool_of n uri a) = 0"
proof -
  have "owed_by q w = 0" if "w \<in> set (workers (pool_of n uri a))" for w
    using that by (auto simp: pool_of_def new_pool_def new_worker_def owed_by_def queued_def List.map_filter_simps Let_def)
  then have "sum_list (map (owed_by q) (workers (pool_of n uri a))) = 0" by (simp add: sum_list_nonneg_eq_0_iff)
  moreover have "overall_queue (pool_of n uri a) = []" by (simp add: pool_of_def new_pool_def Let_def)
  ultimately show ?thesis by (simp add: owed_def)
qed

lemma step_debt:
  assumes "system_step obs s s'" and "system_ok s"
    and "\<not> on_pool (submits obs q) s s'" and "\<not> on_pool (unmeasured obs q) s s'"
  shows "debt q s' \<le> debt q s"
  using assms
proof (induction rule: system_step.induct)
  case (pool s p p' io)
  have "pool_ok p" using pool(1,3) by (simp add: system_ok_def)
  moreover have "\<not> submits obs q p (shared s) p' io" "\<not> unmeasured obs q p (shared s) p' io"
    using pool(4,5) on_pool_current [OF pool(1)] by blast+
  ultimately show ?case using pool_step_debt [OF pool(2)] debt_pool [OF pool(1), of q io p' 0] by simp
next
  case (stale k s p' io)
  have "pool_ok (stale_pools s ! k)" using stale(1,3) by (simp add: system_ok_def)
  moreover have "\<not> submits obs q (stale_pools s ! k) (shared s) p' io" "\<not> unmeasured obs q (stale_pools s ! k) (shared s) p' io"
    using stale(4,5) on_pool_stale [OF stale(1)] by blast+
  ultimately show ?case using pool_step_debt [OF stale(2)] debt_stale [OF stale(1), of q io p' 0] by simp
next
  case (notify t meth params s r' res)
  from notify_debt [OF notify(1)] show ?case by simp
next
  case (stderr s l)
  have "answers (read_stderr_line l (shared s)) = answers (shared s)"
    by (simp add: read_stderr_line_def flag_fatal_def send_command_frame(1) Let_def)
  then show ?case by (intro debt_same) (simp_all add: pools_def)
next
  case (announce b f sp s d w r)
  then have "answers w = answers (shared s)"
    by (auto simp: start_watchdog_def set_root_process_def frame_simps Let_def split: if_splits option.splits)
  then show ?case by (intro debt_same) (simp_all add: pools_def)
next
  case (register s u)
  then show ?case by (intro debt_same) (simp_all add: register_init_uri_def pools_def)
next
  case (install s n uri a)
  then show ?case by (simp add: debt_def fresh_pool_debt pools_def let_go_def split: option.split)
next
  case (drain s u)
  then show ?case by (intro debt_same) (simp_all add: drain_init_buffer_def pools_def)
next
  case (open_doc s p i d b)
  then show ?case by (intro debt_current) auto
next
  case (guards b rd ad oom s d w r)
  then have "answers w = answers (shared s)"
    by (auto simp: attach_worker_guards_def Let_def frame_simps split: if_splits sum.splits)
  then show ?case by (intro debt_same) (simp_all add: pools_def)
next
  case (mark s p i ids reason)
  then show ?case by (intro debt_current) (auto simp: mark_culprit_def split: option.split)
next
  case (poison s p i t)
  then show ?case by (intro debt_current) (auto simp: poison_worker_def put_notification_def)
next
  case (hush s p)
  then show ?case using debt_pool [OF hush(1), of q "shared s" "p\<lparr>keep_alive_running := False\<rparr>" 0] by (simp add: owed_def)
next
  case (disconnect s p i)
  then show ?case by (intro debt_current) auto
qed (intro debt_same; simp add: frame_simps pause_monitor_def pools_def)+

section \<open>Whole schedules\<close>

text \<open>A schedule of all threads in which \<open>n\<close> tasks are submitted with queue \<open>q\<close>.\<close>

inductive schedule :: "observer \<Rightarrow> nat \<Rightarrow> nat \<Rightarrow> system \<Rightarrow> system \<Rightarrow> bool" for obs q where
  begins: "schedule obs q 0 s s"
| other: "schedule obs q n s s1 \<Longrightarrow> system_step obs s1 s2 \<Longrightarrow> \<not> on_pool (submits obs q) s1 s2 \<Longrightarrow>
    \<not> on_pool (unmeasured obs q) s1 s2 \<Longrightarrow> schedule obs q n s s2"
| asks: "schedule obs q n s s1 \<Longrightarrow> system_step obs s1 s2 \<Longrightarrow> on_pool (submits obs q) s1 s2 \<Longrightarrow> schedule obs q (Suc n) s s2"

lemma schedule_steps: "schedule obs q n s s' \<Longrightarrow> system_steps obs s s'"
  by (induction rule: schedule.induct) (auto intro: rtranclp.rtrancl_into_rtrancl)

lemma schedule_debt:
  assumes "schedule obs q n s s'" and "system_ok s"
  shows "debt q s' \<le> debt q s + n \<and> system_ok s'"
  using assms
proof (induction rule: schedule.induct)
  case (other n s s1 s2)
  then have "debt q s1 \<le> debt q s + n" "system_ok s1" by auto
  with step_debt [OF other(2) _ other(3,4)] system_step_ok [OF other(2)] show ?case by fastforce
next
  case (asks n s s1 s2)
  then have "debt q s1 \<le> debt q s + n" "system_ok s1" by auto
  moreover have "debt q s2 \<le> debt q s1 + 1"
    using asks(3) by (rule debt_on_pool) (auto simp: submits_def dest: submit_debt [where q = q])
  ultimately show ?case using system_step_ok [OF asks(2)] by fastforce
qed simp

lemma fresh_debt:
  assumes "schedule obs q n (fresh_system d snk) s"
  shows "debt q s \<le> n" and "system_ok s"
proof -
  have "debt q (fresh_system d snk) = 0" by (simp add: debt_def fresh_system_def answered_def pools_def)
  with schedule_debt [OF assms fresh_system_ok] show "debt q s \<le> n" "system_ok s" by simp_all
qed

lemma debt_member: "p \<in> set (pools s) \<Longrightarrow> answered q (shared s) + owed q p \<le> debt q s"
  using member_le_sum_list [of "owed q p" "map (owed q) (pools s)"] by (simp add: debt_def)

lemma owed_member: "w \<in> set (workers p) \<Longrightarrow> owed_by q w \<le> owed q p"
  using member_le_sum_list [of "owed_by q w" "map (owed_by q) (workers p)"] by (simp add: owed_def)

lemma asking_none: "asking q ts = 0 \<Longrightarrow> t \<in> set ts \<Longrightarrow> t_result_q t \<noteq> Some q"
  by (auto simp: asking_def filter_empty_conv)

lemma ended_owed:
  assumes "ended_in i ts p" and "Some t \<in> set ts" and "t_result_q t = Some q"
  shows "1 \<le> owed q p"
proof -
  from assms(1,2) have i: "i < length (workers p)" and "Some t \<in> set (task_queue (workers p ! i))" by (auto simp: ended_in_def)
  then have "t \<in> set (queued (workers p ! i))" by (force simp: queued_def List.map_filter_def)
  with asking_none assms(3) have "asking q (queued (workers p ! i)) \<noteq> 0" by blast
  then show ?thesis using owed_member [of "workers p ! i" p q] i by (simp add: owed_by_def)
qed

text \<open>
  C3: No submission is answered twice. A caller makes a queue and submits one task with it. On every schedule of
  the workers, the router, the watchdog, restarts and exits from the first state of the program, at most one
  answer is ever put on that queue, and once it is there, no thread and no queue holds the task any more, neither
  in the current pool nor in those that restarts have replaced. The one exception is a result whose diagnostics
  cannot be counted.
\<close>
theorem no_submission_is_answered_twice:
  assumes "schedule obs q n (fresh_system d snk) s" and "n \<le> 1"
  shows "answered q (shared s) \<le> 1
    \<and> (answered q (shared s) = 1 \<longrightarrow>
         (\<forall>p \<in> set (pools s). (\<forall>t \<in> set (overall_queue p). t_result_q t \<noteq> Some q)
           \<and> (\<forall>w \<in> set (workers p). (\<forall>t \<in> set (queued w). t_result_q t \<noteq> Some q)
                \<and> (\<forall>t. current_task w = Some t \<longrightarrow> t_result_q t \<noteq> Some q))))"
proof -
  from fresh_debt [OF assms(1)] assms(2) have D: "debt q s \<le> 1" by simp
  have none: "owed q p = 0" if "answered q (shared s) = 1" "p \<in> set (pools s)" for p
    using debt_member [OF that(2), of q] that(1) D by simp
  have "(\<forall>t \<in> set (queued w). t_result_q t \<noteq> Some q) \<and> (\<forall>t. current_task w = Some t \<longrightarrow> t_result_q t \<noteq> Some q)"
    if "owed q p = 0" "w \<in> set (workers p)" for p w
    using owed_member [OF that(2), of q] that(1) by (auto simp: owed_by_def dest: asking_none)
  moreover have "t_result_q t \<noteq> Some q" if "owed q p = 0" "t \<in> set (overall_queue p)" for p t
    using asking_none [of q "overall_queue p" t] that by (simp add: owed_def)
  ultimately show ?thesis using D none unfolding debt_def by (metis add_leD1)
qed

text \<open>
  C23: A task that reached an ended thread is lost. The router goes by the \<open>ready\<close> flag alone, so it may assign a task to
  a worker whose thread has returned. Once it has, no schedule, whatever the rest of the program does (restarts,
  new pools, further submissions of other callers), brings the task out of that queue, and its caller is never
  answered: the wait ends by the caller's own timeout.
\<close>
theorem task_of_ended_thread_is_lost:
  assumes "schedule obs q n (fresh_system d snk) s" and "n \<le> 1"
    and "p \<in> set (pools s)" and "ended_in i ts p" and "Some t \<in> set ts" and "t_result_q t = Some q"
    and "schedule obs q 0 s s'"
  shows "answered q (shared s') = 0 \<and> (\<exists>p' \<in> set (pools s'). ended_in i ts p')"
proof -
  obtain p' where p': "p' \<in> set (pools s')" "ended_in i ts p'"
    using ended_steps [OF schedule_steps [OF assms(7)] assms(3,4)] by blast
  have "debt q s' \<le> 1"
    using schedule_debt [OF assms(7) fresh_debt(2) [OF assms(1)]] fresh_debt(1) [OF assms(1)] assms(2) by simp
  with debt_member [OF p'(1), of q] ended_owed [OF p'(2) assms(5,6)] p' show ?thesis by auto
qed

section \<open>Witnesses\<close>

text \<open>Schedules of one pool, by its workers and its queue.\<close>

definition comes_to :: "nat \<Rightarrow> nat \<Rightarrow> worker list \<Rightarrow> task list \<Rightarrow> bool" where
  "comes_to q n ws ts \<longleftrightarrow> (\<exists>s p. schedule demo_observer q n (fresh_system demo_watchdog True) s \<and> stale_pools s = []
     \<and> worker_pool (routes s) = Some p \<and> workers p = ws \<and> overall_queue p = ts)"

lemma quiet_step:
  assumes "schedule obs q n s s1" and "system_step obs s1 s2" and "stale_pools s1 = []"
    and "\<And>p w u. worker_pool (routes s1) = Some p \<Longrightarrow> w \<in> set (workers p) \<Longrightarrow> current_task w = Some u \<Longrightarrow> t_result_q u \<noteq> Some q"
    and "\<And>p. worker_pool (routes s2) = Some p \<Longrightarrow> asking q (overall_queue p) = 0"
  shows "schedule obs q n s s2"
proof (rule schedule.other [OF assms(1,2)])
  show "\<not> on_pool (submits obs q) s1 s2" "\<not> on_pool (unmeasured obs q) s1 s2"
    using assms(3) assms(4) [OF _ nth_mem] assms(5)
    by (fastforce simp: on_pool_def submits_def set_pool_def submit_task_def q_put_def Let_def,
        fastforce simp: on_pool_def unmeasured_def)
qed

lemma comes_to_quietly:
  assumes "comes_to q n ws ts"
    and "\<And>p io. workers p = ws \<Longrightarrow> overall_queue p = ts \<Longrightarrow>
      \<exists>p' io'. pool_step demo_observer p io p' io' \<and> workers p' = ws' \<and> overall_queue p' = ts'"
    and "\<forall>w \<in> set ws. \<forall>u. current_task w = Some u \<longrightarrow> t_result_q u \<noteq> Some q" and "asking q ts' = 0"
  shows "comes_to q n ws' ts'"
proof -
  obtain s p where s: "schedule demo_observer q n (fresh_system demo_watchdog True) s" "stale_pools s = []"
    "worker_pool (routes s) = Some p" "workers p = ws" "overall_queue p = ts" using assms(1) by (auto simp: comes_to_def)
  obtain p' io' where p': "pool_step demo_observer p (shared s) p' io'" "workers p' = ws'" "overall_queue p' = ts'"
    using assms(2) [OF s(4,5)] by blast
  have "schedule demo_observer q n (fresh_system demo_watchdog True) (set_pool p' io' s)"
    using assms(3,4) s p' by (intro quiet_step [OF s(1) system_step.pool [OF s(3) p'(1)]]) (auto simp: set_pool_def)
  with s(2) p'(2,3) show ?thesis unfolding comes_to_def by (force simp: set_pool_def)
qed

lemma comes_to_submit:
  assumes "comes_to q n ws ts" and "\<forall>w \<in> set ws. \<forall>u. current_task w = Some u \<longrightarrow> t_result_q u \<noteq> Some q"
    and "asking q ts = 0" and "t_request_id t = Some r" and "t_task_id t = Some i"
  shows "comes_to q (if t_result_q t = Some q then Suc n else n) ws (ts @ [t])"
proof -
  have sub: "\<exists>p' io'. submit_task demo_observer r i t p io = (p', io') \<and> workers p' = ws \<and> overall_queue p' = ts @ [t]"
    if "workers p = ws" "overall_queue p = ts" for p io
  proof -
    have "t\<lparr>t_request_id := Some r, t_task_id := Some i\<rparr> = t" using assms(4,5) by (cases t) simp
    with that assms(4,5) show ?thesis by (auto simp: submit_task_def q_put_def setdefault_id_def Let_def)
  qed
  show ?thesis
  proof (cases "t_result_q t = Some q")
    case False
    then show ?thesis using sub pool_step.submit assms(2,3) by (auto intro!: comes_to_quietly [OF assms(1)]) blast
  next
    case True
    obtain s p where s: "schedule demo_observer q n (fresh_system demo_watchdog True) s" "stale_pools s = []"
      "worker_pool (routes s) = Some p" "workers p = ws" "overall_queue p = ts" using assms(1) by (auto simp: comes_to_def)
    obtain p' io' where p': "submit_task demo_observer r i t p (shared s) = (p', io')" "workers p' = ws" "overall_queue p' = ts @ [t]"
      using sub [OF s(4,5)] by blast
    have "on_pool (submits demo_observer q) s (set_pool p' io' s)"
      using p'(1) True by (intro on_pool_current [OF s(3)]) (auto simp: submits_def)
    with schedule.asks [OF s(1) system_step.pool [OF s(3) pool_step.submit [OF p'(1)]]] s(2) p'(2,3) True
    show ?thesis unfolding comes_to_def by (force simp: set_pool_def)
  qed
qed

definition demo_asker :: "nat \<Rightarrow> task" where
  "demo_asker q = (demo_task ''ping'' q)\<lparr>t_request_id := Some ''r'', t_task_id := Some ''t''\<rparr>"

lemma demo_asker_simps [simp]: "t_result_q (demo_asker q) = Some q"
  by (simp add: demo_asker_def demo_task_def)

definition demo_first :: worker where
  "demo_first = (new_worker 1 (worker_uri ''u'' 1) True 0)"

lemma demo_install: "comes_to q 0 [demo_first] []"
proof -
  let ?s0 = "fresh_system demo_watchdog True" and ?p = "pool_of 1 ''u'' demo_attempt"
  let ?s1 = "(let_go ?s0)\<lparr>routes := (routes ?s0)\<lparr>worker_pool := Some ?p\<rparr>\<rparr>"
  have p: "overall_queue ?p = []" "overall_queue (pool_of (Suc 0) ''u'' demo_attempt) = []" "workers ?p = [demo_first]"
    by (simp_all add: demo_first_def pool_of_def new_pool_def new_worker_def new_doc_def demo_attempt_def Let_def)
  have "schedule demo_observer q 0 ?s0 ?s1"
    by (rule quiet_step [OF schedule.begins system_step.install]) (auto simp: fresh_system_def p)
  with p show ?thesis unfolding comes_to_def by (force simp: let_go_def fresh_system_def)
qed

text \<open>The one worker of the pool never became ready: the task is submitted and rejected.\<close>

theorem no_submission_is_answered_twice_witness:
  "\<exists>s p. schedule demo_observer 4 1 (fresh_system demo_watchdog True) s \<and> answered 4 (shared s) = 1
     \<and> worker_pool (routes s) = Some p \<and> overall_queue p = [] \<and> (\<forall>w \<in> set (workers p). \<forall>t \<in> set (queued w). t_result_q t \<noteq> Some 4)"
proof -
  have "comes_to 4 1 [demo_first] [demo_asker 4]"
    using comes_to_submit [OF demo_install, of 4 "demo_asker 4" "''r''" "''t''"]
    by (simp add: demo_first_def new_worker_def demo_asker_def demo_task_def)
  then obtain s p where s: "schedule demo_observer 4 1 (fresh_system demo_watchdog True) s" "stale_pools s = []"
    "worker_pool (routes s) = Some p" "workers p = [demo_first]" "overall_queue p = [demo_asker 4]" by (auto simp: comes_to_def)
  obtain io where r: "router_step demo_observer p (shared s) = (p\<lparr>overall_queue := []\<rparr>, io)" "answered 4 io = Suc (answered 4 (shared s))"
    using s(4,5) by (simp add: router_step_def q_get_def demo_first_def new_worker_def reject_frame answered_def Let_def)
  let ?s = "set_pool (p\<lparr>overall_queue := []\<rparr>) io s"
  have 1: "schedule demo_observer 4 1 (fresh_system demo_watchdog True) ?s"
    by (intro quiet_step [OF s(1) system_step.pool [OF s(3) pool_step.route [OF r(1)]] s(2)])
      (use s in \<open>auto simp: set_pool_def demo_first_def new_worker_def\<close>)
  have "p\<lparr>overall_queue := []\<rparr> \<in> set (pools ?s)" by (simp add: pools_def set_pool_def)
  moreover have "answered 4 (shared ?s) = 1"
    using no_submission_is_answered_twice [OF 1] r(2) by (simp add: set_pool_def)
  ultimately have "\<forall>w \<in> set (workers (p\<lparr>overall_queue := []\<rparr>)). \<forall>t \<in> set (queued w). t_result_q t \<noteq> Some 4"
    using no_submission_is_answered_twice [OF 1] by auto
  with 1 \<open>answered 4 (shared ?s) = 1\<close> show ?thesis by (intro exI [of _ ?s] exI [of _ "p\<lparr>overall_queue := []\<rparr>"]) (simp add: set_pool_def)
qed

text \<open>
  Another task (with queue 9) ends the thread: the server is gone when it is worked on. The worker is still ready,
  so it gets the next task.
\<close>

definition ready_first :: worker where
  "ready_first = demo_first\<lparr>ready := True\<rparr>"

definition ended_first :: worker where
  "ended_first = ready_first\<lparr>exited := True\<rparr>"

lemma first_simps [simp]:
  "current_task demo_first = None" "ready ready_first" "ready ended_first" "current_task ready_first = None"
  "task_queue ready_first = []" "\<not> exited ready_first" "exited ended_first" "current_task ended_first = None"
  "task_queue ended_first = []" "w_doc ready_first = w_doc demo_first"
  by (simp_all add: demo_first_def ready_first_def ended_first_def new_worker_def)

lemma demo_ready: "comes_to q 0 [ready_first] []"
proof -
  obtain s p where s: "schedule demo_observer q 0 (fresh_system demo_watchdog True) s" "stale_pools s = []"
    "worker_pool (routes s) = Some p" "workers p = [demo_first]" "overall_queue p = []"
    using demo_install [of q] by (auto simp: comes_to_def)
  let ?p = "set_worker 0 ((workers p ! 0)\<lparr>w_doc := w_doc demo_first, ready := True\<rparr>) p"
  have w: "workers ?p = [ready_first]" "overall_queue ?p = []" using s(4,5) by (simp_all add: set_worker_def ready_first_def)
  have "schedule demo_observer q 0 (fresh_system demo_watchdog True) (set_pool ?p (shared s) s)"
    by (intro quiet_step [OF s(1) system_step.open_doc [OF s(3)] s(2)]) (use s w in \<open>auto simp: set_pool_def\<close>)
  with s(2) w show ?thesis unfolding comes_to_def by (force simp: set_pool_def)
qed

lemma demo_route:
  "comes_to q n [w] [t] \<Longrightarrow> ready w \<Longrightarrow> current_task w = None \<Longrightarrow> comes_to q n [w\<lparr>task_queue := task_queue w @ [Some t]\<rparr>] []"
  by (erule comes_to_quietly)
    (auto intro!: exI pool_step.route simp: router_step_def q_get_def assign_task_def enqueue_def q_put_def Let_def)

lemma demo_take:
  assumes "comes_to q n [ready_first\<lparr>task_queue := [Some t]\<rparr>] []"
  shows "comes_to q n [ready_first\<lparr>current_task := Some t, task_started_at := Some 0\<rparr>] []"
proof (rule comes_to_quietly [OF assms])
  fix p :: pool and io
  assume p: "workers p = [ready_first\<lparr>task_queue := [Some t]\<rparr>]" "overall_queue p = []"
  obtain w io' b where r: "run_begin demo_observer 0 (workers p ! 0) io = (w, io', b)" by (metis prod_cases3)
  then have "w = ready_first\<lparr>current_task := Some t, task_started_at := Some 0\<rparr>"
    using p by (auto simp: run_begin_def q_get_def ready_first_def demo_first_def new_worker_def Let_def split: prod.splits)
  with p pool_step.take [OF _ _ _ r] show "\<exists>p' io'. pool_step demo_observer p io p' io'
      \<and> workers p' = [ready_first\<lparr>current_task := Some t, task_started_at := Some 0\<rparr>] \<and> overall_queue p' = []"
    by (force simp: set_worker_def)
qed simp_all

lemma demo_end:
  assumes "comes_to q n [ready_first\<lparr>current_task := Some t, task_started_at := Some 0\<rparr>] []" and "t_result_q t \<noteq> Some q"
  shows "comes_to q n [ended_first] []"
proof (rule comes_to_quietly [OF assms(1)])
  fix p :: pool and io
  assume p: "workers p = [ready_first\<lparr>current_task := Some t, task_started_at := Some 0\<rparr>]" "overall_queue p = []"
  obtain w io' where r: "run_finish demo_observer 1 1 (Inl ServiceUnavailable) (workers p ! 0) io = (w, io')" by fastforce
  then have "w = ended_first"
    using p by (auto simp: run_finish_def on_service_unavailable_def end_task_def ended_first_def ready_first_def demo_first_def
        new_worker_def Let_def split: prod.splits)
  with p pool_step.finish [OF _ _ r] show "\<exists>p' io'. pool_step demo_observer p io p' io'
      \<and> workers p' = [ended_first] \<and> overall_queue p' = []"
    by (force simp: set_worker_def)
qed (use assms(2) in simp_all)

theorem task_of_ended_thread_is_lost_witness:
  "\<exists>s p. schedule demo_observer 4 1 (fresh_system demo_watchdog True) s \<and> worker_pool (routes s) = Some p
     \<and> workers p = [ended_first\<lparr>task_queue := [Some (demo_asker 4)]\<rparr>] \<and> answered 4 (shared s) = 0"
proof -
  have id: "t_request_id (demo_asker q) = Some ''r''" "t_task_id (demo_asker q) = Some ''t''" for q
    by (simp_all add: demo_asker_def)
  from comes_to_submit [OF demo_ready [of 4] _ _ id, of 9] have "comes_to 4 0 [ready_first] [demo_asker 9]" by simp
  from demo_route [OF this] have "comes_to 4 0 [ready_first\<lparr>task_queue := [Some (demo_asker 9)]\<rparr>] []" by simp
  from demo_end [OF demo_take [OF this]] have "comes_to 4 0 [ended_first] []" by simp
  from comes_to_submit [OF this _ _ id, of 4] have "comes_to 4 1 [ended_first] [demo_asker 4]" by simp
  from demo_route [OF this] obtain s p
    where s: "schedule demo_observer 4 1 (fresh_system demo_watchdog True) s" "worker_pool (routes s) = Some p"
      "workers p = [ended_first\<lparr>task_queue := [Some (demo_asker 4)]\<rparr>]" by (auto simp: comes_to_def)
  have "p \<in> set (pools s)" "ended_in 0 [Some (demo_asker 4)] p" using s(2,3) by (simp_all add: pools_def ended_in_def)
  from task_of_ended_thread_is_lost [OF s(1) _ this _ _ schedule.begins, of "demo_asker 4"] s show ?thesis by auto
qed

end
