(* ===== verification/Service.thy ===== *)
theory Service imports Worker begin

text \<open>
  The loop of a worker's thread (\<open>_run\<close> of \<open>pyleaner/worker.py\<close>) against a reference that has no queue, no current
  task and no thread: the tasks of a list are processed one after the other on the worker's document and session,
  and each is replied to.
\<close>

section \<open>The loop\<close>

text \<open>One pair of times for each iteration; an iteration that finds an empty queue is a wait.\<close>

fun run_thread ::
  "(string \<Rightarrow> value option) \<Rightarrow> observer \<Rightarrow> (real \<times> real) list \<Rightarrow> worker \<Rightarrow> client \<Rightarrow> io \<Rightarrow> worker \<times> client \<times> io" where
  "run_thread jl obs [] w c io = (w, c, io)"
| "run_thread jl obs ((t0, t1) # ticks) w c io =
     (if exited w then (w, c, io)
      else (case run_iteration jl obs t0 t1 w c io of (w', c', io') \<Rightarrow> run_thread jl obs ticks w' c' io'))"

section \<open>The reference\<close>

definition goes_on :: "exn + value \<Rightarrow> bool" where
  "goes_on r = (case r of Inr v \<Rightarrow> True | Inl e \<Rightarrow> e \<noteq> ServiceUnavailable \<and> catchable e)"

text \<open>Diagnostics without a length cost a second answer; nothing answers a task that ends in something worse.\<close>

definition replies :: "task \<Rightarrow> exn + value \<Rightarrow> (nat \<times> response) list" where
  "replies t r = rq_answers (map (Pair (t_result_q t))
     (case r of
        Inr v \<Rightarrow> Ok v # (if diagnostic_count (t_type t) v = None then [Failed (TypeError ''object has no len()'') False None] else [])
      | Inl e \<Rightarrow>
          if e = ServiceUnavailable then [Failed ServiceUnavailable (t_culprit t) (t_culprit_reason t)]
          else if catchable e then [Failed e False None] else []))"

definition unserved :: "task list \<Rightarrow> (nat \<times> response) list" where
  "unserved ts = rq_answers (map (\<lambda>u. (t_result_q u, Failed ServiceUnavailable False None)) ts)"

text \<open>All replies, and whether the thread is still there.\<close>

fun serve :: "(string \<Rightarrow> value option) \<Rightarrow> task list \<Rightarrow> worker \<times> client \<Rightarrow> (nat \<times> response) list \<times> bool" where
  "serve jl [] st = ([], True)"
| "serve jl (t # ts) st =
     (case process_task jl (t_type t) (t_kwargs t) st of
        (st', r) \<Rightarrow>
          if goes_on r then (case serve jl ts st' of (rs, b) \<Rightarrow> (replies t r @ rs, b))
          else (replies t r @ (if r = Inl ServiceUnavailable then unserved ts else []), False))"

section \<open>Operations do not look at the thread\<close>

definition as_thread :: "task option list \<Rightarrow> task option \<Rightarrow> real option \<Rightarrow> worker \<Rightarrow> worker" where
  "as_thread q x y w = w\<lparr>task_queue := q, current_task := x, task_started_at := y\<rparr>"

definition thread_free :: "'a wop \<Rightarrow> bool" where
  "thread_free f \<longleftrightarrow> (\<forall>w c q x y. f (as_thread q x y w, c) = (case f (w, c) of ((w', c'), r) \<Rightarrow> ((as_thread q x y w', c'), r)))"

lemma as_thread_simps [simp]:
  "w_doc (as_thread q x y w) = w_doc w" "w_rpc (as_thread q x y w) = w_rpc w"
  "worker_id (as_thread q x y w) = worker_id w" "exited (as_thread q x y w) = exited w"
  "task_queue (as_thread q x y w) = q" "current_task (as_thread q x y w) = x" "task_started_at (as_thread q x y w) = y"
  "as_thread q x y (as_thread q' x' y' w) = as_thread q x y w"
  "(as_thread q x y w)\<lparr>w_doc := d\<rparr> = as_thread q x y (w\<lparr>w_doc := d\<rparr>)"
  "(as_thread q x y w)\<lparr>w_rpc := s\<rparr> = as_thread q x y (w\<lparr>w_rpc := s\<rparr>)"
  by (simp_all add: as_thread_def)

lemma thread_freeD:
  "thread_free f \<Longrightarrow> f (w, c) = ((w', c'), r) \<Longrightarrow> f (as_thread q x y w, c) = ((as_thread q x y w', c'), r)"
  by (simp add: thread_free_def)

lemma free_return: "thread_free (return_op x)" and free_raise: "thread_free (\<lambda>st. (st, Inl e))"
  by (simp_all add: thread_free_def return_op_def)

lemma free_bind:
  assumes "thread_free f" and "\<And>x. thread_free (g x)"
  shows "thread_free (bind_op f g)"
  unfolding thread_free_def
proof (intro allI)
  fix w c q x y
  obtain w1 c1 r where f: "f (w, c) = ((w1, c1), r)" by (metis prod.exhaust)
  show "bind_op f g (as_thread q x y w, c) = (case bind_op f g (w, c) of ((w', c'), r) \<Rightarrow> ((as_thread q x y w', c'), r))"
    using f thread_freeD [OF assms(1) f, of q x y] assms(2) by (cases r) (simp_all add: bind_op_def thread_free_def)
qed

lemma free_doc: "(\<And>d. thread_free (g d)) \<Longrightarrow> thread_free (\<lambda>st. g (w_doc (fst st)) st)"
  by (simp add: thread_free_def)

lemma free_on_doc: "thread_free (on_doc f)"
  by (simp add: thread_free_def on_doc_def Let_def split: prod.split)

lemma free_submit: "thread_free (submit_lsp meth params)" "thread_free (submit_rpc jl pos meth params)"
  by (simp_all add: thread_free_def submit_lsp_def submit_rpc_def split: prod.split)

lemma free_change: "thread_free (change t rng)"
  unfolding change_def by (rule free_on_doc)

lemma free_change_then_rpc: "thread_free (change_then_rpc jl t rng meth params)"
  unfolding change_then_rpc_def by (intro free_bind free_change free_submit free_return)

lemma free_get_proof_goal: "thread_free (get_proof_goal t rng pos)"
  unfolding get_proof_goal_def
proof (rule free_bind [OF free_change])
  fix ds
  let ?g = "\<lambda>d. bind_op (submit_lsp ''$/lean/plainGoal''
      (JObj [(''textDocument'', JObj [(''uri'', JStr (doc_uri d)), (''version'', JInt (version d))]), (''position'', pos)]))
      (\<lambda>result. return_op (JObj [(''diagnostics'', JArr ds), (''proof_goal'', goals_of result)]))"
  have "thread_free (?g d)" for d by (intro free_bind free_submit free_return)
  from free_doc [of ?g, OF this] show "thread_free (\<lambda>st. bind_op (submit_lsp ''$/lean/plainGoal''
      (JObj [(''textDocument'', JObj [(''uri'', JStr (doc_uri (w_doc (fst st)))), (''version'', JInt (version (w_doc (fst st))))]),
             (''position'', pos)]))
      (\<lambda>result. return_op (JObj [(''diagnostics'', JArr ds), (''proof_goal'', goals_of result)])) st)" .
qed

lemma free_echo: "thread_free (echo jl m)"
  unfolding echo_def
  by (rule free_doc [of "\<lambda>d. submit_rpc jl zero_pos ''LeanLspExtension.echo''
      (JObj [(''textDocument'', JObj [(''uri'', JStr (doc_uri d))]), (''message'', m)])", OF free_submit(2)])

lemma free_apply_method: "thread_free (apply_method jl t args)"
  unfolding apply_method_def get_diagnostics_def extract_declarations_def search_declarations_def declaration_axioms_def
  by (simp add: free_change_then_rpc free_get_proof_goal free_echo free_submit free_raise
      free_bind [OF free_change free_return] split: option.split)

lemma free_process_task: "thread_free (process_task jl t kw)"
proof (cases "method_params t")
  case (Some params)
  show ?thesis
  proof (cases "bind_args params kw")
    case (Inr args)
    with Some free_apply_method [of jl t args] show ?thesis by (simp add: process_task_def)
  qed (simp add: process_task_def Some free_raise)
qed (simp add: process_task_def free_raise)

lemma serve_free: "serve jl ts (as_thread q x y w, c) = serve jl ts (w, c)"
proof (induction ts arbitrary: w c)
  case (Cons t ts)
  obtain w' c' r where p: "process_task jl (t_type t) (t_kwargs t) (w, c) = ((w', c'), r)" by (metis prod.exhaust)
  with thread_freeD [OF free_process_task p, of q x y] Cons show ?case by simp
qed simp

section \<open>The loop serves\<close>

lemma round_replies:
  assumes "task_queue w = map Some (t # ts)" and "\<not> exited w"
    and p: "process_task jl (t_type t) (t_kwargs t) (w, c) = ((w2, c2), r)"
    and it: "run_iteration jl obs t0 t1 w c io = (w', c', io')"
  shows "c' = c2"
    and "answers io' = answers io @ replies t r @ (if r = Inl ServiceUnavailable then unserved ts else [])"
    and "w' = (if goes_on r then as_thread (map Some ts) None None w2
               else (as_thread (if r = Inl ServiceUnavailable then [] else map Some ts) None None w2)\<lparr>exited := True\<rparr>)"
proof -
  let ?w1 = "as_thread (map Some ts) (Some t) (Some t0) w" and ?w2 = "as_thread (map Some ts) (Some t) (Some t0) w2"
  obtain io1 gen where b: "run_begin obs t0 w io = (?w1, io1, Begun t gen)" "answers io1 = answers io"
    using assms(1) by (simp add: run_begin_def q_get_def task_started_def as_thread_def frame_simps Let_def)
  obtain w3 io3 where f: "run_finish obs t1 gen r ?w2 io1 = (w3, io3)" by fastforce
  from it b(1) thread_freeD [OF free_process_task p] f have e: "w' = w3" "c' = c2" "io' = io3"
    by (simp_all add: run_iteration_def)
  show "c' = c2" by (rule e)
  have drained: "List.map_filter id (map Some ts) = ts" by (simp add: List.map_filter_def comp_def)
  have "answers io3 = answers io1 @ replies t r @ (if r = Inl ServiceUnavailable then unserved ts else [])"
    using f
    by (cases "t_result_q t")
      (auto simp: run_finish_def end_task_def task_finished_def on_service_unavailable_def replies_def unserved_def frame_simps
        task_succeeded_def catchable_def drained answer_def split: sum.splits option.splits if_splits)
  with b(2) e(3) show "answers io' = answers io @ replies t r @ (if r = Inl ServiceUnavailable then unserved ts else [])"
    by simp
  show "w' = (if goes_on r then as_thread (map Some ts) None None w2
      else (as_thread (if r = Inl ServiceUnavailable then [] else map Some ts) None None w2)\<lparr>exited := True\<rparr>)"
    using f e(1)
    by (auto simp: run_finish_def end_task_def on_service_unavailable_def goes_on_def catchable_def as_thread_def
        split: sum.splits if_splits)
qed

text \<open>
  C15: A worker's thread serves its queue like the reference. It takes the tasks in order, one at a time, performs each
  on the document and the session as the one before left them, and replies to each before it takes the next: with
  the result, with the exception, or, once the server is unavailable, to that task with its own mark and to all the
  tasks behind it as innocent, in order, after which the thread ends. Nothing else is answered, no task is skipped or
  taken twice, and a thread that is still there has emptied its queue.
\<close>
theorem thread_serves_its_queue:
  assumes "run_thread jl obs ticks w c io = (w', c', io')" and "length ticks = length ts"
    and "task_queue w = map Some ts" and "current_task w = None" and "\<not> exited w"
    and "serve jl ts (w, c) = (rs, alive)"
  shows "answers io' = answers io @ rs \<and> current_task w' = None \<and> (exited w' \<longleftrightarrow> \<not> alive) \<and> (alive \<longrightarrow> task_queue w' = [])"
  using assms
proof (induction ts arbitrary: ticks w c io rs)
  case (Cons t ts)
  obtain t0 t1 ticks' where k: "ticks = (t0, t1) # ticks'" "length ticks' = length ts"
    using Cons.prems(2) by (cases ticks) auto
  obtain w1 c1 io1 where it: "run_iteration jl obs t0 t1 w c io = (w1, c1, io1)" by (metis prod_cases3)
  obtain w2 c2 r where p: "process_task jl (t_type t) (t_kwargs t) (w, c) = ((w2, c2), r)" by (metis prod.exhaust)
  have "\<not> exited w2" using sound_opD(1) [OF sound_process_task p] Cons.prems(5) by (simp add: same_thread_def)
  note R = round_replies [OF _ Cons.prems(5) p it, of ts]
  have rest: "run_thread jl obs ticks' w1 c1 io1 = (w', c', io')" using Cons.prems(1,5) k(1) it by simp
  show ?case
  proof (cases "goes_on r")
    case True
    obtain rs' where s: "serve jl ts (w2, c2) = (rs', alive)" "rs = replies t r @ rs'"
      using Cons.prems(6) p True by (auto split: prod.splits)
    have w1: "w1 = as_thread (map Some ts) None None w2" "c1 = c2" using R(1,3) Cons.prems(3) True by simp_all
    have "r \<noteq> Inl ServiceUnavailable" using True by (auto simp: goes_on_def)
    then have "answers io1 = answers io @ replies t r" using R(2) Cons.prems(3) by simp
    moreover from Cons.IH [OF rest k(2)] w1 \<open>\<not> exited w2\<close> s(1)
    have "answers io' = answers io1 @ rs' \<and> current_task w' = None \<and> (exited w' \<longleftrightarrow> \<not> alive) \<and> (alive \<longrightarrow> task_queue w' = [])"
      by (simp add: serve_free)
    ultimately show ?thesis using s(2) by simp
  next
    case False
    then have "exited w1" "current_task w1 = None" using R(3) Cons.prems(3) by (simp_all add: as_thread_def)
    moreover from this rest have "w' = w1" "io' = io1" by (cases ticks'; auto)+
    ultimately show ?thesis using R(2) Cons.prems(3,6) p False by auto
  qed
qed auto

text \<open>A document task whose change takes 6 seconds, then one of an unknown type.\<close>

theorem thread_serves_its_queue_witness:
  "\<exists>w' c' io'. run_thread (\<lambda>_. None) demo_observer [(0, 6), (6, 7)]
       (demo_worker\<lparr>current_task := None, task_queue := [Some (demo_task ''extract_declarations'' 7), Some (demo_task ''nope'' 8)]\<rparr>)
       demo_server demo_io = (w', c', io')
     \<and> answers io' = [(7, Ok demo_result), (8, Failed (KeyError ''nope'') False None)] \<and> task_queue w' = [] \<and> \<not> exited w'"
proof -
  let ?ts = "[demo_task ''extract_declarations'' 7, demo_task ''nope'' 8]"
  let ?w = "demo_worker\<lparr>current_task := None, task_queue := map Some ?ts\<rparr>"
  obtain w' c' io' where r: "run_thread (\<lambda>_. None) demo_observer [(0, 6), (6, 7)] ?w demo_server demo_io = (w', c', io')"
    by (metis prod_cases3)
  have w: "?w = as_thread (map Some ?ts) None (Some 0) demo_worker" by (simp add: as_thread_def demo_worker_def)
  obtain st where p: "process_task (\<lambda>_. None) ''extract_declarations'' demo_kwargs (demo_worker, demo_server) = (st, Inr demo_result)"
    unfolding demo_process using demo_extract by (metis prod.collapse)
  have n: "process_task (\<lambda>_. None) ''nope'' kw st = (st, Inl (KeyError ''nope''))" for kw st
    by (simp add: process_task_def method_params_def plain_rpcs_def)
  have "diagnostic_count ''extract_declarations'' demo_result \<noteq> None"
    by (simp add: demo_result_def diagnostic_count_def json_len_def)
  then have "serve (\<lambda>_. None) ?ts (?w, demo_server) = ([(7, Ok demo_result), (8, Failed (KeyError ''nope'') False None)], True)"
    unfolding w serve_free using p n by (simp add: goes_on_def replies_def demo_task_def)
  from thread_serves_its_queue [OF r _ _ _ _ this] r show ?thesis by (simp add: demo_worker_def demo_io_def)
qed

end
