(* ===== verification/Spec2Isabelle.thy ===== *)
theory Spec2Isabelle imports Blame Environment Systemd Supervisor Conservation Service begin

text \<open>
  PyLeaner is a Python client of the Lean 4 language server: a pool of worker threads, each owning one
  document, a watchdog in a process of its own that restarts the server when it dies, wedges or eats the
  memory, and a submission function that hides restarts from callers who are not to blame for them. This
  development models its core (\<open>pyleaner/*.py\<close>), one theory per part:

  \<^item> \<open>Prelude\<close>: Python values, dictionaries with insertion order, FIFO queues, decimal numerals. The
    interfaces \<open>py_dict\<close> and \<open>fifo_queue\<close> are interpreted on the model's own operations.
  \<^item> \<open>PyText\<close>: the string methods that the source uses (\<open>split\<close>, \<open>strip\<close>, \<open>splitlines\<close>, \<open>int\<close>, ...).
  \<^item> \<open>Errors\<close> (\<open>errors.py\<close>, \<open>rpc_session.py\<close>): exceptions as a datatype; a raising computation returns
    \<open>exn + 'a\<close>.
  \<^item> \<open>Tunables\<close> (\<open>watchdog.py\<close>): deadlines, intervals and the waits derived from them.
  \<^item> \<open>TimeoutPolicy\<close> (\<open>timeout_policy.py\<close>): the timeout streak of a sample, its journal on a file system
    whose every operation may fail, and the tool boundary.
  \<^item> \<open>Json\<close>: what \<open>json.dumps\<close> writes, with sorted keys, and that no text is a prefix of another's.
  \<^item> \<open>Wire\<close> (\<open>client.py\<close>): framing of messages, reading them from a pipe that cuts them anywhere, the
    error stream.
  \<^item> \<open>Client\<close> (\<open>client.py\<close>): message identifiers, pending requests, \<open>request\<close>, \<open>notify\<close>, dispatch of
    responses.
  \<^item> \<open>RpcSession\<close> (\<open>rpc_session.py\<close>): connection, calls with one reconnect, keep-alive rounds.
  \<^item> \<open>Document\<close> (\<open>worker.py\<close>): \<open>_didopen\<close> and \<open>_didchange\<close>, on a clock. A change ends within its timeout; opening
    a document has no such bound.
  \<^item> \<open>Events\<close> (\<open>__init__.py\<close>, \<open>observability.py\<close>, \<open>watchdog.py\<close>): tasks, answers, lifecycle events and
    the commands to the monitor; \<open>io\<close> collects what a thread sends to the others.
  \<^item> \<open>Worker\<close> (\<open>worker.py\<close>): the thread loop and its 22 operations; \<open>Pool\<close> (\<open>pool.py\<close>): creation,
    submission, the router, the public operations; \<open>Routing\<close> (\<open>client.py\<close>): notifications on their way
    to the worker of their document, and the buffers before there is one. \<open>Service\<close>: the thread's loop answers
    what a reference without queue, current task and thread answers.
  \<^item> \<open>ProcFs\<close>, \<open>Worklist\<close>, \<open>ProcessTree\<close> (\<open>watchdog.py\<close>): the readers of \<open>/proc\<close>, the search for the
    descendants of the server (an instance of a generic worklist) and the order in which they are killed.
  \<^item> \<open>Monitor\<close> (\<open>watchdog.py\<close>): the monitor process, as commands and ticks over a view of the system.
  \<^item> \<open>Watchdog\<close> (\<open>watchdog.py\<close>): its construction, the scopes and guards it owns.
  \<^item> \<open>Recovery\<close> (\<open>watchdog.py\<close>, \<open>client.py\<close>): attribution of blame, teardown, kill, reconnect, rebuild,
    and the retries of all this.
  \<^item> \<open>Resilient\<close> (\<open>client.py\<close>): \<open>submit_resilient\<close>, with its waits on \<open>server_ready\<close>, which have no timeout: whether
    they end is part of the script, and when one does not, the result is that the caller waits; \<open>Blame\<close>: the way of an accusation from the monitor through
    the restart and the worker to the caller, and into the timeout streak of the sample.
  \<^item> \<open>Shutdown\<close> (\<open>watchdog.py\<close>, \<open>client.py\<close>, \<open>rpc_session.py\<close>): \<open>Watchdog.stop\<close>, \<open>exit\<close>, the hook that reaps
    the servers when the interpreter ends, the thread that sends keep-alives.
  \<^item> \<open>Systemd\<close> (\<open>watchdog.py\<close>): the commands that create, query and stop scopes.
  \<^item> \<open>Environment\<close> (\<open>observability.py\<close>, \<open>client.py\<close>): import lines, the closure of local imports (the second
    instance of \<open>Worklist\<close>), the fingerprints of an environment, their caches, trace contexts.
  \<^item> \<open>Interleave\<close>, \<open>System\<close>: the client's operations, then the whole program, as a transition system whose steps are
    what one thread does between two points where others may act, and an invariant of every step. The threads of
    pools that a restart has replaced go on taking steps.
    \<open>Refinement\<close>: connecting, building a pool, restarts, \<open>exit\<close> and worker rounds are sequences of such steps.
    \<open>Reachable\<close>: what holds in every state that some schedule reaches. \<open>Conservation\<close>: what a whole schedule
    does to the answers and the tasks of one queue.
  \<^item> \<open>Receiver\<close> (\<open>watchdog.py\<close>): the loop of \<open>_receive_events\<close>. \<open>Supervisor\<close>: an abstract supervisor, which knows
    generations, an open or closed door and the accusations it has acted on, and which the loop refines.

  The steps of \<open>System\<close> allow more than the program does: some of them take arbitrary arguments (which workers are
  marked, what a new document looks like, whether \<open>server_ready\<close> is set). What holds in all reachable states, or on
  all schedules, therefore holds of the program all the more, but that an operation is a sequence of steps says
  little about it; what the operations do is stated of the functions themselves. \<open>begin_restart\<close> is one function
  where the code takes its locks one after the other. Theorems about it describe a restart whose beginning is not
  interleaved with other threads; its single steps (pausing, marking, poisoning, the teardown, waking) are steps of
  \<open>System\<close>, so that what is said of reachable states and of schedules covers every interleaving of them.

  State is a record per object and every operation a function on it. The environment is a parameter:
  what the server answers and when (scripts of replies, of timed notifications, of meetings between a
  submission and the pool), which writes and file operations raise, what \<open>/proc\<close>, \<open>pgrep\<close>, cgroups and
  systemd report. Theorems quantify over these scripts, hence over every behaviour of the server.
  Loops that may not end are a search with \<open>While_Combinator\<close> (whose \<open>None\<close> is divergence, excluded by
  theorems for finite process trees and finite projects) or run over a script of what the environment does, of any length.
  A script is what has happened so far: an endless stream of messages is the sequence of its beginnings, on which a
  call that is not over takes longer and longer.
  Times are reals; Python integers are \<open>int\<close>.

  Threads and locks are not modelled as such: operations on shared state are atomic steps, which is what the
  code's locks provide, and \<open>System\<close> lets every other thread act between any two of them. Hashes, the printing
  of floating-point numbers and drawn identifiers are parameters. Files are read as the program reads them, decoded
  (a file is given by its characters, with code points below 256, or by the exception that decoding raises) and with
  line endings translated.

  Not modelled: the Lean code that runs in the server, the system call of \<open>_set_parent_death_signal\<close>, the
  installation of signal handlers, \<open>Watchdog.stop\<close> after a monitor process that could not be started (its \<open>join\<close>
  raises), printing and debug output, \<open>as_dict\<close> and \<open>_wait_result\<close> (which nothing calls),
  the demo and the tests.
\<close>

end
